(* ===== verification/Prelude.thy ===== *)
theory Prelude
  imports
    Main
    "HOL-Library.Word"
    "HOL-Library.Char_ord"
    "HOL-Library.List_Lexorder"
    "HOL-Library.Multiset"
begin

text \<open>
  Shared vocabulary of the development: the machine integers of the Go code, its
  error values, the two loop shapes that recur in every component (a loop that
  returns at the first error, and the collecting loop that builds a slice), and
  the generic lemmas about them.

  A Go function with results \<open>(T, error)\<close> is modelled by a value of
  \<open>err + T\<close>: \<open>Inl e\<close> for a non-nil error, \<open>Inr x\<close> otherwise. The text of
  an error message is not modelled; the error's class is, wherever the code looks at it.
\<close>

section \<open>Machine integers\<close>

type_synonym u64 = "64 word"
type_synonym u32 = "32 word"

text \<open>A float64 is kept as its IEEE 754 bit pattern; the code only stores and copies them.\<close>

type_synonym f64 = "64 word"

definition max_u64 :: nat where
  "max_u64 = 2 ^ 64 - 1"

definition max_int64 :: nat where
  "max_int64 = 2 ^ 63 - 1"

lemma unat_u64_less: "unat (x :: u64) < 18446744073709551616"
  using unsigned_less [of x] by simp

lemma unat_u32_less: "unat (x :: u32) < 4294967296"
  using unsigned_less [of x] by simp

lemma unat_u64_le_max: "unat (x :: u64) \<le> max_u64"
  using unat_u64_less [of x] by (simp add: max_u64_def)

lemma unat_plus_one: "(x :: u64) \<noteq> - 1 \<Longrightarrow> unat (x + 1) = unat x + 1"
proof -
  assume "x \<noteq> - 1"
  then have "1 + x \<noteq> 0" by (metis add_eq_0_iff)
  from unatSuc [OF this] show ?thesis by (simp only: add.commute [of x 1] Suc_eq_plus1)
qed

section \<open>Errors\<close>

text \<open>The two causes of a \<open>strconv.NumError\<close>.\<close>

datatype num_err = ErrSyntax | ErrRange

text \<open>
  Error classes. \<open>ErrNotExist\<close> is \<open>fs.ErrNotExist\<close> (\<open>os.IsNotExist\<close> holds of it);
  \<open>ErrIO\<close> is any other failure of a file operation; \<open>ErrTooLong\<close> is
  \<open>bufio.ErrTooLong\<close>; \<open>ErrPanic\<close> stands
  for a run-time panic (a nil dereference); the rest are errors the code makes itself.
\<close>

datatype err =
    ErrNotExist
  | ErrIO
  | ErrNum num_err
  | ErrTooLong
  | ErrIomemMasked
  | ErrFieldCount nat nat
  | ErrNet
  | ErrStatus nat
  | ErrCancelled
  | ErrInvalid string
  | ErrPanic

section \<open>Loops that return at the first error\<close>

named_theorems res_simps \<open>unfolding rules for the error-returning loops\<close>

definition bind_res :: "'e + 'a \<Rightarrow> ('a \<Rightarrow> 'e + 'b) \<Rightarrow> 'e + 'b" where
  "bind_res x f = (case x of Inl e \<Rightarrow> Inl e | Inr a \<Rightarrow> f a)"

lemma bind_res_Inl [simp, res_simps]: "bind_res (Inl e) f = Inl e"
  and bind_res_Inr [simp, res_simps]: "bind_res (Inr a) f = f a"
  by (simp_all add: bind_res_def)

lemma bind_res_eq_Inr:
  "bind_res x f = Inr b \<longleftrightarrow> (\<exists>a. x = Inr a \<and> f a = Inr b)"
  by (cases x) simp_all

lemma bind_res_eq_Inl:
  "bind_res x f = Inl e \<longleftrightarrow> x = Inl e \<or> (\<exists>a. x = Inr a \<and> f a = Inl e)"
  by (cases x) simp_all

fun fold_res :: "('s \<Rightarrow> 'a \<Rightarrow> 'e + 's) \<Rightarrow> 's \<Rightarrow> 'a list \<Rightarrow> 'e + 's" where
  "fold_res f s [] = Inr s"
| "fold_res f s (x # xs) =
     (case f s x of Inl e \<Rightarrow> Inl e | Inr s' \<Rightarrow> fold_res f s' xs)"

fun map_res :: "('a \<Rightarrow> 'e + 'b) \<Rightarrow> 'a list \<Rightarrow> 'e + 'b list" where
  "map_res f [] = Inr []"
| "map_res f (x # xs) =
     (case f x of Inl e \<Rightarrow> Inl e
      | Inr y \<Rightarrow> (case map_res f xs of Inl e \<Rightarrow> Inl e | Inr ys \<Rightarrow> Inr (y # ys)))"

lemma fold_res_append:
  "fold_res f s (xs @ ys) = bind_res (fold_res f s xs) (\<lambda>s'. fold_res f s' ys)"
  by (induction xs arbitrary: s) (auto split: sum.splits)

lemma fold_res_snoc_Inr:
  "fold_res f s (xs @ [x]) = Inr t \<longleftrightarrow> (\<exists>u. fold_res f s xs = Inr u \<and> f u x = Inr t)"
proof -
  have "fold_res f u [x] = f u x" for u by (cases "f u x") simp_all
  then show ?thesis by (simp add: fold_res_append bind_res_eq_Inr)
qed

lemma fold_res_inv:
  assumes "fold_res f s xs = Inr t" and "P s"
    and "\<And>s x s'. x \<in> set xs \<Longrightarrow> P s \<Longrightarrow> f s x = Inr s' \<Longrightarrow> P s'"
  shows "P t"
  using assms(1-2) assms(3)
proof (induction xs arbitrary: s)
  case (Cons x xs)
  then obtain s' where "f s x = Inr s'" and "fold_res f s' xs = Inr t"
    by (cases "f s x") auto
  then show ?case using Cons.IH [of s'] Cons.prems(2,3) by (meson list.set_intros)
qed simp

lemma fold_res_filter:
  assumes "\<And>s x. \<not> P x \<Longrightarrow> f s x = Inr s"
  shows "fold_res f s (filter P xs) = fold_res f s xs"
  using assms by (induction xs arbitrary: s) (auto split: sum.splits)

lemma map_res_Inr_iff:
  "map_res f xs = Inr ys \<longleftrightarrow> list_all2 (\<lambda>x y. f x = Inr y) xs ys"
proof (induction xs arbitrary: ys)
  case Nil
  then show ?case by auto
next
  case (Cons x xs)
  have "map_res f (x # xs) = Inr ys \<longleftrightarrow>
      (\<exists>z zs. f x = Inr z \<and> map_res f xs = Inr zs \<and> ys = z # zs)"
    by (auto split: sum.splits)
  then show ?case by (auto simp: list_all2_Cons1 Cons.IH)
qed

lemma map_res_length: "map_res f xs = Inr ys \<Longrightarrow> length ys = length xs"
  by (auto simp: map_res_Inr_iff dest: list_all2_lengthD)

lemma map_res_all_Inr:
  "(\<And>x. x \<in> set xs \<Longrightarrow> f x = Inr (g x)) \<Longrightarrow> map_res f xs = Inr (map g xs)"
  by (induction xs) auto

section \<open>Sorting\<close>

text \<open>
  \<open>sort.Slice\<close>, \<open>sort.Strings\<close>, \<open>sort.Ints\<close> and \<open>slices.Sort\<close> are modelled by
  \<^theory_text>\<open>sort_key\<close>, the stable choice among the orders Go's unstable sort may return.
\<close>

lemma mset_map_filter_sort_key:
  "mset (List.map_filter g (sort_key f xs)) = mset (List.map_filter g xs)"
  by (simp add: List.map_filter_def)

lemma sort_eqI: "mset xs = mset ys \<Longrightarrow> sorted ys \<Longrightarrow> sort xs = ys"
  by (metis properties_for_sort)

lemma map_of_enumerate:
  assumes "inj g" and "k < length xs"
  shows "map_of (map (\<lambda>(i, x). (g i, h x)) (enumerate 0 xs)) (g k) = Some (h (xs ! k))"
proof (rule map_of_is_SomeI)
  have "fst \<circ> (\<lambda>(i, x). (g i, h x)) = g \<circ> fst" by auto
  then have "map fst (map (\<lambda>(i, x). (g i, h x)) (enumerate 0 xs)) = map g (map fst (enumerate 0 xs))"
    by (simp only: map_map)
  also have "\<dots> = map g [0..<length xs]" by simp
  finally show "distinct (map fst (map (\<lambda>(i, x). (g i, h x)) (enumerate 0 xs)))"
    using inj_on_subset [OF assms(1), of "{0..<length xs}"] by (simp only: distinct_map) simp
  have "(k, xs ! k) \<in> set (enumerate 0 xs)"
    using assms(2) by (simp add: in_set_enumerate_eq)
  then show "(g k, h (xs ! k)) \<in> set (map (\<lambda>(i, x). (g i, h x)) (enumerate 0 xs))"
    by force
qed

lemma sort_key_perm_sorted:
  "mset (sort_key f xs) = mset xs \<and> sorted (map f (sort_key f xs))"
  by simp

end
