(* ===== verification/GoStrings.thy ===== *)
theory GoStrings
  imports Prelude
begin

text \<open>
  The parts of Go's standard library the program's parsers are written against:
  \<open>unicode/utf8\<close> decoding, \<open>strings\<close> (TrimSpace, Fields, Split, Cut, Join, prefixes and
  suffixes), \<open>strconv\<close> (ParseUint, Atoi, FormatUint, Itoa) and the line splitting of
  \<open>bufio.Scanner\<close>. A Go string is a byte sequence, and so is a \<^typ>\<open>string\<close> here.
\<close>

section \<open>Runes\<close>

definition byte_at :: "string \<Rightarrow> nat \<Rightarrow> nat" where
  "byte_at s i = (if i < length s then of_char (s ! i) else 0)"

definition is_cont :: "nat \<Rightarrow> bool" where
  "is_cont b \<longleftrightarrow> 128 \<le> b \<and> b \<le> 191"

text \<open>
  \<open>utf8.DecodeRuneInString\<close>: the first rune and its width in bytes; an invalid
  encoding is the replacement character with width 1, the empty string has width 0.
\<close>

definition decode_rune :: "string \<Rightarrow> nat \<times> nat" where
  "decode_rune s =
     (if s = [] then (65533, 0)
      else
        let b0 = byte_at s 0; b1 = byte_at s 1; b2 = byte_at s 2; b3 = byte_at s 3
        in if b0 < 128 then (b0, 1)
           else if 194 \<le> b0 \<and> b0 \<le> 223 \<and> is_cont b1
             then ((b0 - 192) * 64 + (b1 - 128), 2)
           else if 224 \<le> b0 \<and> b0 \<le> 239
               \<and> (if b0 = 224 then 160 else 128) \<le> b1
               \<and> b1 \<le> (if b0 = 237 then 159 else 191) \<and> is_cont b2
             then ((b0 - 224) * 4096 + (b1 - 128) * 64 + (b2 - 128), 3)
           else if 240 \<le> b0 \<and> b0 \<le> 244
               \<and> (if b0 = 240 then 144 else 128) \<le> b1
               \<and> b1 \<le> (if b0 = 244 then 143 else 191) \<and> is_cont b2 \<and> is_cont b3
             then ((b0 - 240) * 262144 + (b1 - 128) * 4096 + (b2 - 128) * 64 + (b3 - 128), 4)
           else (65533, 1))"

text \<open>\<open>unicode.IsSpace\<close>.\<close>

definition is_space :: "nat \<Rightarrow> bool" where
  "is_space r \<longleftrightarrow>
     9 \<le> r \<and> r \<le> 13 \<or> r = 32 \<or> r = 133 \<or> r = 160 \<or> r = 5760
     \<or> 8192 \<le> r \<and> r \<le> 8202 \<or> r = 8232 \<or> r = 8233 \<or> r = 8239 \<or> r = 8287 \<or> r = 12288"

definition is_ascii :: "char \<Rightarrow> bool" where
  "is_ascii c \<longleftrightarrow> (of_char c :: nat) < 128"

definition is_word_char :: "char \<Rightarrow> bool" where
  "is_word_char c \<longleftrightarrow> is_ascii c \<and> \<not> is_space (of_char c)"

lemma decode_rune_Nil [simp]: "decode_rune [] = (65533, 0)"
  by (simp add: decode_rune_def)

lemma decode_rune_ascii [simp]:
  "is_ascii c \<Longrightarrow> decode_rune (c # s) = (of_char c, 1)"
  by (simp add: decode_rune_def is_ascii_def byte_at_def)

lemma byte_at_pos: "0 < byte_at s i \<Longrightarrow> i < length s"
  by (auto simp: byte_at_def split: if_splits)

lemma is_cont_byte_at: "is_cont (byte_at s i) \<Longrightarrow> i < length s"
  by (rule byte_at_pos) (simp add: is_cont_def)

lemma decode_rune_pos: "s \<noteq> [] \<Longrightarrow> 0 < snd (decode_rune s)"
  by (simp add: decode_rune_def Let_def)

lemma decode_rune_drop: "s \<noteq> [] \<Longrightarrow> (r, n) = decode_rune s \<Longrightarrow> 0 < n \<and> 0 < length s"
  using decode_rune_pos [of s] by (metis length_greater_0_conv snd_conv)

lemma decode_rune_le: "snd (decode_rune s) \<le> length s"
proof (cases "s = []")
  case False
  then have "1 \<le> length s" by (simp add: Suc_le_eq)
  moreover have "is_cont (byte_at s 1) \<Longrightarrow> 2 \<le> length s" "is_cont (byte_at s 2) \<Longrightarrow> 3 \<le> length s"
    "is_cont (byte_at s 3) \<Longrightarrow> 4 \<le> length s"
    using is_cont_byte_at by fastforce+
  ultimately show ?thesis by (simp add: decode_rune_def Let_def)
qed simp

section \<open>Trimming and fields\<close>

text \<open>The width of the white-space rune a string starts with, 0 if it starts with none.\<close>

definition space_len :: "string \<Rightarrow> nat" where
  "space_len s = (case decode_rune s of (r, n) \<Rightarrow> if is_space r then n else 0)"

text \<open>
  The width of the white-space rune a string ends with. White-space runes are at most
  three bytes long and none of their encodings ends in another one's, so the shortest
  suffix that decodes to one is what \<open>utf8.DecodeLastRuneInString\<close> finds.
\<close>

definition last_space_len :: "string \<Rightarrow> nat" where
  "last_space_len s =
     (let n = length s; w = (\<lambda>k. k \<le> n \<and> space_len (drop (n - k) s) = k)
      in if w 1 then 1 else if w 2 then 2 else if w 3 then 3 else 0)"

lemma space_len_Nil [simp]: "space_len [] = 0"
  by (simp add: space_len_def is_space_def)

lemma space_len_le: "space_len s \<le> length s"
  using decode_rune_le [of s] by (auto simp: space_len_def split: prod.splits)

lemma space_len_pos_length: "0 < space_len s \<Longrightarrow> 0 < length s"
  by (cases s) simp_all

lemma space_len_ascii:
  "is_ascii c \<Longrightarrow> space_len (c # s) = (if is_space (of_char c) then 1 else 0)"
  by (simp add: space_len_def)

function trim_left :: "string \<Rightarrow> string" where
  "trim_left s = (if space_len s = 0 then s else trim_left (drop (space_len s) s))"
  by pat_completeness auto
termination
  by (relation "measure length") (auto intro!: diff_less space_len_pos_length)

function trim_right :: "string \<Rightarrow> string" where
  "trim_right s =
     (if last_space_len s = 0 then s else trim_right (take (length s - last_space_len s) s))"
  by pat_completeness auto
termination
  by (relation "measure length") (auto simp: last_space_len_def Let_def split: if_splits)

declare trim_left.simps [simp del] trim_right.simps [simp del]

text \<open>\<open>strings.TrimSpace\<close>.\<close>

definition trim_space :: "string \<Rightarrow> string" where
  "trim_space s = trim_right (trim_left s)"

text \<open>
  \<open>strings.Fields\<close>: the maximal runs of runes that are not white space, where \<open>cur\<close> is the
  run being collected.
\<close>

function fields_from :: "string \<Rightarrow> string \<Rightarrow> string list" where
  "fields_from cur s =
     (if s = [] then (if cur = [] then [] else [cur])
      else (case decode_rune s of (r, n) \<Rightarrow>
        if is_space r
        then (if cur = [] then [] else [cur]) @ fields_from [] (drop n s)
        else fields_from (cur @ take n s) (drop n s)))"
  by pat_completeness auto
termination
  by (relation "measure (\<lambda>(cur, s). length s)") (auto simp: diff_less dest: decode_rune_drop)

declare fields_from.simps [simp del]

definition str_fields :: "string \<Rightarrow> string list" where
  "str_fields s = fields_from [] s"

lemma fields_from_Nil [simp]: "fields_from cur [] = (if cur = [] then [] else [cur])"
  by (simp add: fields_from.simps)

lemma fields_from_ascii:
  "is_ascii c \<Longrightarrow> fields_from cur (c # s) =
     (if is_space (of_char c) then (if cur = [] then [] else [cur]) @ fields_from [] s
      else fields_from (cur @ [c]) s)"
  by (simp add: fields_from.simps [of cur "c # s"])

named_theorems str_eval \<open>rules that evaluate the string functions on literals\<close>

lemmas fields_eval [str_eval] =
  str_fields_def fields_from_ascii is_ascii_def is_space_def is_word_char_def

section \<open>Prefixes, suffixes, cutting and splitting\<close>

definition has_prefix :: "string \<Rightarrow> string \<Rightarrow> bool" where
  "has_prefix s p \<longleftrightarrow> take (length p) s = p"

definition has_suffix :: "string \<Rightarrow> string \<Rightarrow> bool" where
  "has_suffix s p \<longleftrightarrow> length p \<le> length s \<and> drop (length s - length p) s = p"

definition trim_prefix :: "string \<Rightarrow> string \<Rightarrow> string" where
  "trim_prefix s p = (if has_prefix s p then drop (length p) s else s)"

definition trim_suffix :: "string \<Rightarrow> string \<Rightarrow> string" where
  "trim_suffix s p = (if has_suffix s p then take (length s - length p) s else s)"

text \<open>\<open>strings.CutSuffix\<close> and \<open>strings.Cut\<close>: \<open>None\<close> is \<open>ok = false\<close>.\<close>

definition cut_suffix :: "string \<Rightarrow> string \<Rightarrow> string option" where
  "cut_suffix s p = (if has_suffix s p then Some (take (length s - length p) s) else None)"

fun cut :: "string \<Rightarrow> string \<Rightarrow> (string \<times> string) option" where
  "cut [] sep = (if sep = [] then Some ([], []) else None)"
| "cut (c # s) sep =
     (if has_prefix (c # s) sep then Some ([], drop (length sep) (c # s))
      else map_option (\<lambda>(a, b). (c # a, b)) (cut s sep))"

text \<open>\<open>strings.Split\<close> and \<open>strings.SplitSeq\<close> for a one-byte separator.\<close>

fun split_on :: "char \<Rightarrow> string \<Rightarrow> string list" where
  "split_on c [] = [[]]"
| "split_on c (x # xs) =
     (if x = c then [] # split_on c xs
      else (case split_on c xs of [] \<Rightarrow> [[x]] | y # ys \<Rightarrow> (x # y) # ys))"

text \<open>\<open>strings.SplitN\<close> for a one-byte separator and a positive count.\<close>

fun split_n :: "char \<Rightarrow> nat \<Rightarrow> string \<Rightarrow> string list" where
  "split_n c 0 s = []"
| "split_n c (Suc 0) s = [s]"
| "split_n c (Suc (Suc k)) s =
     (case cut s [c] of None \<Rightarrow> [s] | Some (a, b) \<Rightarrow> a # split_n c (Suc k) b)"

fun join :: "string \<Rightarrow> string list \<Rightarrow> string" where
  "join sep [] = []"
| "join sep [x] = x"
| "join sep (x # y # ys) = x @ sep @ join sep (y # ys)"

lemmas cut_eval [str_eval] =
  has_prefix_def has_suffix_def trim_prefix_def trim_suffix_def cut_suffix_def

lemma has_prefix_append [simp]: "has_prefix (p @ s) p"
  by (simp add: has_prefix_def)

lemma has_suffix_append [simp]: "has_suffix (s @ p) p"
  by (simp add: has_suffix_def)

lemma trim_prefix_append [simp]: "trim_prefix (p @ s) p = s"
  by (simp add: trim_prefix_def)

lemma trim_suffix_append [simp]: "trim_suffix (s @ p) p = s"
  by (simp add: trim_suffix_def)

lemma has_prefixD: "has_prefix s p \<Longrightarrow> \<exists>t. s = p @ t"
  unfolding has_prefix_def by (metis append_take_drop_id)

lemma has_suffixD: "has_suffix s p \<Longrightarrow> \<exists>t. s = t @ p"
  unfolding has_suffix_def by (metis append_take_drop_id)

lemma cut_Some: "cut s sep = Some (a, b) \<Longrightarrow> s = a @ sep @ b"
proof (induction s arbitrary: a)
  case (Cons c s)
  show ?case
  proof (cases "has_prefix (c # s) sep")
    case True
    then show ?thesis using Cons.prems has_prefixD [OF True] by auto
  next
    case False
    then show ?thesis using Cons by (auto split: prod.splits)
  qed
qed (auto split: if_splits)

lemma cut_fresh: "sep \<noteq> [] \<Longrightarrow> hd sep \<notin> set a \<Longrightarrow> cut (a @ sep @ b) sep = Some (a, b)"
proof (induction a)
  case Nil
  then show ?case by (cases sep) (auto simp: has_prefix_def)
next
  case (Cons x a)
  then show ?case by (cases sep) (auto simp: has_prefix_def)
qed

lemma cut_char_fresh: "c \<notin> set a \<Longrightarrow> cut (a @ c # b) [c] = Some (a, b)"
  by (induction a) (auto simp: has_prefix_def)

lemma cut_char_None: "c \<notin> set s \<Longrightarrow> cut s [c] = None"
  by (induction s) (auto simp: has_prefix_def)

lemma split_on_nonempty [simp]: "split_on c s \<noteq> []"
  by (induction s) (auto split: list.splits)

lemma split_on_no_sep: "c \<notin> set s \<Longrightarrow> split_on c s = [s]"
  by (induction s) auto

lemma split_on_append_sep:
  "c \<notin> set s \<Longrightarrow> split_on c (s @ c # t) = s # split_on c t"
  by (induction s) auto

lemma split_on_join:
  "xs \<noteq> [] \<Longrightarrow> \<forall>x \<in> set xs. c \<notin> set x \<Longrightarrow> split_on c (join [c] xs) = xs"
  by (induction "[c]" xs rule: join.induct) (auto simp: split_on_no_sep split_on_append_sep)

lemma join_split_on: "join [c] (split_on c s) = s"
proof (induction s)
  case (Cons x s)
  then show ?case
    by (cases "split_on c s"; cases "tl (split_on c s)") auto
qed simp

lemma split_on_pieces: "x \<in> set (split_on c s) \<Longrightarrow> c \<notin> set x"
proof (induction s arbitrary: x)
  case (Cons a s)
  then show ?case by (cases "split_on c s") (auto split: if_splits)
qed simp

section \<open>Numbers\<close>

text \<open>The value of a digit in bases up to 36; \<open>None\<close> for a byte that is no digit.\<close>

definition digit_val :: "char \<Rightarrow> nat option" where
  "digit_val c =
     (let k = of_char c
      in if 48 \<le> k \<and> k \<le> 57 then Some (k - 48)
         else if 97 \<le> k \<and> k \<le> 122 then Some (k - 87)
         else if 65 \<le> k \<and> k \<le> 90 then Some (k - 55)
         else None)"

text \<open>
  The loop of \<open>strconv.ParseUint\<close>, with the accumulated value \<open>n\<close> and the largest value
  \<open>m\<close> of the requested width: the first bad digit or the first overflow decides the error.
\<close>

fun parse_loop :: "nat \<Rightarrow> nat \<Rightarrow> nat \<Rightarrow> string \<Rightarrow> num_err + nat" where
  "parse_loop base m n [] = Inr n"
| "parse_loop base m n (c # cs) =
     (case digit_val c of
        None \<Rightarrow> Inl ErrSyntax
      | Some d \<Rightarrow>
          if base \<le> d then Inl ErrSyntax
          else if m < n * base + d then Inl ErrRange
          else parse_loop base m (n * base + d) cs)"

definition parse_uint :: "nat \<Rightarrow> nat \<Rightarrow> string \<Rightarrow> num_err + nat" where
  "parse_uint base bits s =
     (if s = [] then Inl ErrSyntax else parse_loop base (2 ^ bits - 1) 0 s)"

text \<open>\<open>strconv.ParseUint(s, 10, 64)\<close> and \<open>strconv.ParseUint(s, 16, 64)\<close>, as the callers use them.\<close>

definition parse_u64 :: "string \<Rightarrow> err + u64" where
  "parse_u64 s =
     (case parse_uint 10 64 s of Inl e \<Rightarrow> Inl (ErrNum e) | Inr n \<Rightarrow> Inr (word_of_nat n))"

definition parse_hex64 :: "string \<Rightarrow> err + u64" where
  "parse_hex64 s =
     (case parse_uint 16 64 s of Inl e \<Rightarrow> Inl (ErrNum e) | Inr n \<Rightarrow> Inr (word_of_nat n))"

text \<open>\<open>strconv.Atoi\<close> on a 64-bit platform.\<close>

definition atoi :: "string \<Rightarrow> num_err + int" where
  "atoi s =
     (let neg = (s \<noteq> [] \<and> hd s = CHR ''-'');
          body = (if s \<noteq> [] \<and> (hd s = CHR ''-'' \<or> hd s = CHR ''+'') then tl s else s)
      in case parse_uint 10 64 body of
           Inl e \<Rightarrow> Inl e
         | Inr n \<Rightarrow>
             if \<not> neg \<and> 2 ^ 63 \<le> n then Inl ErrRange
             else if neg \<and> 2 ^ 63 < n then Inl ErrRange
             else Inr (if neg then - int n else int n))"

text \<open>\<open>strconv.FormatUint(n, 10)\<close>, \<open>strconv.Itoa\<close> of a non-negative int, and the \<open>%d\<close> verb.\<close>

definition digit_char :: "nat \<Rightarrow> char" where
  "digit_char d = ''0123456789abcdefghijklmnopqrstuvwxyz'' ! d"

function format_base :: "nat \<Rightarrow> nat \<Rightarrow> string" where
  "format_base b n =
     (if b < 2 \<or> n < b then [digit_char n] else format_base b (n div b) @ [digit_char (n mod b)])"
  by pat_completeness auto
termination
  by (relation "measure snd") (auto intro: div_less_dividend)

declare format_base.simps [simp del]

definition format_uint :: "nat \<Rightarrow> string" where
  "format_uint n = format_base 10 n"

text \<open>\<open>strconv.Itoa\<close> of any int.\<close>

definition itoa :: "int \<Rightarrow> string" where
  "itoa i = (if i < 0 then CHR ''-'' # format_uint (nat (- i)) else format_uint (nat i))"

definition digits_value :: "nat \<Rightarrow> nat \<Rightarrow> string \<Rightarrow> nat" where
  "digits_value base n cs = foldl (\<lambda>a c. a * base + the (digit_val c)) n cs"

definition digits_ok :: "nat \<Rightarrow> string \<Rightarrow> bool" where
  "digits_ok base cs \<longleftrightarrow> list_all (\<lambda>c. \<exists>d < base. digit_val c = Some d) cs"

lemma digits_value_simps [simp]:
  "digits_value base n [] = n"
  "digits_value base n (c # cs) = digits_value base (n * base + the (digit_val c)) cs"
  "digits_value base n (cs @ ds) = digits_value base (digits_value base n cs) ds"
  by (simp_all add: digits_value_def)

lemma digits_ok_simps [simp]:
  "digits_ok base []"
  "digits_ok base (c # cs) \<longleftrightarrow> (\<exists>d < base. digit_val c = Some d) \<and> digits_ok base cs"
  "digits_ok base (cs @ ds) \<longleftrightarrow> digits_ok base cs \<and> digits_ok base ds"
  by (simp_all add: digits_ok_def)

lemma digits_ok_zeros: "0 < b \<Longrightarrow> digits_ok b (replicate k CHR ''0'')"
  by (induction k) (auto simp: digit_val_def)

lemma digits_value_zeros: "digits_value b 0 (replicate k CHR ''0'') = 0"
  by (induction k) (auto simp: digit_val_def)

lemma digits_value_shift: "digits_value b n s = n * b ^ length s + digits_value b 0 s"
proof (induction s arbitrary: n)
  case (Cons c s)
  show ?case using Cons [of "n * b + the (digit_val c)"] Cons [of "the (digit_val c)"]
    by (simp add: algebra_simps)
qed simp

lemma digits_value_zeros_from: "digits_value b n (replicate k CHR ''0'') = n * b ^ k"
  using digits_value_shift [of b n "replicate k CHR ''0''"] by (simp add: digits_value_zeros)

lemma digits_value_ge: "0 < base \<Longrightarrow> n \<le> digits_value base n cs"
proof (induction cs arbitrary: n)
  case (Cons c cs)
  have "n \<le> n * base + the (digit_val c)"
    using Cons.prems by (simp add: trans_le_add1)
  also have "\<dots> \<le> digits_value base (n * base + the (digit_val c)) cs"
    using Cons by simp
  finally show ?case by simp
qed simp

lemma parse_loop_Inr_iff:
  "0 < base \<Longrightarrow> n \<le> m \<Longrightarrow>
   parse_loop base m n cs = Inr r \<longleftrightarrow>
     digits_ok base cs \<and> digits_value base n cs \<le> m \<and> r = digits_value base n cs"
proof (induction cs arbitrary: n)
  case (Cons c cs)
  show ?case
  proof (cases "\<exists>d < base. digit_val c = Some d")
    case True
    then obtain d where d: "digit_val c = Some d" "d < base" by blast
    show ?thesis
    proof (cases "m < n * base + d")
      case True
      then have "m < digits_value base (n * base + d) cs"
        using digits_value_ge [OF Cons.prems(1), of "n * base + d" cs] by linarith
      with True d show ?thesis by simp
    next
      case False
      then show ?thesis using d Cons.IH [OF Cons.prems(1), of "n * base + d"] by simp
    qed
  qed (auto split: option.splits)
qed auto

lemma parse_uint_Inr_iff:
  "0 < base \<Longrightarrow> parse_uint base bits s = Inr r \<longleftrightarrow>
     s \<noteq> [] \<and> digits_ok base s \<and> digits_value base 0 s < 2 ^ bits \<and> r = digits_value base 0 s"
proof -
  have "(x :: nat) \<le> 2 ^ bits - 1 \<longleftrightarrow> x < 2 ^ bits" for x
    by (metis Suc_pred' less_Suc_eq_le zero_less_numeral zero_less_power One_nat_def)
  then show "0 < base \<Longrightarrow> ?thesis" by (auto simp: parse_uint_def parse_loop_Inr_iff)
qed

lemma digit_val_digit_char: "d < 36 \<Longrightarrow> digit_val (digit_char d) = Some d"
proof -
  have "\<forall>d \<in> set [0..<36]. digit_val (digit_char d) = Some d"
    by (simp add: digit_val_def digit_char_def Let_def upt_rec)
  then show "d < 36 \<Longrightarrow> ?thesis" by simp
qed

lemma digits_format_base:
  "2 \<le> b \<Longrightarrow> b \<le> 36 \<Longrightarrow> digits_ok b (format_base b n) \<and> digits_value b 0 (format_base b n) = n"
proof (induction b n rule: format_base.induct)
  case (1 b n)
  show ?case
  proof (cases "n < b")
    case True
    then show ?thesis using 1 by (auto simp: format_base.simps [of b n] digit_val_digit_char)
  next
    case False
    have "n mod b < b" and "n mod b < 36" using 1 by (auto intro: less_le_trans [of "n mod b" b])
    with False show ?thesis using 1
      by (auto simp: format_base.simps [of b n] digit_val_digit_char)
  qed
qed

lemma format_base_nonempty [simp]: "format_base b n \<noteq> []"
  by (subst format_base.simps) simp

lemma length_format_base: "2 \<le> b \<Longrightarrow> n < b ^ Suc k \<Longrightarrow> length (format_base b n) \<le> Suc k"
proof (induction k arbitrary: n)
  case 0
  then show ?case by (simp add: format_base.simps)
next
  case (Suc k)
  then have "n div b < b ^ Suc k" by (simp add: less_mult_imp_div_less mult.commute)
  with Suc show ?case by (subst format_base.simps) auto
qed

lemma length_format_base_u64: "2 \<le> b \<Longrightarrow> length (format_base b (unat (w :: u64))) \<le> 64"
proof -
  assume b: "2 \<le> b"
  have "unat w < 2 ^ 64" using unat_u64_less [of w] by simp
  also have "2 ^ 64 \<le> b ^ 64" using b by (rule power_mono) simp
  finally show ?thesis using length_format_base [OF b, of "unat w" 63] by simp
qed

lemma parse_uint_format_base:
  "2 \<le> b \<Longrightarrow> b \<le> 36 \<Longrightarrow> n < 2 ^ bits \<Longrightarrow> parse_uint b bits (format_base b n) = Inr n"
  using digits_format_base [of b n] by (simp add: parse_uint_Inr_iff)

lemma parse_u64_format_uint [simp]: "parse_u64 (format_uint (unat w)) = Inr w"
  using parse_uint_format_base [of 10 "unat w" 64] unat_u64_less [of w]
  by (simp add: parse_u64_def format_uint_def)

lemma parse_hex64_format [simp]: "parse_hex64 (format_base 16 (unat w)) = Inr w"
  using parse_uint_format_base [of 16 "unat w" 64] unat_u64_less [of w]
  by (simp add: parse_hex64_def)

lemma digit_val_word_char: "digit_val c = Some d \<Longrightarrow> is_word_char c"
  by (auto simp: digit_val_def is_word_char_def is_ascii_def is_space_def Let_def split: if_splits)

lemma digits_ok_chars: "digits_ok base s \<Longrightarrow> c \<in> set s \<Longrightarrow> digit_val c \<noteq> None"
  by (auto simp: digits_ok_def list_all_iff)

lemma format_uint_chars: "c \<in> set (format_uint n) \<Longrightarrow> digit_val c \<noteq> None"
  using digits_format_base [of 10 n] digits_ok_chars [of 10 "format_base 10 n" c]
  by (simp add: format_uint_def)

lemma format_uint_nonempty [simp]: "format_uint n \<noteq> []"
  by (simp add: format_uint_def)

lemma digits_value_format_uint: "digits_value 10 0 (format_uint n) = n"
  using digits_format_base [of 10 n] by (simp add: format_uint_def)

lemma format_uint_inject [simp]: "format_uint m = format_uint n \<longleftrightarrow> m = n"
  by (metis digits_value_format_uint)

lemma itoa_of_nat [simp]: "itoa (int n) = format_uint n"
  by (simp add: itoa_def)

lemma atoi_format_uint: "n < 2 ^ 63 \<Longrightarrow> atoi (format_uint n) = Inr (int n)"
proof -
  assume n: "n < 2 ^ 63"
  have "hd (format_uint n) \<in> set (format_uint n)" by simp
  then have d: "digit_val (hd (format_uint n)) \<noteq> None" by (rule format_uint_chars)
  have "digit_val CHR ''-'' = None" "digit_val CHR ''+'' = None"
    by (simp_all add: digit_val_def)
  with d have "hd (format_uint n) \<noteq> CHR ''-''" "hd (format_uint n) \<noteq> CHR ''+''" by auto
  then show ?thesis
    using n parse_uint_format_base [of 10 n 64] by (simp add: atoi_def format_uint_def)
qed

section \<open>Lines\<close>

text \<open>
  \<open>bufio.Scanner\<close> with the default split function: the content is cut at newlines, one
  trailing carriage return per line is dropped, an empty rest after the last newline is no
  line, and a line of 64 KiB or more stops the scan with \<open>ErrTooLong\<close> after the lines
  before it have been delivered.
\<close>

definition newline :: char where
  "newline = CHR 0x0A"

definition raw_lines :: "string \<Rightarrow> string list" where
  "raw_lines s = (let ls = split_on newline s in if last ls = [] then butlast ls else ls)"

definition drop_cr :: "string \<Rightarrow> string" where
  "drop_cr l = (if l \<noteq> [] \<and> last l = CHR 0x0D then butlast l else l)"

definition line_fits :: "string \<Rightarrow> bool" where
  "line_fits l \<longleftrightarrow> length l < 65536"

definition scanner_lines :: "string \<Rightarrow> string list" where
  "scanner_lines s = map drop_cr (takeWhile line_fits (raw_lines s))"

definition scanner_err :: "string \<Rightarrow> err option" where
  "scanner_err s = (if list_all line_fits (raw_lines s) then None else Some ErrTooLong)"

text \<open>
  The loop \<open>for scanner.Scan() { if err := fn(line); err != nil { return err } }\<close> followed by
  \<open>return scanner.Err()\<close>.
\<close>

definition scan_lines :: "('s \<Rightarrow> string \<Rightarrow> err + 's) \<Rightarrow> 's \<Rightarrow> string \<Rightarrow> err + 's" where
  "scan_lines f st s =
     bind_res (fold_res f st (scanner_lines s))
       (\<lambda>st'. case scanner_err s of None \<Rightarrow> Inr st' | Some e \<Rightarrow> Inl e)"

text \<open>A text file made of the lines \<open>ls\<close>, each with its newline.\<close>

definition unlines :: "string list \<Rightarrow> string" where
  "unlines ls = concat (map (\<lambda>l. l @ [newline]) ls)"

definition clean_line :: "string \<Rightarrow> bool" where
  "clean_line l \<longleftrightarrow> newline \<notin> set l \<and> CHR 0x0D \<notin> set l \<and> line_fits l"

lemma unlines_simps [simp]:
  "unlines [] = []" "unlines (l # ls) = l @ newline # unlines ls"
  by (simp_all add: unlines_def)

lemma split_on_unlines:
  "\<forall>l \<in> set ls. newline \<notin> set l \<Longrightarrow> split_on newline (unlines ls) = ls @ [[]]"
  by (induction ls) (auto simp: split_on_append_sep)

lemma raw_lines_unlines:
  "\<forall>l \<in> set ls. newline \<notin> set l \<Longrightarrow> raw_lines (unlines ls) = ls"
  by (simp add: raw_lines_def split_on_unlines)

lemma drop_cr_clean: "CHR 0x0D \<notin> set l \<Longrightarrow> drop_cr l = l"
  by (auto simp: drop_cr_def dest: last_in_set)

lemma scanner_lines_unlines:
  assumes "\<forall>l \<in> set ls. clean_line l"
  shows "scanner_lines (unlines ls) = ls" and "scanner_err (unlines ls) = None"
proof -
  have raw: "raw_lines (unlines ls) = ls"
    using assms by (intro raw_lines_unlines) (auto simp: clean_line_def)
  have "takeWhile line_fits ls = ls"
    using assms by (auto simp: takeWhile_eq_all_conv clean_line_def)
  moreover have "map drop_cr ls = ls"
    using assms by (intro map_idI) (auto simp: drop_cr_clean clean_line_def)
  ultimately show "scanner_lines (unlines ls) = ls" by (simp only: scanner_lines_def raw)
  show "scanner_err (unlines ls) = None"
    using assms by (auto simp: scanner_err_def raw list_all_iff clean_line_def)
qed

lemma scan_lines_unlines:
  "\<forall>l \<in> set ls. clean_line l \<Longrightarrow> scan_lines f st (unlines ls) = fold_res f st ls"
  by (cases "fold_res f st ls")
    (simp_all add: scan_lines_def scanner_lines_unlines)

lemma scan_lines_Inr_iff:
  "scan_lines f st s = Inr st' \<longleftrightarrow>
     fold_res f st (scanner_lines s) = Inr st' \<and> scanner_err s = None"
  by (auto simp: scan_lines_def bind_res_eq_Inr split: option.splits)

lemma no_newline_in_lines: "l \<in> set (scanner_lines s) \<Longrightarrow> newline \<notin> set l"
proof -
  assume "l \<in> set (scanner_lines s)"
  then obtain r where r: "r \<in> set (raw_lines s)" "l = drop_cr r"
    by (auto simp: scanner_lines_def dest: set_takeWhileD)
  then have "newline \<notin> set r"
    by (auto simp: raw_lines_def Let_def dest: in_set_butlastD split_on_pieces split: if_splits)
  with r(2) show ?thesis by (auto simp: drop_cr_def dest: in_set_butlastD split: if_splits)
qed

lemmas scan_eval [str_eval] =
  scan_lines_def scanner_lines_def scanner_err_def raw_lines_def drop_cr_def line_fits_def
  newline_def

section \<open>Round trips of trimming and fields\<close>

definition word_str :: "string \<Rightarrow> bool" where
  "word_str w \<longleftrightarrow> w \<noteq> [] \<and> list_all is_word_char w"

lemma is_word_charD: "is_word_char c \<Longrightarrow> is_ascii c \<and> \<not> is_space (of_char c)"
  by (simp add: is_word_char_def)

lemma fields_from_word:
  "list_all is_word_char w \<Longrightarrow> fields_from cur (w @ s) = fields_from (cur @ w) s"
  by (induction w arbitrary: cur) (auto simp: fields_from_ascii is_word_char_def)

lemma fields_from_space:
  "fields_from cur (CHR '' '' # s) = (if cur = [] then [] else [cur]) @ fields_from [] s"
  by (simp add: fields_from_ascii is_ascii_def is_space_def)

lemma fields_word: "word_str w \<Longrightarrow> str_fields w = [w]"
  using fields_from_word [of w "[]" "[]"] by (simp add: str_fields_def word_str_def)

lemma fields_word_space: "word_str w \<Longrightarrow> str_fields (w @ CHR '' '' # s) = w # str_fields s"
  using fields_from_word [of w "[]" "CHR '' '' # s"]
  by (simp add: str_fields_def word_str_def fields_from_space)

lemma fields_join:
  "\<forall>w \<in> set ws. word_str w \<Longrightarrow> str_fields (join '' '' ws) = ws"
  by (induction "'' ''" ws rule: join.induct) (auto simp: fields_word fields_word_space, simp add: str_fields_def)

lemma word_str_format_uint: "word_str (format_uint n)"
  unfolding word_str_def list_all_iff using format_uint_chars digit_val_word_char by fastforce

lemma last_space_len_ascii:
  assumes "is_ascii c"
  shows "last_space_len (s @ [c]) = (if is_space (of_char c) then 1 else 0)"
proof -
  have two: "space_len [a, c] \<noteq> 2" and three: "space_len [a, b, c] \<noteq> 3" for a b
    using assms
    by (auto simp: space_len_def decode_rune_def byte_at_def is_ascii_def is_cont_def Let_def
        split: if_splits)
  have "space_len (drop (Suc (length s) - 2) (s @ [c])) \<noteq> 2" if "2 \<le> Suc (length s)"
    using that two by (cases s rule: rev_cases) auto
  moreover have "space_len (drop (Suc (length s) - 3) (s @ [c])) \<noteq> 3" if le: "3 \<le> Suc (length s)"
  proof -
    from le obtain t a b where "s = t @ [a, b]"
      by (cases s rule: rev_cases) (auto, metis append_butlast_last_id append.assoc append_Cons
          append_Nil length_greater_0_conv Suc_le_lessD)
    then show ?thesis using three by simp
  qed
  moreover have "space_len [c] = (if is_space (of_char c) then 1 else 0)"
    using assms by (rule space_len_ascii)
  ultimately show ?thesis by (auto simp: last_space_len_def Let_def)
qed

lemma trim_left_word:
  "s \<noteq> [] \<Longrightarrow> is_word_char (hd s) \<Longrightarrow> trim_left s = s"
  by (cases s) (auto simp: trim_left.simps space_len_ascii is_word_char_def)

lemma trim_right_word:
  "s \<noteq> [] \<Longrightarrow> is_word_char (last s) \<Longrightarrow> trim_right s = s"
  by (cases s rule: rev_cases)
    (auto simp: trim_right.simps last_space_len_ascii is_word_char_def)

lemma trim_space_word: "word_str w \<Longrightarrow> trim_space w = w"
  by (simp add: trim_space_def trim_left_word trim_right_word word_str_def list_all_iff)

lemma trim_space_word_newline: "word_str w \<Longrightarrow> trim_space (w @ [newline]) = w"
proof -
  assume w: "word_str w"
  have "trim_right (w @ [newline]) = trim_right w"
    by (subst trim_right.simps) (simp add: last_space_len_ascii is_ascii_def newline_def is_space_def)
  then show ?thesis
    using w by (simp add: trim_space_def trim_left_word trim_right_word word_str_def list_all_iff)
qed

lemma trim_left_eval [str_eval]:
  "trim_left [] = []"
  "is_ascii c \<Longrightarrow> trim_left (c # s) = (if is_space (of_char c) then trim_left s else c # s)"
  by (simp_all add: trim_left.simps [of "[]"] trim_left.simps [of "c # s"] space_len_ascii)

lemma trim_right_snoc [str_eval]:
  "trim_right [] = []"
  "is_ascii c \<Longrightarrow>
     trim_right (s @ [c]) = (if is_space (of_char c) then trim_right s else s @ [c])"
proof -
  have "last_space_len [] = 0" by (simp add: last_space_len_def)
  then show "trim_right [] = []" by (subst trim_right.simps) simp
  show "is_ascii c \<Longrightarrow>
      trim_right (s @ [c]) = (if is_space (of_char c) then trim_right s else s @ [c])"
    by (subst trim_right.simps) (simp add: last_space_len_ascii)
qed

lemma trim_right_ascii:
  "list_all is_ascii s \<Longrightarrow> trim_right s = rev (dropWhile (\<lambda>c. is_space (of_char c)) (rev s))"
  by (induction s rule: rev_induct) (auto simp: trim_right_snoc)

lemma trim_space_ascii [str_eval]:
  "list_all is_ascii s \<Longrightarrow>
     trim_space s = rev (dropWhile (\<lambda>c. is_space (of_char c)) (rev (trim_left s)))"
proof -
  assume a: "list_all is_ascii s"
  then have "list_all is_ascii (trim_left s)"
    by (induction s) (auto simp: trim_left_eval)
  then show ?thesis by (simp add: trim_space_def trim_right_ascii)
qed

end
