(* ===== verification/HostTree.thy ===== *)
theory HostTree
  imports GoStrings
begin

text \<open>
  The host as the collectors see it: the file trees under \<open>/proc\<close> and \<open>/sys\<close>, with the
  operations of package \<open>os\<close> the code calls on them. A collector is \<open>rooted\<close> at a tree, as
  in the code it is rooted at a directory name, and a path below it is the list of its
  segments, so that \<open>filepath.Join\<close> is list append. A \<open>Broken\<close> node can be seen but not
  read (permission, I/O error); its flag says whether it is a directory.
\<close>

section \<open>File trees\<close>

datatype node =
    File string
  | Broken bool
  | Dir "(string \<times> node) list"

type_synonym path = "string list"

fun is_dir :: "node \<Rightarrow> bool" where
  "is_dir (File s) = False"
| "is_dir (Broken d) = d"
| "is_dir (Dir es) = True"

text \<open>
  Resolving a path. A missing name is \<open>ErrNotExist\<close>; going below something that is not a
  readable directory (ENOTDIR, EACCES) is an error that \<open>os.IsNotExist\<close> does not recognise.
\<close>

fun lookup_node :: "node \<Rightarrow> path \<Rightarrow> err + node" where
  "lookup_node t [] = Inr t"
| "lookup_node (Dir es) (p # ps) =
     (case map_of es p of None \<Rightarrow> Inl ErrNotExist | Some t \<Rightarrow> lookup_node t ps)"
| "lookup_node (File s) (p # ps) = Inl ErrIO"
| "lookup_node (Broken d) (p # ps) = Inl ErrIO"

definition os_stat :: "node \<Rightarrow> path \<Rightarrow> err + unit" where
  "os_stat t p = (case lookup_node t p of Inl e \<Rightarrow> Inl e | Inr _ \<Rightarrow> Inr ())"

text \<open>\<open>os.ReadFile\<close>, and \<open>os.Open\<close> followed by reading everything.\<close>

definition os_read_file :: "node \<Rightarrow> path \<Rightarrow> err + string" where
  "os_read_file t p =
     (case lookup_node t p of
        Inl e \<Rightarrow> Inl e
      | Inr (File s) \<Rightarrow> Inr s
      | Inr _ \<Rightarrow> Inl ErrIO)"

text \<open>\<open>os.ReadDir\<close>: the entries' names and \<open>IsDir()\<close>, sorted by name.\<close>

definition os_read_dir :: "node \<Rightarrow> path \<Rightarrow> err + (string \<times> bool) list" where
  "os_read_dir t p =
     (case lookup_node t p of
        Inl e \<Rightarrow> Inl e
      | Inr (Dir es) \<Rightarrow> Inr (sort_key fst (map (\<lambda>(n, c). (n, is_dir c)) es))
      | Inr _ \<Rightarrow> Inl ErrIO)"

text \<open>A tree in which no directory lists a name twice.\<close>

fun wf_node :: "node \<Rightarrow> bool" where
  "wf_node (File s) = True"
| "wf_node (Broken d) = True"
| "wf_node (Dir es) = (distinct (map fst es) \<and> (\<forall>(n, c) \<in> set es. wf_node c))"

named_theorems host_eval \<open>rules that evaluate the file operations on concrete trees\<close>

lemmas host_defs [host_eval] = os_stat_def os_read_file_def os_read_dir_def

lemma lookup_node_append:
  "lookup_node t (p @ q) = bind_res (lookup_node t p) (\<lambda>t'. lookup_node t' q)"
  by (induction t p rule: lookup_node.induct) (auto split: option.splits)

lemma os_read_file_append:
  "lookup_node t p = Inr t' \<Longrightarrow> os_read_file t (p @ q) = os_read_file t' q"
  by (simp add: os_read_file_def lookup_node_append)

lemma os_read_dir_append:
  "lookup_node t p = Inr t' \<Longrightarrow> os_read_dir t (p @ q) = os_read_dir t' q"
  by (simp add: os_read_dir_def lookup_node_append)

lemma lookup_node_wf: "wf_node t \<Longrightarrow> lookup_node t p = Inr t' \<Longrightarrow> wf_node t'"
  by (induction t p rule: lookup_node.induct)
    (auto split: option.splits dest!: map_of_SomeD)

lemma os_read_dir_names:
  assumes "lookup_node t p = Inr (Dir es)"
  shows "os_read_dir t p = Inr (sort_key fst (map (\<lambda>(n, c). (n, is_dir c)) es))"
  using assms by (simp add: os_read_dir_def)

section \<open>Counter files\<close>

text \<open>\<open>parseUintFileContent\<close> and \<open>readUintFile\<close>: a missing file reads as zero.\<close>

definition parse_uint_file_content :: "string \<Rightarrow> err + u64" where
  "parse_uint_file_content b = parse_u64 (trim_space b)"

definition read_uint_file :: "node \<Rightarrow> path \<Rightarrow> err + u64" where
  "read_uint_file t p =
     (case os_read_file t p of
        Inl e \<Rightarrow> if e = ErrNotExist then Inr 0 else Inl e
      | Inr b \<Rightarrow> parse_uint_file_content b)"

text \<open>The content the kernel gives such a file.\<close>

definition counter_file :: "u64 \<Rightarrow> string" where
  "counter_file n = format_uint (unat n) @ [newline]"

lemma parse_counter_file [simp]: "parse_uint_file_content (counter_file n) = Inr n"
  by (simp add: parse_uint_file_content_def counter_file_def
      trim_space_word_newline word_str_format_uint)

lemma read_uint_file_missing:
  "os_read_file t p = Inl ErrNotExist \<Longrightarrow> read_uint_file t p = Inr 0"
  by (simp add: read_uint_file_def)

lemma read_uint_file_counter:
  "os_read_file t p = Inr (counter_file n) \<Longrightarrow> read_uint_file t p = Inr n"
  by (simp add: read_uint_file_def)

section \<open>Tables of fields\<close>

text \<open>
  The collectors of key/value files share one shape: a table from the keys they store to
  setters of a record, and a loop that skips unknown keys, parses the value of a known one
  and stores it (\<open>vmstatFields\<close>, \<open>cgroupStatFields\<close>, \<open>numaMeminfoFields\<close>,
  \<open>numaStatFields\<close>).
\<close>

type_synonym 'r setters = "(string \<times> ('r \<Rightarrow> u64 \<Rightarrow> 'r)) list"

definition apply_kv :: "'r setters \<Rightarrow> 'r \<Rightarrow> string \<Rightarrow> string \<Rightarrow> err + 'r" where
  "apply_kv setters r key val =
     (case map_of setters key of
        None \<Rightarrow> Inr r
      | Some setter \<Rightarrow>
          (case parse_u64 val of Inl e \<Rightarrow> Inl e | Inr n \<Rightarrow> Inr (setter r n)))"

text \<open>What the last pair with a key says; the specification the loop is compared with.\<close>

definition last_value :: "string \<Rightarrow> (string \<times> string) list \<Rightarrow> u64 option" where
  "last_value key kvs =
     (case map_of (rev kvs) key of
        None \<Rightarrow> None
      | Some v \<Rightarrow> (case parse_u64 v of Inl e \<Rightarrow> None | Inr n \<Rightarrow> Some n))"

text \<open>
  The contract of a table: its keys are distinct, and storing under one key changes what is
  read under that key, to the (converted) value, and under no other.
\<close>

locale field_table =
  fixes setters :: "'r setters"
    and getters :: "(string \<times> ('r \<Rightarrow> u64)) list"
    and conv :: "u64 \<Rightarrow> u64"
  assumes same_keys: "map fst getters = map fst setters"
    and distinct_keys: "distinct (map fst setters)"
    and get_set: "(k, f) \<in> set setters \<Longrightarrow> (k', g) \<in> set getters \<Longrightarrow>
      g (f r n) = (if k = k' then conv n else g r)"
begin

lemma getter_key: "(k, g) \<in> set getters \<Longrightarrow> \<exists>f. map_of setters k = Some f"
proof -
  assume "(k, g) \<in> set getters"
  then have "k \<in> set (map fst setters)"
    unfolding same_keys [symmetric] by force
  then show ?thesis by (metis map_of_eq_None_iff not_Some_eq set_map)
qed

lemma apply_kv_get:
  assumes "apply_kv setters r k v = Inr r'" and "(k', g) \<in> set getters"
  shows "g r' = (if k = k' then (case parse_u64 v of Inl e \<Rightarrow> g r | Inr n \<Rightarrow> conv n) else g r)"
proof (cases "map_of setters k")
  case None
  with assms getter_key [of k' g] show ?thesis by (auto simp: apply_kv_def)
next
  case (Some f)
  then have "(k, f) \<in> set setters" by (rule map_of_SomeD)
  from get_set [OF this assms(2)] Some assms(1) show ?thesis
    by (auto simp: apply_kv_def split: sum.splits)
qed

lemma fold_get:
  assumes "fold_res (\<lambda>r (k, v). apply_kv setters r k v) r0 kvs = Inr r"
    and "(k', g) \<in> set getters"
  shows "g r = (case last_value k' kvs of None \<Rightarrow> g r0 | Some n \<Rightarrow> conv n)"
  using assms(1)
proof (induction kvs arbitrary: r rule: rev_induct)
  case Nil
  then show ?case by (simp add: last_value_def)
next
  case (snoc kv kvs)
  obtain k v where kv: "kv = (k, v)" by (cases kv)
  from snoc.prems kv obtain r1 where r1: "fold_res (\<lambda>r (k, v). apply_kv setters r k v) r0 kvs = Inr r1"
      and r: "apply_kv setters r1 k v = Inr r"
    by (auto simp: fold_res_snoc_Inr)
  have g: "g r = (if k = k' then (case parse_u64 v of Inl e \<Rightarrow> g r1 | Inr n \<Rightarrow> conv n) else g r1)"
    using r assms(2) by (rule apply_kv_get)
  show ?case
  proof (cases "k = k'")
    case True
    with getter_key [OF assms(2)] r obtain n where "parse_u64 v = Inr n"
      by (auto simp: apply_kv_def split: sum.splits)
    with True g kv show ?thesis by (simp add: last_value_def)
  next
    case False
    with g kv snoc.IH [OF r1] show ?thesis by (simp add: last_value_def)
  qed
qed

lemma fold_get0:
  assumes "fold_res (\<lambda>r (k, v). apply_kv setters r k v) r0 kvs = Inr r"
    and "(k', g) \<in> set getters" and "g r0 = 0"
  shows "g r = (case last_value k' kvs of None \<Rightarrow> 0 | Some n \<Rightarrow> conv n)"
  using fold_get [OF assms(1,2)] assms(3) by (simp split: option.splits)

lemma fold_succeeds_iff:
  "(\<exists>r. fold_res (\<lambda>r (k, v). apply_kv setters r k v) r0 kvs = Inr r) \<longleftrightarrow>
     (\<forall>(k, v) \<in> set kvs. k \<in> set (map fst setters) \<longrightarrow> (\<exists>n. parse_u64 v = Inr n))"
proof (induction kvs arbitrary: r0)
  case (Cons kv kvs)
  obtain k v where kv: "kv = (k, v)" by (cases kv)
  show ?case
  proof (cases "map_of setters k")
    case None
    then have "k \<notin> set (map fst setters)" by (simp add: map_of_eq_None_iff)
    with None kv Cons.IH show ?thesis by (simp add: apply_kv_def)
  next
    case (Some f)
    then have "k \<in> set (map fst setters)" by (force dest: map_of_SomeD)
    with Some kv Cons.IH show ?thesis
      by (cases "parse_u64 v") (simp_all add: apply_kv_def)
  qed
qed simp

end

text \<open>The contract, in the form in which it is checked for a concrete table.\<close>

lemma field_tableI:
  assumes "map fst getters = map fst setters" and "distinct (map fst setters)"
    and "list_all (\<lambda>(k, f). list_all (\<lambda>(k', g).
      \<forall>r n. g (f r n) = (if k = k' then conv n else g r)) getters) setters"
  shows "field_table setters getters conv"
proof
  show "map fst getters = map fst setters" and "distinct (map fst setters)"
    using assms(1,2) .
next
  fix k f k' g r n
  assume f: "(k, f) \<in> set setters" and g: "(k', g) \<in> set getters"
  note outer = bspec [OF assms(3) [unfolded list_all_iff [of _ setters]] f, unfolded prod.case]
  note inner = bspec [OF outer [unfolded list_all_iff] g, unfolded prod.case]
  show "g (f r n) = (if k = k' then conv n else g r)" by (rule inner [rule_format])
qed

end
