(* ===== verification/ProcFiles.thy ===== *)
theory ProcFiles
  imports HostTree
begin

text \<open>
  The collectors of \<open>/proc\<close>: \<open>internal/collector/vmstat.go\<close>, \<open>meminfo.go\<close> and \<open>psi.go\<close>,
  with the records of \<open>pkg/model/records.go\<close> they fill. The parsers of the package
  \<open>prometheus/procfs\<close> that \<open>meminfo.go\<close> and \<open>psi.go\<close> call are parameters.
\<close>

section \<open>vmstat\<close>

record vmstat =
  vm_PgscanKswapd :: u64
  vm_PgscanDirect :: u64
  vm_PgstealKswapd :: u64
  vm_PgstealDirect :: u64
  vm_Pswpin :: u64
  vm_Pswpout :: u64
  vm_WorkingsetRefaultAnon :: u64
  vm_WorkingsetRefaultFile :: u64
  vm_WorkingsetActivateAnon :: u64
  vm_WorkingsetActivateFile :: u64
  vm_OomKill :: u64
  vm_PgmajFault :: u64

definition zero_vmstat :: vmstat where
  "zero_vmstat = \<lparr>vm_PgscanKswapd = 0, vm_PgscanDirect = 0, vm_PgstealKswapd = 0, vm_PgstealDirect = 0, vm_Pswpin = 0, vm_Pswpout = 0, vm_WorkingsetRefaultAnon = 0, vm_WorkingsetRefaultFile = 0, vm_WorkingsetActivateAnon = 0, vm_WorkingsetActivateFile = 0, vm_OomKill = 0, vm_PgmajFault = 0\<rparr>"

definition vmstat_fields :: "vmstat setters" where
  "vmstat_fields =
     [
      (''pgscan_kswapd'', \<lambda>v n. v\<lparr>vm_PgscanKswapd := n\<rparr>),
      (''pgscan_direct'', \<lambda>v n. v\<lparr>vm_PgscanDirect := n\<rparr>),
      (''pgsteal_kswapd'', \<lambda>v n. v\<lparr>vm_PgstealKswapd := n\<rparr>),
      (''pgsteal_direct'', \<lambda>v n. v\<lparr>vm_PgstealDirect := n\<rparr>),
      (''pswpin'', \<lambda>v n. v\<lparr>vm_Pswpin := n\<rparr>),
      (''pswpout'', \<lambda>v n. v\<lparr>vm_Pswpout := n\<rparr>),
      (''workingset_refault_anon'', \<lambda>v n. v\<lparr>vm_WorkingsetRefaultAnon := n\<rparr>),
      (''workingset_refault_file'', \<lambda>v n. v\<lparr>vm_WorkingsetRefaultFile := n\<rparr>),
      (''workingset_activate_anon'', \<lambda>v n. v\<lparr>vm_WorkingsetActivateAnon := n\<rparr>),
      (''workingset_activate_file'', \<lambda>v n. v\<lparr>vm_WorkingsetActivateFile := n\<rparr>),
      (''oom_kill'', \<lambda>v n. v\<lparr>vm_OomKill := n\<rparr>),
      (''pgmajfault'', \<lambda>v n. v\<lparr>vm_PgmajFault := n\<rparr>)]"

text \<open>The body of the scan loop of \<open>parseVmstat\<close>.\<close>

definition vmstat_step :: "vmstat \<Rightarrow> string \<Rightarrow> err + vmstat" where
  "vmstat_step out line =
     (let fs = str_fields line
      in if length fs \<noteq> 2 then Inr out
         else (case map_of vmstat_fields (fs ! 0) of
                 None \<Rightarrow> Inr out
               | Some setter \<Rightarrow>
                   (case parse_u64 (fs ! 1) of Inl e \<Rightarrow> Inl e | Inr n \<Rightarrow> Inr (setter out n))))"

definition parse_vmstat :: "string \<Rightarrow> err + vmstat" where
  "parse_vmstat content = scan_lines vmstat_step zero_vmstat content"

definition vmstat_collect :: "node \<Rightarrow> err + vmstat" where
  "vmstat_collect proc =
     (case os_read_file proc [''vmstat''] of
        Inl e \<Rightarrow> Inl e
      | Inr content \<Rightarrow> parse_vmstat content)"

subsection \<open>The table\<close>

definition vmstat_getters :: "(string \<times> (vmstat \<Rightarrow> u64)) list" where
  "vmstat_getters =
     [
      (''pgscan_kswapd'', vm_PgscanKswapd),
      (''pgscan_direct'', vm_PgscanDirect),
      (''pgsteal_kswapd'', vm_PgstealKswapd),
      (''pgsteal_direct'', vm_PgstealDirect),
      (''pswpin'', vm_Pswpin),
      (''pswpout'', vm_Pswpout),
      (''workingset_refault_anon'', vm_WorkingsetRefaultAnon),
      (''workingset_refault_file'', vm_WorkingsetRefaultFile),
      (''workingset_activate_anon'', vm_WorkingsetActivateAnon),
      (''workingset_activate_file'', vm_WorkingsetActivateFile),
      (''oom_kill'', vm_OomKill),
      (''pgmajfault'', vm_PgmajFault)]"

interpretation vmt: field_table vmstat_fields vmstat_getters "\<lambda>n. n"
  by (rule field_tableI) (simp_all add: vmstat_fields_def vmstat_getters_def)

text \<open>The key/value pairs of the lines with exactly two fields.\<close>

definition two_fields :: "string \<Rightarrow> (string \<times> string) option" where
  "two_fields line = (case str_fields line of [k, v] \<Rightarrow> Some (k, v) | _ \<Rightarrow> None)"

definition vmstat_pairs :: "string \<Rightarrow> (string \<times> string) list" where
  "vmstat_pairs content = List.map_filter two_fields (scanner_lines content)"

lemma vmstat_step_pairs:
  "vmstat_step out line =
     (case two_fields line of None \<Rightarrow> Inr out | Some (k, v) \<Rightarrow> apply_kv vmstat_fields out k v)"
proof (cases "\<exists>k v. str_fields line = [k, v]")
  case True
  then show ?thesis by (auto simp: vmstat_step_def two_fields_def apply_kv_def split: option.splits)
next
  case False
  then have "length (str_fields line) \<noteq> 2" by (auto simp: length_Suc_conv numeral_2_eq_2)
  moreover have "two_fields line = None" using False by (auto simp: two_fields_def split: list.splits)
  ultimately show ?thesis by (simp add: vmstat_step_def)
qed

lemma fold_vmstat_step:
  "fold_res vmstat_step out ls =
     fold_res (\<lambda>r (k, v). apply_kv vmstat_fields r k v) out (List.map_filter two_fields ls)"
  by (induction ls arbitrary: out)
    (auto simp: vmstat_step_pairs split: option.splits sum.splits)

section \<open>meminfo\<close>

record host_mem =
  hm_MemTotal :: u64
  hm_MemFree :: u64
  hm_MemAvailable :: u64
  hm_Buffers :: u64
  hm_Cached :: u64
  hm_SwapCached :: u64
  hm_SwapTotal :: u64
  hm_SwapFree :: u64
  hm_Active :: u64
  hm_Inactive :: u64
  hm_ActiveAnon :: u64
  hm_InactiveAnon :: u64
  hm_ActiveFile :: u64
  hm_InactiveFile :: u64
  hm_Unevictable :: u64
  hm_Dirty :: u64
  hm_Writeback :: u64
  hm_AnonPages :: u64
  hm_Mapped :: u64
  hm_Shmem :: u64
  hm_KReclaimable :: u64
  hm_Slab :: u64
  hm_SReclaimable :: u64
  hm_SUnreclaim :: u64
  hm_KernelStack :: u64
  hm_PageTables :: u64
  hm_CommitLimit :: u64
  hm_CommittedAS :: u64
  hm_DirectMap4k :: u64
  hm_DirectMap2M :: u64
  hm_DirectMap1G :: u64

definition deref_u64 :: "u64 option \<Rightarrow> u64" where
  "deref_u64 p = (case p of None \<Rightarrow> 0 | Some n \<Rightarrow> n)"

text \<open>
  \<open>parseKReclaimableBytes\<close>: the first line that starts with the key decides; \<open>Some\<close> is the
  loop's return, \<open>None\<close> its end.
\<close>

fun kreclaimable_loop :: "string list \<Rightarrow> (err + u64) option" where
  "kreclaimable_loop [] = None"
| "kreclaimable_loop (line # ls) =
     (let fs = str_fields line
      in if length fs < 2 \<or> fs ! 0 \<noteq> ''KReclaimable:'' then kreclaimable_loop ls
         else (case parse_u64 (fs ! 1) of
                 Inl e \<Rightarrow> Some (Inl e)
               | Inr kb \<Rightarrow> Some (Inr (kb * 1024))))"

definition parse_kreclaimable_bytes :: "string \<Rightarrow> err + u64" where
  "parse_kreclaimable_bytes content =
     (case kreclaimable_loop (scanner_lines content) of
        Some res \<Rightarrow> res
      | None \<Rightarrow> (case scanner_err content of Some e \<Rightarrow> Inl e | None \<Rightarrow> Inr 0))"

definition read_kreclaimable_bytes :: "node \<Rightarrow> path \<Rightarrow> err + u64" where
  "read_kreclaimable_bytes t p =
     (case os_read_file t p of Inl e \<Rightarrow> Inl e | Inr content \<Rightarrow> parse_kreclaimable_bytes content)"

text \<open>
  \<open>Meminfo.Collect\<close>. The parameter \<open>procfs_meminfo\<close> is \<open>procfs.NewFS\<close> and \<open>Meminfo()\<close>: for a
  proc tree an error, or the optional fields of the struct by their Go names.
\<close>

definition meminfo_collect ::
  "(node \<Rightarrow> err + (string \<Rightarrow> u64 option)) \<Rightarrow> node \<Rightarrow> err + host_mem" where
  "meminfo_collect procfs_meminfo proc =
     (case procfs_meminfo proc of
        Inl e \<Rightarrow> Inl e
      | Inr mi \<Rightarrow>
          (case read_kreclaimable_bytes proc [''meminfo''] of
             Inl e \<Rightarrow> Inl e
           | Inr kreclaimable \<Rightarrow> Inr
        \<lparr>
          hm_MemTotal = deref_u64 (mi ''MemTotalBytes''),
          hm_MemFree = deref_u64 (mi ''MemFreeBytes''),
          hm_MemAvailable = deref_u64 (mi ''MemAvailableBytes''),
          hm_Buffers = deref_u64 (mi ''BuffersBytes''),
          hm_Cached = deref_u64 (mi ''CachedBytes''),
          hm_SwapCached = deref_u64 (mi ''SwapCachedBytes''),
          hm_SwapTotal = deref_u64 (mi ''SwapTotalBytes''),
          hm_SwapFree = deref_u64 (mi ''SwapFreeBytes''),
          hm_Active = deref_u64 (mi ''ActiveBytes''),
          hm_Inactive = deref_u64 (mi ''InactiveBytes''),
          hm_ActiveAnon = deref_u64 (mi ''ActiveAnonBytes''),
          hm_InactiveAnon = deref_u64 (mi ''InactiveAnonBytes''),
          hm_ActiveFile = deref_u64 (mi ''ActiveFileBytes''),
          hm_InactiveFile = deref_u64 (mi ''InactiveFileBytes''),
          hm_Unevictable = deref_u64 (mi ''UnevictableBytes''),
          hm_Dirty = deref_u64 (mi ''DirtyBytes''),
          hm_Writeback = deref_u64 (mi ''WritebackBytes''),
          hm_AnonPages = deref_u64 (mi ''AnonPagesBytes''),
          hm_Mapped = deref_u64 (mi ''MappedBytes''),
          hm_Shmem = deref_u64 (mi ''ShmemBytes''),
          hm_KReclaimable = kreclaimable,
          hm_Slab = deref_u64 (mi ''SlabBytes''),
          hm_SReclaimable = deref_u64 (mi ''SReclaimableBytes''),
          hm_SUnreclaim = deref_u64 (mi ''SUnreclaimBytes''),
          hm_KernelStack = deref_u64 (mi ''KernelStackBytes''),
          hm_PageTables = deref_u64 (mi ''PageTablesBytes''),
          hm_CommitLimit = deref_u64 (mi ''CommitLimitBytes''),
          hm_CommittedAS = deref_u64 (mi ''CommittedASBytes''),
          hm_DirectMap4k = deref_u64 (mi ''DirectMap4kBytes''),
          hm_DirectMap2M = deref_u64 (mi ''DirectMap2MBytes''),
          hm_DirectMap1G = deref_u64 (mi ''DirectMap1GBytes'')\<rparr>))"

section \<open>psi\<close>

record psi =
  some_avg10 :: f64
  some_avg60 :: f64
  some_avg300 :: f64
  some_total :: u64
  full_avg10 :: f64
  full_avg60 :: f64
  full_avg300 :: f64
  full_total :: u64

text \<open>
  \<open>PSI.Collect\<close>. The parameter \<open>procfs_psi\<close> is \<open>procfs.NewFS\<close> and \<open>PSIStatsForResource\<close>: the two
  lines of the file, each \<open>None\<close> where the library leaves its pointer nil, which the code
  then dereferences. A result \<open>Inr None\<close> is the code's \<open>(nil, nil)\<close>.
\<close>

record psi_line =
  avg10 :: f64
  avg60 :: f64
  avg300 :: f64
  total :: u64

definition psi_collect ::
  "(node \<Rightarrow> err + psi_line option \<times> psi_line option) \<Rightarrow> node \<Rightarrow> err + psi option" where
  "psi_collect procfs_psi proc =
     (case os_stat proc [''pressure'', ''memory''] of
        Inl e \<Rightarrow> if e = ErrNotExist then Inr None else Inl e
      | Inr _ \<Rightarrow>
          (case procfs_psi proc of
             Inl e \<Rightarrow> Inl e
           | Inr (Some some, Some full) \<Rightarrow> Inr (Some
               \<lparr>some_avg10 = avg10 some, some_avg60 = avg60 some, some_avg300 = avg300 some,
                some_total = total some, full_avg10 = avg10 full, full_avg60 = avg60 full,
                full_avg300 = avg300 full, full_total = total full\<rparr>)
           | Inr _ \<Rightarrow> Inl ErrPanic))"

section \<open>Properties\<close>

text \<open>
  What \<open>parseVmstat\<close> stores. When it succeeds, every stored counter is the value of the
  last line \<open>key value\<close> with that key, and 0 if the file has no such line; lines with any
  other number of fields and unknown keys leave no trace.
\<close>

theorem parse_vmstat_last_value:
  assumes "parse_vmstat content = Inr r" and "(key, get) \<in> set vmstat_getters"
  shows "get r = (case last_value key (vmstat_pairs content) of None \<Rightarrow> 0 | Some n \<Rightarrow> n)"
proof -
  have "fold_res (\<lambda>r (k, v). apply_kv vmstat_fields r k v) zero_vmstat (vmstat_pairs content) = Inr r"
    using assms(1)
    by (simp add: parse_vmstat_def scan_lines_Inr_iff fold_vmstat_step vmstat_pairs_def)
  from vmt.fold_get [OF this assms(2)]
  have "get r = (case last_value key (vmstat_pairs content) of None \<Rightarrow> get zero_vmstat | Some n \<Rightarrow> n)" .
  moreover have "get zero_vmstat = 0"
    using assms(2) by (auto simp: vmstat_getters_def zero_vmstat_def)
  ultimately show ?thesis by (simp split: option.splits)
qed

definition sample_vmstat :: string where
  "sample_vmstat = unlines [''pgscan_kswapd 7'', ''nr_free_pages 12'', ''oom_kill 1'', ''oom_kill 3'', ''odd'']"

lemma sample_vmstat_lines:
  "scanner_lines sample_vmstat =
     [''pgscan_kswapd 7'', ''nr_free_pages 12'', ''oom_kill 1'', ''oom_kill 3'', ''odd'']"
  "scanner_err sample_vmstat = None"
  unfolding sample_vmstat_def
  by (rule scanner_lines_unlines, simp add: clean_line_def line_fits_def newline_def)+

lemma sample_vmstat_pairs:
  "vmstat_pairs sample_vmstat =
     [(''pgscan_kswapd'', ''7''), (''nr_free_pages'', ''12''), (''oom_kill'', ''1''), (''oom_kill'', ''3'')]"
  by (simp add: vmstat_pairs_def sample_vmstat_lines two_fields_def fields_eval)

theorem parse_vmstat_last_value_witness:
  "\<exists>r. parse_vmstat sample_vmstat = Inr r \<and> vm_OomKill r = 3 \<and> vm_Pswpin r = 0"
proof -
  have "parse_vmstat sample_vmstat = Inr (zero_vmstat\<lparr>vm_PgscanKswapd := 7, vm_OomKill := 3\<rparr>)"
    unfolding parse_vmstat_def scan_lines_def fold_vmstat_step sample_vmstat_lines(2)
      sample_vmstat_pairs [unfolded vmstat_pairs_def]
    by (simp add: apply_kv_def vmstat_fields_def parse_u64_def parse_uint_def digit_val_def)
  moreover from this have "vm_OomKill (zero_vmstat\<lparr>vm_PgscanKswapd := 7, vm_OomKill := 3\<rparr>) = 3"
    using parse_vmstat_last_value [of sample_vmstat _ "''oom_kill''" vm_OomKill]
    by (simp add: vmstat_getters_def sample_vmstat_pairs last_value_def parse_u64_def
        parse_uint_def digit_val_def)
  ultimately show ?thesis by (auto simp: zero_vmstat_def)
qed

text \<open>
  When \<open>parseVmstat\<close> fails. It succeeds exactly when no line is too long for the scanner
  and the value of every known key, on every line with exactly two fields, is a decimal
  number below \<open>2 ^ 64\<close>; a bad value of a key the program does not store is no error.
\<close>

theorem parse_vmstat_succeeds_iff:
  "(\<exists>r. parse_vmstat content = Inr r) \<longleftrightarrow>
     scanner_err content = None
     \<and> list_all (\<lambda>(k, v). k \<in> set (map fst vmstat_fields) \<longrightarrow> (\<exists>n. parse_u64 v = Inr n))
         (vmstat_pairs content)"
  using vmt.fold_succeeds_iff [of zero_vmstat "vmstat_pairs content"]
  by (auto simp: parse_vmstat_def scan_lines_Inr_iff fold_vmstat_step vmstat_pairs_def list_all_iff)

theorem parse_vmstat_succeeds_iff_witness:
  "\<exists>r. parse_vmstat sample_vmstat = Inr r"
  unfolding parse_vmstat_succeeds_iff sample_vmstat_pairs
  by (simp add: sample_vmstat_lines parse_u64_def parse_uint_def digit_val_def)

end
