(* ===== verification/NodeFiles.thy ===== *)
theory NodeFiles
  imports HostTree
begin

text \<open>
  The collectors below \<open>/sys/devices/system/node\<close> and \<open>/sys/kernel/mm/hugepages\<close>:
  \<open>internal/collector/numa.go\<close> and \<open>hugepages.go\<close>, with the records \<open>NumaMem\<close> and
  \<open>Hugepages\<close> of \<open>pkg/model/records.go\<close>. Go iterates over a map in an order it does not
  specify; the order in which the files of a hugepages directory are read is a parameter.
\<close>

section \<open>Scanning key/value files\<close>

definition node_meminfo_kv :: "string list \<Rightarrow> (string \<times> string) option" where
  "node_meminfo_kv fs = (if length fs < 4 then None else Some (trim_suffix (fs ! 2) '':'', fs ! 3))"

definition plain_kv :: "string list \<Rightarrow> (string \<times> string) option" where
  "plain_kv fs = (if length fs < 2 then None else Some (fs ! 0, fs ! 1))"

text \<open>
  \<open>scanReader\<close> hands the fields of each line to a callback; \<open>scanFile\<close> opens the file first;
  \<open>scanNodeMeminfo\<close> and \<open>scanKV\<close> pass on the key and value where a line has them.
\<close>

definition scan_reader :: "('s \<Rightarrow> string list \<Rightarrow> err + 's) \<Rightarrow> 's \<Rightarrow> string \<Rightarrow> err + 's" where
  "scan_reader fn st content = scan_lines (\<lambda>s line. fn s (str_fields line)) st content"

definition scan_file :: "node \<Rightarrow> path \<Rightarrow> ('s \<Rightarrow> string list \<Rightarrow> err + 's) \<Rightarrow> 's \<Rightarrow> err + 's" where
  "scan_file t p fn st =
     (case os_read_file t p of Inl e \<Rightarrow> Inl e | Inr content \<Rightarrow> scan_reader fn st content)"

definition scan_node_meminfo ::
  "node \<Rightarrow> path \<Rightarrow> ('s \<Rightarrow> string \<Rightarrow> string \<Rightarrow> err + 's) \<Rightarrow> 's \<Rightarrow> err + 's" where
  "scan_node_meminfo t p fn st =
     scan_file t p (\<lambda>s fs. case node_meminfo_kv fs of
       None \<Rightarrow> Inr s | Some (key, val) \<Rightarrow> fn s key val) st"

definition scan_kv ::
  "node \<Rightarrow> path \<Rightarrow> ('s \<Rightarrow> string \<Rightarrow> string \<Rightarrow> err + 's) \<Rightarrow> 's \<Rightarrow> err + 's" where
  "scan_kv t p fn st =
     scan_file t p (\<lambda>s fs. case plain_kv fs of
       None \<Rightarrow> Inr s | Some (key, val) \<Rightarrow> fn s key val) st"

text \<open>The pairs such a scan hands on, and the scan as a loop over them.\<close>

definition kv_pairs :: "(string list \<Rightarrow> (string \<times> string) option) \<Rightarrow> string \<Rightarrow> (string \<times> string) list" where
  "kv_pairs kv content = List.map_filter (\<lambda>line. kv (str_fields line)) (scanner_lines content)"

lemma fold_kv:
  "fold_res (\<lambda>s line. case kv (str_fields line) of None \<Rightarrow> Inr s | Some (k, v) \<Rightarrow> fn s k v) st ls =
     fold_res (\<lambda>s (k, v). fn s k v) st (List.map_filter (\<lambda>line. kv (str_fields line)) ls)"
  by (induction ls arbitrary: st) (auto split: option.splits sum.splits)

lemma scan_file_kv_Inr:
  "scan_file t p (\<lambda>s fs. case kv fs of None \<Rightarrow> Inr s | Some (k, v) \<Rightarrow> fn s k v) st = Inr st' \<longleftrightarrow>
     (\<exists>content. os_read_file t p = Inr content \<and> scanner_err content = None
        \<and> fold_res (\<lambda>s (k, v). fn s k v) st (kv_pairs kv content) = Inr st')"
  by (auto simp: scan_file_def scan_reader_def scan_lines_Inr_iff fold_kv kv_pairs_def
      split: sum.splits)

lemmas scan_node_meminfo_Inr = scan_file_kv_Inr [where kv = node_meminfo_kv, folded scan_node_meminfo_def]

lemmas scan_kv_Inr = scan_file_kv_Inr [where kv = plain_kv, folded scan_kv_def]

section \<open>NUMA nodes\<close>

record numa_mem =
  nm_Node :: int
  nm_MemTotal :: u64
  nm_MemFree :: u64
  nm_FilePages :: u64
  nm_AnonPages :: u64
  nm_NumaHit :: u64
  nm_NumaMiss :: u64
  nm_NumaForeign :: u64

definition numa_meminfo_fields :: "numa_mem setters" where
  "numa_meminfo_fields =
     [(''MemTotal'', \<lambda>r n. r\<lparr>nm_MemTotal := n * 1024\<rparr>),
      (''MemFree'', \<lambda>r n. r\<lparr>nm_MemFree := n * 1024\<rparr>),
      (''FilePages'', \<lambda>r n. r\<lparr>nm_FilePages := n * 1024\<rparr>),
      (''AnonPages'', \<lambda>r n. r\<lparr>nm_AnonPages := n * 1024\<rparr>)]"

definition numa_stat_fields :: "numa_mem setters" where
  "numa_stat_fields =
     [(''numa_hit'', \<lambda>r n. r\<lparr>nm_NumaHit := n\<rparr>),
      (''numa_miss'', \<lambda>r n. r\<lparr>nm_NumaMiss := n\<rparr>),
      (''numa_foreign'', \<lambda>r n. r\<lparr>nm_NumaForeign := n\<rparr>)]"

definition zero_numa :: "int \<Rightarrow> numa_mem" where
  "zero_numa node =
     \<lparr>nm_Node = node, nm_MemTotal = 0, nm_MemFree = 0, nm_FilePages = 0, nm_AnonPages = 0,
      nm_NumaHit = 0, nm_NumaMiss = 0, nm_NumaForeign = 0\<rparr>"

definition collect_node :: "node \<Rightarrow> path \<Rightarrow> int \<Rightarrow> err + numa_mem" where
  "collect_node t dir node =
     bind_res (scan_node_meminfo t (dir @ [''meminfo'']) (apply_kv numa_meminfo_fields) (zero_numa node))
       (\<lambda>rec. scan_kv t (dir @ [''numastat'']) (apply_kv numa_stat_fields) rec)"

text \<open>The number of a \<open>nodeN\<close> directory entry; the loop skips every entry that has none.\<close>

definition node_number :: "string \<times> bool \<Rightarrow> int option" where
  "node_number e =
     (if \<not> snd e \<or> \<not> has_prefix (fst e) ''node'' then None
      else (case atoi (trim_prefix (fst e) ''node'') of Inl _ \<Rightarrow> None | Inr n \<Rightarrow> Some n))"

definition node_dir :: path where
  "node_dir = [''devices'', ''system'', ''node'']"

fun numa_loop :: "node \<Rightarrow> numa_mem list \<Rightarrow> (string \<times> bool) list \<Rightarrow> err + numa_mem list" where
  "numa_loop t nodes [] = Inr nodes"
| "numa_loop t nodes (e # es) =
     (case node_number e of
        None \<Rightarrow> numa_loop t nodes es
      | Some n \<Rightarrow>
          (case collect_node t (node_dir @ [fst e]) n of
             Inl err \<Rightarrow> Inl err
           | Inr rec \<Rightarrow> numa_loop t (nodes @ [rec]) es))"

definition numa_collect :: "node \<Rightarrow> err + numa_mem list" where
  "numa_collect sys =
     (case os_read_dir sys node_dir of
        Inl e \<Rightarrow> if e = ErrNotExist then Inr [] else Inl e
      | Inr entries \<Rightarrow>
          (case numa_loop sys [] entries of
             Inl e \<Rightarrow> Inl e
           | Inr nodes \<Rightarrow> Inr (sort_key nm_Node nodes)))"

definition numa_meminfo_getters :: "(string \<times> (numa_mem \<Rightarrow> u64)) list" where
  "numa_meminfo_getters =
     [(''MemTotal'', nm_MemTotal), (''MemFree'', nm_MemFree),
      (''FilePages'', nm_FilePages), (''AnonPages'', nm_AnonPages)]"

definition numa_stat_getters :: "(string \<times> (numa_mem \<Rightarrow> u64)) list" where
  "numa_stat_getters =
     [(''numa_hit'', nm_NumaHit), (''numa_miss'', nm_NumaMiss), (''numa_foreign'', nm_NumaForeign)]"

interpretation nmt: field_table numa_meminfo_fields numa_meminfo_getters "\<lambda>n. n * 1024"
  by (rule field_tableI) (simp_all add: numa_meminfo_fields_def numa_meminfo_getters_def)

interpretation nst: field_table numa_stat_fields numa_stat_getters "\<lambda>n. n"
  by (rule field_tableI) (simp_all add: numa_stat_fields_def numa_stat_getters_def)

lemma apply_numa_stat_keeps:
  "apply_kv numa_stat_fields r k v = Inr r' \<Longrightarrow> nm_Node r' = nm_Node r
     \<and> nm_MemTotal r' = nm_MemTotal r \<and> nm_MemFree r' = nm_MemFree r
     \<and> nm_FilePages r' = nm_FilePages r \<and> nm_AnonPages r' = nm_AnonPages r"
  by (auto simp: apply_kv_def numa_stat_fields_def split: option.splits sum.splits if_splits)

lemma apply_numa_meminfo_keeps:
  "apply_kv numa_meminfo_fields r k v = Inr r' \<Longrightarrow> nm_Node r' = nm_Node r
     \<and> nm_NumaHit r' = nm_NumaHit r \<and> nm_NumaMiss r' = nm_NumaMiss r
     \<and> nm_NumaForeign r' = nm_NumaForeign r"
  by (auto simp: apply_kv_def numa_meminfo_fields_def split: option.splits sum.splits if_splits)

lemma numa_loop_eq:
  "numa_loop t nodes es =
     bind_res (map_res (\<lambda>(name, n). collect_node t (node_dir @ [name]) n)
        (List.map_filter (\<lambda>e. map_option (\<lambda>n. (fst e, n)) (node_number e)) es))
       (\<lambda>recs. Inr (nodes @ recs))"
proof (induction es arbitrary: nodes)
  case (Cons e es)
  show ?case
  proof (cases "node_number e")
    case None
    then show ?thesis by (simp add: Cons.IH)
  next
    case (Some n)
    then show ?thesis
      by (auto simp: Cons.IH bind_res_def split: sum.splits)
  qed
qed simp

lemma collect_node_Inr:
  assumes "collect_node t dir node = Inr r"
    and "os_read_file t (dir @ [''meminfo'']) = Inr mc"
    and "os_read_file t (dir @ [''numastat'']) = Inr sc"
  shows "\<exists>r1. fold_res (\<lambda>s (k, v). apply_kv numa_meminfo_fields s k v) (zero_numa node)
             (kv_pairs node_meminfo_kv mc) = Inr r1
      \<and> fold_res (\<lambda>s (k, v). apply_kv numa_stat_fields s k v) r1 (kv_pairs plain_kv sc) = Inr r"
  using assms by (auto simp: collect_node_def bind_res_eq_Inr scan_node_meminfo_Inr scan_kv_Inr)

lemma collect_node_number: "collect_node t dir node = Inr r \<Longrightarrow> nm_Node r = node"
proof -
  assume "collect_node t dir node = Inr r"
  then obtain r1 mc sc where
    r1: "fold_res (\<lambda>s (k, v). apply_kv numa_meminfo_fields s k v) (zero_numa node) mc = Inr r1"
    and r: "fold_res (\<lambda>s (k, v). apply_kv numa_stat_fields s k v) r1 sc = Inr r"
    by (auto simp: collect_node_def bind_res_eq_Inr scan_node_meminfo_Inr scan_kv_Inr)
  have "nm_Node r1 = node"
    using r1 by (rule fold_res_inv)
      (auto simp: zero_numa_def dest: apply_numa_meminfo_keeps split: prod.splits)
  show ?thesis
    using r \<open>nm_Node r1 = node\<close> by (rule fold_res_inv)
      (auto dest: apply_numa_stat_keeps split: prod.splits)
qed

section \<open>Huge pages\<close>

record hugepages =
  hp_SizeKB :: u64
  hp_Node :: int
  hp_Total :: u64
  hp_Free :: u64
  hp_Rsvd :: u64
  hp_Surp :: u64

definition hugepages_no_numa :: int where
  "hugepages_no_numa = - 1"

definition hugepages_fields :: "hugepages setters" where
  "hugepages_fields =
     [(''nr_hugepages'', \<lambda>r n. r\<lparr>hp_Total := n\<rparr>),
      (''free_hugepages'', \<lambda>r n. r\<lparr>hp_Free := n\<rparr>),
      (''resv_hugepages'', \<lambda>r n. r\<lparr>hp_Rsvd := n\<rparr>),
      (''surplus_hugepages'', \<lambda>r n. r\<lparr>hp_Surp := n\<rparr>)]"

text \<open>\<open>readHugepagesDir\<close>, reading the files in the order \<open>order\<close>.\<close>

definition read_hugepages_dir ::
  "hugepages setters \<Rightarrow> node \<Rightarrow> path \<Rightarrow> u64 \<Rightarrow> int \<Rightarrow> err + hugepages" where
  "read_hugepages_dir order t dir size_kb node =
     fold_res (\<lambda>rec (file, setter).
         (case read_uint_file t (dir @ [file]) of Inl e \<Rightarrow> Inl e | Inr n \<Rightarrow> Inr (setter rec n)))
       \<lparr>hp_SizeKB = size_kb, hp_Node = node, hp_Total = 0, hp_Free = 0, hp_Rsvd = 0, hp_Surp = 0\<rparr>
       order"

definition hugepages_dir_name :: "u64 \<Rightarrow> string" where
  "hugepages_dir_name size_kb = ''hugepages-'' @ format_uint (unat size_kb) @ ''kB''"

definition parse_hugepages_dir_name :: "string \<Rightarrow> u64 option" where
  "parse_hugepages_dir_name name =
     (if \<not> has_prefix name ''hugepages-'' \<or> \<not> has_suffix name ''kB'' then None
      else (case parse_u64 (trim_suffix (trim_prefix name ''hugepages-'') ''kB'') of
              Inl _ \<Rightarrow> None
            | Inr n \<Rightarrow> Some n))"

definition list_hugepage_sizes :: "node \<Rightarrow> path \<Rightarrow> err + u64 list" where
  "list_hugepage_sizes t root =
     (case os_read_dir t root of
        Inl e \<Rightarrow> Inl e
      | Inr entries \<Rightarrow> Inr (sort (List.map_filter
          (\<lambda>(name, dir). if \<not> dir then None else parse_hugepages_dir_name name) entries)))"

definition list_hugepage_nodes :: "node \<Rightarrow> path \<Rightarrow> err + (string \<times> int) list" where
  "list_hugepage_nodes t root =
     (case os_read_dir t root of
        Inl e \<Rightarrow> if e = ErrNotExist then Inr [] else Inl e
      | Inr entries \<Rightarrow> Inr (sort_key snd (List.map_filter
          (\<lambda>e. map_option (\<lambda>n. (fst e, n)) (node_number e)) entries)))"

definition hugepages_root :: path where
  "hugepages_root = [''kernel'', ''mm'', ''hugepages'']"

text \<open>
  The inner loop over the nodes for one page size: the records of the nodes whose directory
  for this size exists (a \<open>Stat\<close> failure other than absence is found by the reads).
\<close>

fun hugepages_nodes_loop ::
  "(path \<Rightarrow> hugepages setters) \<Rightarrow> node \<Rightarrow> u64 \<Rightarrow> hugepages list \<Rightarrow> (string \<times> int) list
     \<Rightarrow> err + hugepages list" where
  "hugepages_nodes_loop order t size_kb out [] = Inr out"
| "hugepages_nodes_loop order t size_kb out ((name, num) # ns) =
     (let d = node_dir @ [name, ''hugepages'', hugepages_dir_name size_kb]
      in if os_stat t d = Inl ErrNotExist then hugepages_nodes_loop order t size_kb out ns
         else (case read_hugepages_dir (order d) t d size_kb num of
                 Inl e \<Rightarrow> Inl e
               | Inr rec \<Rightarrow> hugepages_nodes_loop order t size_kb (out @ [rec]) ns))"

text \<open>One iteration of the outer loop: \<open>recorded\<close> is whether the inner loop added a record.\<close>

definition hugepages_size_step ::
  "(path \<Rightarrow> hugepages setters) \<Rightarrow> node \<Rightarrow> (string \<times> int) list \<Rightarrow> hugepages list \<Rightarrow> u64
     \<Rightarrow> err + hugepages list" where
  "hugepages_size_step order t nodes out size_kb =
     (case hugepages_nodes_loop order t size_kb [] nodes of
        Inl e \<Rightarrow> Inl e
      | Inr recs \<Rightarrow>
          if recs \<noteq> [] then Inr (out @ recs)
          else (let d = hugepages_root @ [hugepages_dir_name size_kb]
                in case read_hugepages_dir (order d) t d size_kb hugepages_no_numa of
                     Inl e \<Rightarrow> Inl e
                   | Inr rec \<Rightarrow> Inr (out @ [rec])))"

text \<open>The order of the result: by page size, then by node (both as numbers).\<close>

definition hugepages_key :: "hugepages \<Rightarrow> int list" where
  "hugepages_key r = [uint (hp_SizeKB r), hp_Node r]"

definition hugepages_collect :: "(path \<Rightarrow> hugepages setters) \<Rightarrow> node \<Rightarrow> err + hugepages list" where
  "hugepages_collect order sys =
     (case list_hugepage_sizes sys hugepages_root of
        Inl e \<Rightarrow> if e = ErrNotExist then Inr [] else Inl e
      | Inr sizes \<Rightarrow>
          (case list_hugepage_nodes sys node_dir of
             Inl e \<Rightarrow> Inl e
           | Inr nodes \<Rightarrow>
               (case fold_res (hugepages_size_step order sys nodes) [] sizes of
                  Inl e \<Rightarrow> Inl e
                | Inr out \<Rightarrow> Inr (sort_key hugepages_key out))))"

subsection \<open>The order of reads does not matter\<close>

definition hugepages_getters :: "(string \<times> (hugepages \<Rightarrow> u64)) list" where
  "hugepages_getters =
     [(''nr_hugepages'', hp_Total), (''free_hugepages'', hp_Free),
      (''resv_hugepages'', hp_Rsvd), (''surplus_hugepages'', hp_Surp)]"

interpretation hpt: field_table hugepages_fields hugepages_getters "\<lambda>n. n"
  by (rule field_tableI) (simp_all add: hugepages_fields_def hugepages_getters_def)

lemma hugepages_setters_keep:
  "(k, f) \<in> set hugepages_fields \<Longrightarrow> hp_SizeKB (f r n) = hp_SizeKB r \<and> hp_Node (f r n) = hp_Node r"
  by (auto simp: hugepages_fields_def)

abbreviation read_step :: "node \<Rightarrow> path \<Rightarrow> hugepages \<Rightarrow> string \<times> (hugepages \<Rightarrow> u64 \<Rightarrow> hugepages) \<Rightarrow> err + hugepages" where
  "read_step t dir \<equiv> \<lambda>rec (file, setter).
     (case read_uint_file t (dir @ [file]) of Inl e \<Rightarrow> Inl e | Inr n \<Rightarrow> Inr (setter rec n))"

lemma read_steps_get:
  assumes "fold_res (read_step t dir) r0 order = Inr r"
    and "set order \<subseteq> set hugepages_fields" and "distinct (map fst order)"
    and "(k', g) \<in> set hugepages_getters"
  shows "(if k' \<in> fst ` set order then read_uint_file t (dir @ [k']) = Inr (g r) else g r = g r0)
    \<and> hp_SizeKB r = hp_SizeKB r0 \<and> hp_Node r = hp_Node r0"
  using assms(1-3)
proof (induction order arbitrary: r0)
  case (Cons kf order)
  obtain k f where kf: "kf = (k, f)" by (cases kf)
  from Cons.prems(1) kf obtain n where n: "read_uint_file t (dir @ [k]) = Inr n"
    and rest: "fold_res (read_step t dir) (f r0 n) order = Inr r"
    by (auto split: sum.splits)
  have mem: "(k, f) \<in> set hugepages_fields" using Cons.prems(2) kf by simp
  have IH: "(if k' \<in> fst ` set order then read_uint_file t (dir @ [k']) = Inr (g r) else g r = g (f r0 n))
    \<and> hp_SizeKB r = hp_SizeKB (f r0 n) \<and> hp_Node r = hp_Node (f r0 n)"
    using Cons.IH [OF rest] Cons.prems(2,3) by simp
  have "g (f r0 n) = (if k = k' then n else g r0)"
    using mem assms(4) by (rule hpt.get_set)
  with IH n hugepages_setters_keep [OF mem] Cons.prems(3) kf show ?case
    by (auto split: if_splits)
qed simp

lemma read_steps_succeed:
  "\<forall>(k, f) \<in> set order. \<exists>n. read_uint_file t (dir @ [k]) = Inr n \<Longrightarrow>
     \<exists>r. fold_res (read_step t dir) r0 order = Inr r"
  by (induction order arbitrary: r0) auto

lemma read_steps_reads:
  "fold_res (read_step t dir) r0 order = Inr r \<Longrightarrow> (k, f) \<in> set order \<Longrightarrow>
     \<exists>n. read_uint_file t (dir @ [k]) = Inr n"
  by (induction order arbitrary: r0) (auto split: sum.splits)

lemma hugepages_eqI:
  "hp_SizeKB r = hp_SizeKB s \<Longrightarrow> hp_Node r = hp_Node s \<Longrightarrow>
     (\<And>k g. (k, g) \<in> set hugepages_getters \<Longrightarrow> g r = g s) \<Longrightarrow> (r :: hugepages) = s"
proof -
  assume h: "hp_SizeKB r = hp_SizeKB s" "hp_Node r = hp_Node s"
    and g: "\<And>k g. (k, g) \<in> set hugepages_getters \<Longrightarrow> g r = g s"
  have "hp_Total r = hp_Total s"
    by (rule g [of "''nr_hugepages''"]) (simp add: hugepages_getters_def)
  moreover have "hp_Free r = hp_Free s"
    by (rule g [of "''free_hugepages''"]) (simp add: hugepages_getters_def)
  moreover have "hp_Rsvd r = hp_Rsvd s"
    by (rule g [of "''resv_hugepages''"]) (simp add: hugepages_getters_def)
  moreover have "hp_Surp r = hp_Surp s"
    by (rule g [of "''surplus_hugepages''"]) (simp add: hugepages_getters_def)
  ultimately show "r = s" using h by (intro hugepages.equality) simp_all
qed

lemma read_hugepages_dir_keep:
  "mset order = mset hugepages_fields \<Longrightarrow> read_hugepages_dir order t d sz node = Inr r \<Longrightarrow>
     hp_SizeKB r = sz \<and> hp_Node r = node"
  using read_steps_get [of t d _ order r "''nr_hugepages''" hp_Total] mset_eq_setD [of order hugepages_fields]
    mset_eq_imp_distinct_iff [of "map fst order" "map fst hugepages_fields"] hpt.distinct_keys
  by (auto simp: read_hugepages_dir_def hugepages_getters_def)

subsection \<open>Which records there are\<close>

text \<open>The nodes a page size is reported for: those that show it, or the host as a whole.\<close>

definition size_present :: "node \<Rightarrow> u64 \<Rightarrow> string \<times> int \<Rightarrow> bool" where
  "size_present t size_kb n \<longleftrightarrow>
     os_stat t (node_dir @ [fst n, ''hugepages'', hugepages_dir_name size_kb]) \<noteq> Inl ErrNotExist"

definition size_nodes :: "node \<Rightarrow> (string \<times> int) list \<Rightarrow> u64 \<Rightarrow> int list" where
  "size_nodes t nodes size_kb =
     (let present = map snd (filter (size_present t size_kb) nodes)
      in if present = [] then [hugepages_no_numa] else present)"

abbreviation record_id :: "hugepages \<Rightarrow> u64 \<times> int" where
  "record_id r \<equiv> (hp_SizeKB r, hp_Node r)"

lemma hugepages_nodes_loop_ids:
  assumes "\<And>d. mset (order d) = mset hugepages_fields"
  shows "hugepages_nodes_loop order t sz out ns = Inr out' \<Longrightarrow>
    map record_id out' = map record_id out @ map (\<lambda>n. (sz, snd n)) (filter (size_present t sz) ns)"
proof (induction ns arbitrary: out)
  case (Cons n ns)
  obtain name num where n: "n = (name, num)" by (cases n)
  show ?case
  proof (cases "size_present t sz n")
    case False
    then show ?thesis using Cons n by (simp add: size_present_def)
  next
    case True
    with Cons.prems n obtain d r where "read_hugepages_dir (order d) t d sz num = Inr r"
      and rest: "hugepages_nodes_loop order t sz (out @ [r]) ns = Inr out'"
      by (auto simp: size_present_def Let_def split: sum.splits)
    then have "record_id r = (sz, num)" using read_hugepages_dir_keep [OF assms] by auto
    with Cons.IH [OF rest] True n show ?thesis by simp
  qed
qed simp

lemma hugepages_size_step_ids:
  assumes "\<And>d. mset (order d) = mset hugepages_fields"
    and "hugepages_size_step order t nodes out sz = Inr out'"
  shows "map record_id out' = map record_id out @ map (Pair sz) (size_nodes t nodes sz)"
proof -
  from assms(2) obtain recs where recs: "hugepages_nodes_loop order t sz [] nodes = Inr recs"
    by (auto simp: hugepages_size_step_def split: sum.splits)
  have ids: "map record_id recs = map (Pair sz) (map snd (filter (size_present t sz) nodes))"
    using hugepages_nodes_loop_ids [OF assms(1) recs] by simp
  show ?thesis
  proof (cases "recs = []")
    case True
    with assms(2) recs obtain d r where "out' = out @ [r]"
      and r: "read_hugepages_dir (order d) t d sz hugepages_no_numa = Inr r"
      by (auto simp: hugepages_size_step_def Let_def split: sum.splits)
    with ids True read_hugepages_dir_keep [OF assms(1) r] show ?thesis
      by (simp add: size_nodes_def Let_def)
  next
    case False
    with assms(2) recs have "out' = out @ recs" by (simp add: hugepages_size_step_def)
    moreover have "filter (size_present t sz) nodes \<noteq> []" using ids False by auto
    ultimately show ?thesis using ids by (simp add: size_nodes_def Let_def)
  qed
qed

lemma hugepages_sizes_ids:
  assumes "\<And>d. mset (order d) = mset hugepages_fields"
  shows "fold_res (hugepages_size_step order t nodes) out sizes = Inr out' \<Longrightarrow>
    map record_id out' = map record_id out
      @ concat (map (\<lambda>sz. map (Pair sz) (size_nodes t nodes sz)) sizes)"
proof (induction sizes arbitrary: out)
  case (Cons sz sizes)
  then obtain out1 where s: "hugepages_size_step order t nodes out sz = Inr out1"
    and rest: "fold_res (hugepages_size_step order t nodes) out1 sizes = Inr out'"
    by (auto split: sum.splits)
  from hugepages_size_step_ids [OF assms s] Cons.IH [OF rest] show ?case by simp
qed simp

section \<open>Properties\<close>

text \<open>
  What a NUMA record holds. When \<open>collectNode\<close> succeeds on a node with both files, each
  of the four sizes is 1024 times the last value the node's \<open>meminfo\<close> gives for its key, with
  64-bit wrap-around, each of the three counters is the last value \<open>numastat\<close> gives, a key
  that does not occur leaves 0, and the node number is the one asked for.
\<close>

theorem collect_node_values:
  assumes "collect_node t dir node = Inr r"
    and "os_read_file t (dir @ [''meminfo'']) = Inr mc"
    and "os_read_file t (dir @ [''numastat'']) = Inr sc"
  shows "nm_Node r = node
    \<and> list_all (\<lambda>(k, g). g r = (case last_value k (kv_pairs node_meminfo_kv mc) of None \<Rightarrow> 0 | Some n \<Rightarrow> n * 1024))
        numa_meminfo_getters
    \<and> list_all (\<lambda>(k, g). g r = (case last_value k (kv_pairs plain_kv sc) of None \<Rightarrow> 0 | Some n \<Rightarrow> n))
        numa_stat_getters"
proof -
  from collect_node_Inr [OF assms] obtain r1 where
    r1: "fold_res (\<lambda>s (k, v). apply_kv numa_meminfo_fields s k v) (zero_numa node)
          (kv_pairs node_meminfo_kv mc) = Inr r1"
    and r: "fold_res (\<lambda>s (k, v). apply_kv numa_stat_fields s k v) r1 (kv_pairs plain_kv sc) = Inr r"
    by blast
  have keep1: "nm_NumaHit r1 = 0 \<and> nm_NumaMiss r1 = 0 \<and> nm_NumaForeign r1 = 0"
    using r1 by (rule fold_res_inv)
      (auto simp: zero_numa_def dest: apply_numa_meminfo_keeps split: prod.splits)
  have keep2: "nm_MemTotal r = nm_MemTotal r1 \<and> nm_MemFree r = nm_MemFree r1
      \<and> nm_FilePages r = nm_FilePages r1 \<and> nm_AnonPages r = nm_AnonPages r1"
    using r by (rule fold_res_inv) (auto dest: apply_numa_stat_keeps split: prod.splits)
  have "g r1 = (case last_value k (kv_pairs node_meminfo_kv mc) of None \<Rightarrow> 0 | Some n \<Rightarrow> n * 1024)"
    if "(k, g) \<in> set numa_meminfo_getters" for k g
    using r1 that by (rule nmt.fold_get0) (use that in \<open>auto simp: numa_meminfo_getters_def zero_numa_def\<close>)
  moreover have "g r = (case last_value k (kv_pairs plain_kv sc) of None \<Rightarrow> 0 | Some n \<Rightarrow> n)"
    if "(k, g) \<in> set numa_stat_getters" for k g
    using r that by (rule nst.fold_get0) (use that keep1 in \<open>auto simp: numa_stat_getters_def\<close>)
  ultimately show ?thesis
    using keep2 collect_node_number [OF assms(1)]
    by (simp add: numa_meminfo_getters_def numa_stat_getters_def)
qed

definition sample_meminfo :: string where
  "sample_meminfo = unlines [''Node 0 MemTotal:       1000 kB'', ''Node 0 Active:  5 kB'']"

definition sample_numastat :: string where
  "sample_numastat = unlines [''numa_hit 12'', ''local_node 3'']"

definition sample_node :: node where
  "sample_node = Dir [(''meminfo'', File sample_meminfo), (''numastat'', File sample_numastat)]"

lemma sample_node_lines:
  "scanner_lines sample_meminfo = [''Node 0 MemTotal:       1000 kB'', ''Node 0 Active:  5 kB'']"
  "scanner_lines sample_numastat = [''numa_hit 12'', ''local_node 3'']"
  "scanner_err sample_meminfo = None"
  "scanner_err sample_numastat = None"
  unfolding sample_meminfo_def sample_numastat_def
  by (rule scanner_lines_unlines, simp add: clean_line_def line_fits_def newline_def)+

lemma sample_node_pairs:
  "kv_pairs node_meminfo_kv sample_meminfo = [(''MemTotal'', ''1000''), (''Active'', ''5'')]"
  "kv_pairs plain_kv sample_numastat = [(''numa_hit'', ''12''), (''local_node'', ''3'')]"
  by (simp_all add: kv_pairs_def sample_node_lines fields_eval cut_eval node_meminfo_kv_def plain_kv_def)

lemma sample_node_collects:
  assumes "os_read_file t (dir @ [''meminfo'']) = Inr sample_meminfo"
    and "os_read_file t (dir @ [''numastat'']) = Inr sample_numastat"
  shows "\<exists>r. collect_node t dir n = Inr r"
proof -
  have num: "parse_u64 ''1000'' = Inr 1000" "parse_u64 ''12'' = Inr 12"
    by (simp_all add: parse_u64_def parse_uint_def digit_val_def)
  have "\<exists>r1. scan_node_meminfo t (dir @ [''meminfo'']) (apply_kv numa_meminfo_fields) (zero_numa n) = Inr r1"
    unfolding scan_node_meminfo_Inr
    using assms(1) by (simp add: sample_node_lines sample_node_pairs apply_kv_def num
        numa_meminfo_fields_def)
  moreover have "\<exists>r. scan_kv t (dir @ [''numastat'']) (apply_kv numa_stat_fields) r1 = Inr r" for r1
    unfolding scan_kv_Inr
    using assms(2) by (simp add: sample_node_lines sample_node_pairs apply_kv_def num
        numa_stat_fields_def)
  ultimately obtain r1 r where
    "scan_node_meminfo t (dir @ [''meminfo'']) (apply_kv numa_meminfo_fields) (zero_numa n) = Inr r1"
    and "scan_kv t (dir @ [''numastat'']) (apply_kv numa_stat_fields) r1 = Inr r"
    by metis
  then show ?thesis by (simp add: collect_node_def)
qed

theorem collect_node_values_witness:
  "\<exists>r. collect_node sample_node [] 0 = Inr r \<and> nm_MemTotal r = 1024000 \<and> nm_NumaHit r = 12
      \<and> nm_NumaMiss r = 0"
proof -
  have files: "os_read_file sample_node ([] @ [''meminfo'']) = Inr sample_meminfo"
    "os_read_file sample_node ([] @ [''numastat'']) = Inr sample_numastat"
    by (simp_all add: os_read_file_def sample_node_def)
  have num: "parse_u64 ''1000'' = Inr 1000" "parse_u64 ''12'' = Inr 12"
    by (simp_all add: parse_u64_def parse_uint_def digit_val_def)
  obtain r where r: "collect_node sample_node [] 0 = Inr r"
    using sample_node_collects [OF files] by blast
  from collect_node_values [OF r files] have "nm_MemTotal r = 1024000 \<and> nm_NumaHit r = 12 \<and> nm_NumaMiss r = 0"
    by (simp add: numa_meminfo_getters_def numa_stat_getters_def sample_node_pairs last_value_def num)
  with r show ?thesis by blast
qed

text \<open>
  The set and order of the NUMA records. When \<open>Collect\<close> succeeds on a host with NUMA
  sysfs, its records are sorted by node number (\<open>node10\<close> after \<open>node9\<close>) and there is exactly
  one for every entry that is a directory named \<open>node\<close> followed by a number.
\<close>

theorem numa_collect_nodes:
  assumes "numa_collect sys = Inr nodes" and "os_read_dir sys node_dir = Inr entries"
  shows "sorted (map nm_Node nodes)
    \<and> mset (map nm_Node nodes) = mset (List.map_filter node_number entries)"
proof -
  let ?named = "List.map_filter (\<lambda>e. map_option (\<lambda>n. (fst e, n)) (node_number e)) entries"
  from assms obtain recs where
    recs: "map_res (\<lambda>(name, n). collect_node sys (node_dir @ [name]) n) ?named = Inr recs"
    and nodes: "nodes = sort_key nm_Node recs"
    by (auto simp: numa_collect_def numa_loop_eq bind_res_eq_Inr split: sum.splits)
  have "list_all2 (\<lambda>(name, n) rec. nm_Node rec = n) ?named recs"
    using recs unfolding map_res_Inr_iff
    by (rule list_all2_mono) (auto intro: collect_node_number)
  then have "map nm_Node recs = map snd ?named"
    by (induction rule: list_all2_induct) auto
  moreover have "map snd ?named = List.map_filter node_number entries"
    by (induction entries) (auto split: option.splits)
  ultimately show ?thesis using nodes by (metis mset_map mset_sort sorted_sort_key)
qed

definition sample_sys :: node where
  "sample_sys =
     Dir [(''devices'', Dir [(''system'', Dir [(''node'',
       Dir [(''node10'', sample_node), (''node9'', sample_node), (''possible'', File ''0'')])])])]"

theorem numa_collect_nodes_witness:
  "\<exists>nodes. numa_collect sample_sys = Inr nodes \<and> map nm_Node nodes = [9, 10]"
proof -
  let ?dir = "\<lambda>name. node_dir @ [name]"
  have nums: "node_number (''node10'', True) = Some 10" "node_number (''node9'', True) = Some 9"
      "node_number (''possible'', False) = None"
    by (simp_all add: node_number_def str_eval atoi_def parse_uint_def digit_val_def)
  have dirs: "os_read_dir sample_sys node_dir = Inr [(''node10'', True), (''node9'', True), (''possible'', False)]"
    by (simp add: os_read_dir_def sample_sys_def node_dir_def sample_node_def)
  have "os_read_file sample_sys (?dir name @ [''meminfo'']) = Inr sample_meminfo
      \<and> os_read_file sample_sys (?dir name @ [''numastat'']) = Inr sample_numastat"
    if "name \<in> {''node10'', ''node9''}" for name
    using that by (auto simp: os_read_file_def sample_sys_def node_dir_def sample_node_def)
  then obtain r10 r9 where "collect_node sample_sys (?dir ''node10'') 10 = Inr r10"
    and "collect_node sample_sys (?dir ''node9'') 9 = Inr r9"
    using sample_node_collects by (metis insertCI)
  then have c: "numa_collect sample_sys = Inr (sort_key nm_Node [r10, r9])"
    unfolding numa_collect_def dirs by (simp add: nums)
  from numa_collect_nodes [OF c dirs] have "sort [10, 9] = map nm_Node (sort_key nm_Node [r10, r9])"
    by (intro sort_eqI) (auto simp: nums)
  with c show ?thesis by simp
qed

text \<open>The directory name of a page size is parsed back to it.\<close>

theorem hugepages_dir_name_roundtrip:
  "parse_hugepages_dir_name (hugepages_dir_name size_kb) = Some size_kb"
proof -
  have "trim_prefix (hugepages_dir_name size_kb) ''hugepages-'' = format_uint (unat size_kb) @ ''kB''"
    unfolding hugepages_dir_name_def by (rule trim_prefix_append)
  moreover have "has_suffix (hugepages_dir_name size_kb) ''kB''"
    unfolding hugepages_dir_name_def append_assoc [symmetric] by (rule has_suffix_append)
  moreover have "has_prefix (hugepages_dir_name size_kb) ''hugepages-''"
    unfolding hugepages_dir_name_def by (rule has_prefix_append)
  ultimately show ?thesis by (simp add: parse_hugepages_dir_name_def)
qed

text \<open>
  Go's map iteration order does not show. Reading the four counter files of a hugepages
  directory in any order gives the same record, or fails in every order; a missing file
  counts as 0.
\<close>

theorem read_hugepages_dir_order:
  assumes "mset order = mset hugepages_fields" and "mset order' = mset hugepages_fields"
  shows "read_hugepages_dir order t dir sz node = Inr r
    \<longleftrightarrow> read_hugepages_dir order' t dir sz node = Inr r"
proof -
  have one: "read_hugepages_dir b t dir sz node = Inr r"
    if a: "read_hugepages_dir a t dir sz node = Inr r"
      and ma: "mset a = mset hugepages_fields" and mb: "mset b = mset hugepages_fields" for a b
  proof -
    note prems = mset_eq_setD [OF ma] mset_eq_setD [OF mb]
    have da: "distinct (map fst a)" and db: "distinct (map fst b)"
      using ma mb hpt.distinct_keys by (metis mset_eq_imp_distinct_iff mset_map)+
    obtain r' where b: "read_hugepages_dir b t dir sz node = Inr r'"
      using a read_steps_succeed [of b t dir] read_steps_reads [of t dir _ a r] prems
      unfolding read_hugepages_dir_def by blast
    have "g r' = g r" if g: "(k, g) \<in> set hugepages_getters" for k g
      using read_steps_get [OF a [unfolded read_hugepages_dir_def] _ da g]
        read_steps_get [OF b [unfolded read_hugepages_dir_def] _ db g] prems
      by (auto split: if_splits)
    then have "r' = r"
      using read_hugepages_dir_keep [OF ma a] read_hugepages_dir_keep [OF mb b]
      by (intro hugepages_eqI) auto
    with b show ?thesis by simp
  qed
  show ?thesis using one [OF _ assms] one [OF _ assms(2,1)] by blast
qed

theorem read_hugepages_dir_order_witness:
  "read_hugepages_dir (rev hugepages_fields) (Dir [(''nr_hugepages'', File ''8''), (''free_hugepages'', File ''3'')]) [] 2048 0
     = Inr \<lparr>hp_SizeKB = 2048, hp_Node = 0, hp_Total = 8, hp_Free = 3, hp_Rsvd = 0, hp_Surp = 0\<rparr>"
proof -
  have "read_hugepages_dir hugepages_fields (Dir [(''nr_hugepages'', File ''8''), (''free_hugepages'', File ''3'')]) [] 2048 0
     = Inr \<lparr>hp_SizeKB = 2048, hp_Node = 0, hp_Total = 8, hp_Free = 3, hp_Rsvd = 0, hp_Surp = 0\<rparr>"
    by (simp add: read_hugepages_dir_def hugepages_fields_def read_uint_file_def os_read_file_def
        parse_uint_file_content_def str_eval parse_u64_def parse_uint_def digit_val_def)
  then show ?thesis
    using read_hugepages_dir_order [of hugepages_fields "rev hugepages_fields"] by simp
qed

text \<open>
  Which hugepages records there are. When \<open>Collect\<close> succeeds, its records are sorted by
  page size and then node, and they are exactly: for every configured page size one record
  per NUMA node that shows the size, or a single host-level one (node -1) if no node does.
\<close>

theorem hugepages_collect_records:
  assumes "\<And>d. mset (order d) = mset hugepages_fields"
    and "hugepages_collect order sys = Inr out"
    and "list_hugepage_sizes sys hugepages_root = Inr sizes"
    and "list_hugepage_nodes sys node_dir = Inr nodes"
  shows "sorted (map hugepages_key out)
    \<and> mset (map record_id out)
        = mset (concat (map (\<lambda>sz. map (Pair sz) (size_nodes sys nodes sz)) sizes))"
proof -
  from assms(2-4) obtain out1 where
    out1: "fold_res (hugepages_size_step order sys nodes) [] sizes = Inr out1"
    and out: "out = sort_key hugepages_key out1"
    by (auto simp: hugepages_collect_def split: sum.splits)
  from hugepages_sizes_ids [OF assms(1) out1]
  have "map record_id out1 = concat (map (\<lambda>sz. map (Pair sz) (size_nodes sys nodes sz)) sizes)"
    by simp
  moreover have "mset (map record_id out) = mset (map record_id out1)"
    unfolding out mset_map mset_sort ..
  moreover have "sorted (map hugepages_key out)"
    unfolding out by (rule sorted_sort_key)
  ultimately show ?thesis by simp
qed

definition sample_huge :: node where
  "sample_huge =
     Dir [(''kernel'', Dir [(''mm'', Dir [(''hugepages'',
       Dir [(''hugepages-2048kB'', Dir [(''nr_hugepages'', File ''8'')]), (''README'', File [])])])])]"

theorem hugepages_collect_records_witness:
  "\<exists>out. hugepages_collect (\<lambda>_. hugepages_fields) sample_huge = Inr out
     \<and> map record_id out = [(2048, - 1)]"
proof -
  have dir: "parse_hugepages_dir_name ''hugepages-2048kB'' = Some 2048"
    by (simp add: parse_hugepages_dir_name_def str_eval parse_u64_def parse_uint_def digit_val_def)
  have name: "hugepages_dir_name 2048 = ''hugepages-2048kB''"
    by (simp add: hugepages_dir_name_def format_uint_def format_base.simps digit_char_def)
  have sizes: "list_hugepage_sizes sample_huge hugepages_root = Inr [2048]"
    by (simp add: list_hugepage_sizes_def os_read_dir_def hugepages_root_def sample_huge_def dir)
  have nodes: "list_hugepage_nodes sample_huge node_dir = Inr []"
    by (simp add: list_hugepage_nodes_def os_read_dir_def node_dir_def sample_huge_def)
  have num: "parse_u64 ''8'' = Inr 8" by (simp add: parse_u64_def parse_uint_def digit_val_def)
  have "\<exists>r. read_hugepages_dir hugepages_fields sample_huge (hugepages_root @ [''hugepages-2048kB'']) 2048 n = Inr r" for n
    by (simp add: read_hugepages_dir_def hugepages_fields_def read_uint_file_def os_read_file_def
        parse_uint_file_content_def hugepages_root_def sample_huge_def str_eval num)
  then obtain r where "read_hugepages_dir hugepages_fields sample_huge (hugepages_root @ [''hugepages-2048kB'']) 2048
      hugepages_no_numa = Inr r"
    by blast
  then have c: "hugepages_collect (\<lambda>_. hugepages_fields) sample_huge = Inr (sort_key hugepages_key [r])"
    unfolding hugepages_collect_def sizes nodes by (simp add: hugepages_size_step_def name)
  from hugepages_collect_records [OF refl c sizes nodes] have "record_id r = (2048, - 1)"
    by (simp add: size_nodes_def hugepages_no_numa_def)
  with c show ?thesis by simp
qed

end
