(* ===== verification/GoFloat.thy ===== *)
theory GoFloat
  imports GoStrings
begin

text \<open>
  \<open>strconv.ParseFloat(s, 64)\<close>: the syntax of \<open>readFloat\<close> and \<open>special\<close> (signs, decimal and
  hexadecimal mantissas, exponents, underscores, infinities and NaN), and the correctly rounded
  conversion of the number read to the bit pattern of a float64. A value that overflows is a range
  error, as there.
\<close>

section \<open>Syntax\<close>

definition lower :: "char \<Rightarrow> char" where
  "lower c = (if 65 \<le> (of_char c :: nat) \<and> (of_char c :: nat) \<le> 90 then char_of ((of_char c :: nat) + 32) else c)"

definition is_dec :: "char \<Rightarrow> bool" where
  "is_dec c \<longleftrightarrow> 48 \<le> (of_char c :: nat) \<and> (of_char c :: nat) \<le> 57"

definition mant_digit :: "bool \<Rightarrow> char \<Rightarrow> nat option" where
  "mant_digit hex c =
     (case digit_val c of
        None \<Rightarrow> None
      | Some d \<Rightarrow> if d < (if hex then 16 else 10) then Some d else None)"

text \<open>
  The mantissa: its digits as one number, how many of them follow the point (\<open>None\<close> before a
  point was seen), whether there was a digit, and what follows.
\<close>

fun mant_loop ::
  "bool \<Rightarrow> nat \<Rightarrow> nat option \<Rightarrow> bool \<Rightarrow> string \<Rightarrow> nat \<times> nat option \<times> bool \<times> string" where
  "mant_loop hex m frac dig [] = (m, frac, dig, [])"
| "mant_loop hex m frac dig (c # cs) =
     (if c = CHR ''_'' then mant_loop hex m frac dig cs
      else if c = CHR ''.'' then
        (if frac \<noteq> None then (m, frac, dig, c # cs) else mant_loop hex m (Some 0) dig cs)
      else case mant_digit hex c of
        None \<Rightarrow> (m, frac, dig, c # cs)
      | Some d \<Rightarrow> mant_loop hex (m * (if hex then 16 else 10) + d) (map_option Suc frac) True cs)"

text \<open>The digits of the exponent; their value stops growing at 10000.\<close>

fun exp_loop :: "nat \<Rightarrow> string \<Rightarrow> nat \<times> string" where
  "exp_loop e [] = (e, [])"
| "exp_loop e (c # cs) =
     (if c = CHR ''_'' then exp_loop e cs
      else if is_dec c then exp_loop (if e < 10000 then e * 10 + (of_char c - 48) else e) cs
      else (e, c # cs))"

text \<open>The sign in front of a number, and what follows it.\<close>

definition read_sign :: "string \<Rightarrow> bool \<times> string" where
  "read_sign s =
     (case s of
        [] \<Rightarrow> (False, s)
      | c # cs \<Rightarrow> if c = CHR ''+'' then (False, cs) else if c = CHR ''-'' then (True, cs) else (False, s))"

definition read_exp :: "string \<Rightarrow> (int \<times> string) option" where
  "read_exp s =
     (case read_sign s of (neg, ds) \<Rightarrow>
        if ds = [] \<or> \<not> is_dec (hd ds) then None
        else (case exp_loop 0 ds of (e, rest) \<Rightarrow> Some (if neg then - int e else int e, rest)))"

text \<open>
  \<open>underscoreOK\<close>: an underscore stands between two digits, or a base prefix and a digit.
  The state is the kind of the last character.
\<close>

fun underscores_ok :: "bool \<Rightarrow> char \<Rightarrow> string \<Rightarrow> bool" where
  "underscores_ok hex i [] = (i \<noteq> CHR ''_'')"
| "underscores_ok hex i (c # cs) =
     (if is_dec c \<or> hex \<and> CHR ''a'' \<le> lower c \<and> lower c \<le> CHR ''f'' then underscores_ok hex CHR ''0'' cs
      else if c = CHR ''_'' then i = CHR ''0'' \<and> underscores_ok hex c cs
      else i \<noteq> CHR ''_'' \<and> underscores_ok hex CHR ''!'' cs)"

definition base_prefix :: "string \<Rightarrow> char list \<Rightarrow> bool" where
  "base_prefix s ls \<longleftrightarrow> 2 \<le> length s \<and> s ! 0 = CHR ''0'' \<and> lower (s ! 1) \<in> set ls"

definition underscore_ok :: "string \<Rightarrow> bool" where
  "underscore_ok s =
     (let s = snd (read_sign s)
      in if base_prefix s ''box''
         then underscores_ok (lower (s ! 1) = CHR ''x'') CHR ''0'' (drop 2 s)
         else underscores_ok False CHR ''^'' s)"

text \<open>A number read from all of the string: sign, mantissa, base 2 or 10, exponent of that base.\<close>

definition read_float :: "string \<Rightarrow> (bool \<times> nat \<times> bool \<times> int) option" where
  "read_float s =
     (case read_sign s of (neg, t) \<Rightarrow>
      let hex = (2 < length t \<and> base_prefix t ''x'')
      in case mant_loop hex 0 None False (if hex then drop 2 t else t) of (m, frac, dig, rest) \<Rightarrow>
        let e0 = - int (case frac of None \<Rightarrow> 0 | Some k \<Rightarrow> k) * (if hex then 4 else 1)
        in if \<not> dig then None
           else if rest \<noteq> [] \<and> lower (hd rest) = (if hex then CHR ''p'' else CHR ''e'') then
             (case read_exp (tl rest) of
                Some (e, []) \<Rightarrow>
                  if CHR ''_'' \<in> set s \<and> \<not> underscore_ok s then None else Some (neg, m, hex, e0 + e)
              | _ \<Rightarrow> None)
           else if hex \<or> rest \<noteq> [] then None
           else if CHR ''_'' \<in> set s \<and> \<not> underscore_ok s then None
           else Some (neg, m, hex, e0))"

section \<open>Rounding\<close>

fun bit_length :: "nat \<Rightarrow> nat" where
  "bit_length n = (if n = 0 then 0 else Suc (bit_length (n div 2)))"

declare bit_length.simps [simp del]

definition scaled :: "nat \<Rightarrow> nat \<Rightarrow> int \<Rightarrow> nat \<times> nat" where
  "scaled n d e = (if 0 \<le> e then (n, d * 2 ^ nat e) else (n * 2 ^ nat (- e), d))"

text \<open>
  The bits of the float64 nearest to \<open>n / d\<close>, ties to even: the quotient by the power of two
  that leaves at most 53 bits (and no finer than the smallest subnormal), rounded. The leading bit
  of a normal number carries into the exponent.
\<close>

definition round_f64 :: "nat \<Rightarrow> nat \<Rightarrow> nat" where
  "round_f64 n d =
     (if n = 0 then 0
      else let e0 = max (int (bit_length n) - int (bit_length d) - 53) (- 1074);
               e = (case scaled n d e0 of (a, b) \<Rightarrow> if 2 ^ 53 \<le> a div b then e0 + 1 else e0)
           in case scaled n d e of (a, b) \<Rightarrow>
                let q = a div b; r = a mod b;
                    q' = (if b < 2 * r \<or> b = 2 * r \<and> odd q then q + 1 else q)
                in nat (e + 1074) * 2 ^ 52 + q')"

definition inf_bits :: nat where
  "inf_bits = 2047 * 2 ^ 52"

definition sign_bit :: "bool \<Rightarrow> nat" where
  "sign_bit neg = (if neg then 2 ^ 63 else 0)"

definition float_bits :: "bool \<times> nat \<times> bool \<times> int \<Rightarrow> err + f64" where
  "float_bits x =
     (case x of (neg, m, hex, e) \<Rightarrow>
      let base = (if hex then 2 else 10);
          bits = (if 0 \<le> e then round_f64 (m * base ^ nat e) 1 else round_f64 m (base ^ nat (- e)))
      in if inf_bits \<le> bits then Inl (ErrNum ErrRange)
         else Inr (word_of_nat (sign_bit neg + bits)))"

definition parse_float :: "string \<Rightarrow> err + f64" where
  "parse_float s =
     (case read_sign s of (neg, t) \<Rightarrow>
      if map lower t = ''inf'' \<or> map lower t = ''infinity''
      then Inr (word_of_nat (sign_bit neg + inf_bits))
      else if map lower s = ''nan'' then Inr 0x7FF8000000000001
      else case read_float s of None \<Rightarrow> Inl (ErrNum ErrSyntax) | Some x \<Rightarrow> float_bits x)"

section \<open>Values\<close>

lemmas float_eval = parse_float_def read_sign_def read_float_def read_exp_def base_prefix_def
  mant_digit_def digit_val_def is_dec_def lower_def float_bits_def round_f64_def inf_bits_def
  sign_bit_def scaled_def bit_length.simps

lemma parse_float_zero: "parse_float ''0.00'' = Inr 0"
  by (simp add: float_eval)

lemma parse_float_half: "parse_float ''1.50'' = Inr 0x3FF8000000000000"
  by (simp add: float_eval)

lemma parse_float_bad: "parse_float ''x'' = Inl (ErrNum ErrSyntax)"
  by (simp add: float_eval)

end
