(* ===== verification/Effects.thy ===== *)
theory Effects
  imports Prelude
begin

text \<open>
  Stateful code. An operation is a function from a state to its result, an error or a value,
  and the new state (\<open>act\<close>); \<open>bind_act\<close> is Go's \<open>if err != nil { return err }\<close> between two
  calls: the first error ends the function and the state keeps what was done up to there.
\<close>

type_synonym ('s, 'a) act = "'s \<Rightarrow> (err + 'a) \<times> 's"

definition ret :: "'a \<Rightarrow> ('s, 'a) act" where
  "ret a s = (Inr a, s)"

definition fail :: "err \<Rightarrow> ('s, 'a) act" where
  "fail e s = (Inl e, s)"

definition bind_act :: "('s, 'a) act \<Rightarrow> ('a \<Rightarrow> ('s, 'b) act) \<Rightarrow> ('s, 'b) act" where
  "bind_act m f s = (case m s of (Inl e, s') \<Rightarrow> (Inl e, s') | (Inr a, s') \<Rightarrow> f a s')"

text \<open>\<open>try_act\<close> hands the error to the code that follows, \<open>get_act\<close> reads the state, \<open>upd_act\<close> sets it.\<close>

definition try_act :: "('s, 'a) act \<Rightarrow> ('s, err + 'a) act" where
  "try_act m s = (case m s of (r, s') \<Rightarrow> (Inr r, s'))"

definition get_act :: "('s \<Rightarrow> 'a) \<Rightarrow> ('s, 'a) act" where
  "get_act f s = (Inr (f s), s)"

definition upd_act :: "('s \<Rightarrow> 's) \<Rightarrow> ('s, unit) act" where
  "upd_act f s = (Inr (), f s)"

fun iter_act :: "('a \<Rightarrow> ('s, unit) act) \<Rightarrow> 'a list \<Rightarrow> ('s, unit) act" where
  "iter_act f [] = ret ()"
| "iter_act f (x # xs) = bind_act (f x) (\<lambda>_. iter_act f xs)"

lemmas act_defs = ret_def fail_def bind_act_def try_act_def get_act_def upd_act_def

text \<open>How a composed operation came to its result.\<close>

lemma bind_act_Inr:
  "bind_act m f s = (Inr b, s') \<longleftrightarrow> (\<exists>a s1. m s = (Inr a, s1) \<and> f a s1 = (Inr b, s'))"
  by (auto simp: bind_act_def split: prod.split sum.split)

lemma bind_act_runs: "m s = (Inr a, s1) \<Longrightarrow> bind_act m f s = f a s1"
  by (simp add: bind_act_def)

lemma bind_try: "bind_act (try_act m) f s = (case m s of (r, s1) \<Rightarrow> f r s1)"
  by (simp add: bind_act_def try_act_def split: prod.split)

lemma try_act_Inr [simp]: "try_act m s = (Inr r, s1) \<longleftrightarrow> m s = (r, s1)"
  by (auto simp: try_act_def split: prod.split)

lemma bind_get [simp]: "bind_act (get_act g) f s = f (g s) s"
  and bind_upd [simp]: "bind_act (upd_act h) k s = k () (h s)"
  and bind_ret [simp]: "bind_act (ret a) l s = l a s"
  and bind_fail [simp]: "bind_act (fail e) j s = (Inl e, s)"
  by (simp_all add: bind_act_def act_defs)

lemma ret_eq [simp]: "ret a s = (r, s') \<longleftrightarrow> r = Inr a \<and> s' = s"
  and fail_eq [simp]: "fail e s = (q, s') \<longleftrightarrow> q = Inl e \<and> s' = s"
  by (auto simp: act_defs)

text \<open>An operation keeps \<open>P\<close> if \<open>P\<close> holds after it whether it fails or not.\<close>

definition keeps :: "('s \<Rightarrow> bool) \<Rightarrow> ('s, 'a) act \<Rightarrow> bool" where
  "keeps P m \<longleftrightarrow> (\<forall>s. P s \<longrightarrow> P (snd (m s)))"

named_theorems keeps_intros \<open>what keeps an invariant\<close>

lemma keepsD: "keeps P m \<Longrightarrow> P s \<Longrightarrow> P (snd (m s))"
  by (simp add: keeps_def)

lemma keeps_run: "keeps P m \<Longrightarrow> m s = (r, s') \<Longrightarrow> P s \<Longrightarrow> P s'"
  by (metis keepsD snd_conv)

lemma keeps_ret [keeps_intros]: "keeps P (ret a)"
  and keeps_fail [keeps_intros]: "keeps P (fail e)"
  and keeps_get [keeps_intros]: "keeps P (get_act f)"
  by (simp_all add: keeps_def act_defs)

lemma keeps_upd: "(\<And>s. P s \<Longrightarrow> P (g s)) \<Longrightarrow> keeps P (upd_act g)"
  by (simp add: keeps_def act_defs)

lemma keeps_bind [keeps_intros]: "keeps P m \<Longrightarrow> (\<And>a. keeps P (f a)) \<Longrightarrow> keeps P (bind_act m f)"
  unfolding keeps_def bind_act_def by (auto split: prod.split sum.split)

lemma keeps_try [keeps_intros]: "keeps P m \<Longrightarrow> keeps P (try_act m)"
  unfolding keeps_def try_act_def by (auto split: prod.split)

lemma keeps_if [keeps_intros]: "keeps P m \<Longrightarrow> keeps P n \<Longrightarrow> keeps P (if b then m else n)"
  by simp

lemma keeps_case_sum [keeps_intros]:
  "(\<And>e. keeps P (f e)) \<Longrightarrow> (\<And>a. keeps P (g a)) \<Longrightarrow> keeps P (case r of Inl e \<Rightarrow> f e | Inr a \<Rightarrow> g a)"
  by (simp split: sum.split)

lemma keeps_iter [keeps_intros]: "(\<And>x. keeps P (f x)) \<Longrightarrow> keeps P (iter_act f xs)"
  by (induction xs) (auto intro: keeps_intros)

end
