(* ===== verification/Vllm.thy ===== *)
theory Vllm
  imports Effects HostTree
begin

text \<open>
  \<open>internal/collector/vllm.go\<close>: one record per vLLM endpoint, from the metrics it exposes. The
  Prometheus text parser is a parameter: a reply to a request is a status code with, for its body,
  a parse error or the metric families. Go ranges over \<open>vllmFields\<close> in an unspecified order,
  which is an argument of the model.
\<close>

section \<open>Records and metrics\<close>

record vllm =
  vl_Endpoint :: string
  vl_CacheUsage :: f64
  vl_PrefixHits :: f64
  vl_PrefixQueries :: f64
  vl_Preemptions :: f64
  vl_Running :: f64
  vl_Waiting :: f64
  vl_PromptTokens :: f64
  vl_GenTokens :: f64

text \<open>
  A \<open>dto.Metric\<close>: each of its parts may be absent, and so may the value of a part, which then
  reads as zero.
\<close>

record metric =
  m_Gauge :: "f64 option option"
  m_Counter :: "f64 option option"
  m_Untyped :: "f64 option option"

definition get_value :: "f64 option \<Rightarrow> f64" where
  "get_value v = (case v of None \<Rightarrow> 0 | Some x \<Rightarrow> x)"

definition metric_value :: "metric \<Rightarrow> f64" where
  "metric_value m =
     (case m_Gauge m of
        Some g \<Rightarrow> get_value g
      | None \<Rightarrow>
          (case m_Counter m of
             Some c \<Rightarrow> get_value c
           | None \<Rightarrow> (case m_Untyped m of Some u \<Rightarrow> get_value u | None \<Rightarrow> 0)))"

type_synonym families = "(string \<times> metric list) list"

type_synonym vllm_setters = "(string \<times> (vllm \<Rightarrow> f64 \<Rightarrow> vllm)) list"

definition vllm_fields :: vllm_setters where
  "vllm_fields =
     [(''cache_usage'', \<lambda>r v. r\<lparr>vl_CacheUsage := v\<rparr>),
      (''prefix_hits'', \<lambda>r v. r\<lparr>vl_PrefixHits := v\<rparr>),
      (''prefix_queries'', \<lambda>r v. r\<lparr>vl_PrefixQueries := v\<rparr>),
      (''preemptions'', \<lambda>r v. r\<lparr>vl_Preemptions := v\<rparr>),
      (''running'', \<lambda>r v. r\<lparr>vl_Running := v\<rparr>),
      (''waiting'', \<lambda>r v. r\<lparr>vl_Waiting := v\<rparr>),
      (''prompt_tokens'', \<lambda>r v. r\<lparr>vl_PromptTokens := v\<rparr>),
      (''gen_tokens'', \<lambda>r v. r\<lparr>vl_GenTokens := v\<rparr>)]"

definition vllm_getters :: "(string \<times> (vllm \<Rightarrow> f64)) list" where
  "vllm_getters =
     [(''cache_usage'', vl_CacheUsage), (''prefix_hits'', vl_PrefixHits),
      (''prefix_queries'', vl_PrefixQueries), (''preemptions'', vl_Preemptions),
      (''running'', vl_Running), (''waiting'', vl_Waiting),
      (''prompt_tokens'', vl_PromptTokens), (''gen_tokens'', vl_GenTokens)]"

section \<open>The collector\<close>

datatype metrics_reply =
    NoMetrics err
  | Metrics int "err + families"

text \<open>
  The collector with its environment: what the next requests will be answered with, the requests
  made, the warnings logged. \<open>url_good\<close> is whether \<open>http.NewRequest\<close> accepts a URL.
\<close>

record vllm_collector =
  endpoints :: "string list"
  metric_map :: "(string \<times> string) list"
  warned_names :: "string list"
  vl_url_good :: "string \<Rightarrow> bool"
  vl_replies :: "metrics_reply list"
  vl_requests :: "string list"
  vl_warnings :: "string list"

definition new_vllm ::
  "string list \<Rightarrow> (string \<times> string) list \<Rightarrow> (string \<Rightarrow> bool) \<Rightarrow> metrics_reply list \<Rightarrow> vllm_collector" where
  "new_vllm eps mm good rs =
     \<lparr>endpoints = eps, metric_map = mm, warned_names = [], vl_url_good = good, vl_replies = rs,
      vl_requests = [], vl_warnings = []\<rparr>"

definition metrics_get :: "string \<Rightarrow> (vllm_collector, int \<times> (err + families)) act" where
  "metrics_get url c =
     (let c' = c\<lparr>vl_requests := vl_requests c @ [url], vl_replies := tl (vl_replies c)\<rparr>
      in case vl_replies c of
           [] \<Rightarrow> (Inl ErrNet, c')
         | NoMetrics e # _ \<Rightarrow> (Inl e, c')
         | Metrics st body # _ \<Rightarrow> (Inr (st, body), c'))"

definition scrape_metrics :: "string \<Rightarrow> (vllm_collector, families) act" where
  "scrape_metrics endpoint =
     bind_act (get_act (\<lambda>c. vl_url_good c (endpoint @ ''/metrics''))) (\<lambda>good.
       if \<not> good then fail (ErrInvalid ''url'')
       else bind_act (metrics_get (endpoint @ ''/metrics'')) (\<lambda>(st, body).
         if st \<noteq> 200 then fail (ErrStatus (nat st))
         else case body of Inl e \<Rightarrow> fail e | Inr fams \<Rightarrow> ret fams))"

definition warn_unmatched_once :: "string \<Rightarrow> (vllm_collector, unit) act" where
  "warn_unmatched_once name =
     upd_act (\<lambda>c. if name \<in> set (warned_names c) then c
       else c\<lparr>warned_names := name # warned_names c, vl_warnings := vl_warnings c @ [name]\<rparr>)"

text \<open>The loop of \<open>buildRecord\<close>: the metric configured for one field, if the scrape has it.\<close>

definition configured :: "vllm_collector \<Rightarrow> string \<Rightarrow> string" where
  "configured c key = (case map_of (metric_map c) key of None \<Rightarrow> [] | Some n \<Rightarrow> n)"

fun build_fields :: "families \<Rightarrow> vllm_setters \<Rightarrow> vllm \<Rightarrow> (vllm_collector, vllm) act" where
  "build_fields fams [] rec = ret rec"
| "build_fields fams ((key, setter) # fs) rec =
     bind_act (get_act (\<lambda>c. configured c key)) (\<lambda>name.
       if name = [] then build_fields fams fs rec
       else (case map_of fams name of
               Some (m # ms) \<Rightarrow> build_fields fams fs (setter rec (metric_value m))
             | _ \<Rightarrow> bind_act (warn_unmatched_once name) (\<lambda>_. build_fields fams fs rec)))"

definition zero_vllm :: "string \<Rightarrow> vllm" where
  "zero_vllm endpoint =
     \<lparr>vl_Endpoint = endpoint, vl_CacheUsage = 0, vl_PrefixHits = 0, vl_PrefixQueries = 0,
      vl_Preemptions = 0, vl_Running = 0, vl_Waiting = 0, vl_PromptTokens = 0, vl_GenTokens = 0\<rparr>"

definition build_record :: "vllm_setters \<Rightarrow> string \<Rightarrow> families \<Rightarrow> (vllm_collector, vllm) act" where
  "build_record order endpoint fams = build_fields fams order (zero_vllm endpoint)"

fun collect_endpoints ::
  "(string \<Rightarrow> vllm_setters) \<Rightarrow> string list \<Rightarrow> vllm list \<Rightarrow> (vllm_collector, vllm list) act" where
  "collect_endpoints order [] out = ret out"
| "collect_endpoints order (ep # eps) out =
     bind_act (try_act (scrape_metrics ep)) (\<lambda>r.
       case r of
         Inl e \<Rightarrow> collect_endpoints order eps out
       | Inr fams \<Rightarrow> bind_act (build_record (order ep) ep fams) (\<lambda>rec.
           collect_endpoints order eps (out @ [rec])))"

definition vllm_collect :: "(string \<Rightarrow> vllm_setters) \<Rightarrow> (vllm_collector, vllm list) act" where
  "vllm_collect order = bind_act (get_act endpoints) (\<lambda>eps. collect_endpoints order eps [])"

section \<open>What a record says\<close>

text \<open>The value a scrape gives a field: that of the first metric of the configured family.\<close>

definition field_value :: "vllm_collector \<Rightarrow> families \<Rightarrow> string \<Rightarrow> f64" where
  "field_value c fams key =
     (if configured c key = [] then 0
      else case map_of fams (configured c key) of Some (m # ms) \<Rightarrow> metric_value m | _ \<Rightarrow> 0)"

lemma configured_warn: "metric_map c' = metric_map c \<Longrightarrow> configured c' = configured c"
  by (simp add: configured_def fun_eq_iff)

definition set_field :: "vllm_collector \<Rightarrow> families \<Rightarrow> vllm \<Rightarrow> string \<times> (vllm \<Rightarrow> f64 \<Rightarrow> vllm) \<Rightarrow> vllm" where
  "set_field c fams r kf =
     (if configured c (fst kf) = [] then r
      else case map_of fams (configured c (fst kf)) of
             Some (m # ms) \<Rightarrow> snd kf r (metric_value m) | _ \<Rightarrow> r)"

definition after_field :: "vllm_collector \<Rightarrow> families \<Rightarrow> string \<Rightarrow> vllm_collector" where
  "after_field c fams key =
     (let name = configured c key in
      if name \<noteq> [] \<and> (map_of fams name = None \<or> map_of fams name = Some []) \<and> name \<notin> set (warned_names c)
      then c\<lparr>warned_names := name # warned_names c, vl_warnings := vl_warnings c @ [name]\<rparr> else c)"

lemma after_field_keeps [simp]:
  "metric_map (after_field c fams k) = metric_map c" "vl_replies (after_field c fams k) = vl_replies c"
  "vl_requests (after_field c fams k) = vl_requests c" "vl_url_good (after_field c fams k) = vl_url_good c"
  "endpoints (after_field c fams k) = endpoints c"
  by (simp_all add: after_field_def Let_def)

lemma set_field_after [simp]: "set_field (after_field c fams k) = set_field c"
  by (simp add: set_field_def fun_eq_iff configured_def)

lemma build_fields_step:
  "build_fields fams (kf # fs) r c = build_fields fams fs (set_field c fams r kf) (after_field c fams (fst kf))"
proof (cases kf)
  case (Pair k f)
  show ?thesis
  proof (cases "configured c k = []")
    case True
    then show ?thesis by (simp add: Pair set_field_def after_field_def)
  next
    case False
    show ?thesis
    proof (cases "map_of fams (configured c k) = None \<or> map_of fams (configured c k) = Some []")
      case True
      then show ?thesis
        using False by (auto simp: Pair set_field_def after_field_def warn_unmatched_once_def Let_def)
    next
      case other: False
      then obtain m ms where "map_of fams (configured c k) = Some (m # ms)"
        by (metis list.exhaust not_None_eq)
      then show ?thesis
        using False by (simp add: Pair set_field_def after_field_def)
    qed
  qed
qed

lemma build_fields_fold:
  "\<exists>c'. build_fields fams fs r c = (Inr (foldl (set_field c fams) r fs), c')
     \<and> metric_map c' = metric_map c \<and> vl_replies c' = vl_replies c \<and> vl_requests c' = vl_requests c
     \<and> vl_url_good c' = vl_url_good c"
proof (induction fs arbitrary: r c)
  case Nil
  then show ?case by (simp add: ret_def)
next
  case (Cons kf fs)
  from Cons.IH [of "set_field c fams r kf" "after_field c fams (fst kf)"]
  show ?case unfolding build_fields_step by simp
qed


interpretation vlt: field_table vllm_fields vllm_getters "\<lambda>v. v"
  by (rule field_tableI) (simp_all add: vllm_fields_def vllm_getters_def)

definition found_value :: "vllm_collector \<Rightarrow> families \<Rightarrow> string \<Rightarrow> f64 option" where
  "found_value c fams key =
     (if configured c key = [] then None
      else case map_of fams (configured c key) of Some (m # ms) \<Rightarrow> Some (metric_value m) | _ \<Rightarrow> None)"

lemma set_field_found:
  "set_field c fams r kf = (case found_value c fams (fst kf) of None \<Rightarrow> r | Some v \<Rightarrow> snd kf r v)"
  by (simp add: set_field_def found_value_def split: option.split list.split)

lemma field_value_found:
  "field_value c fams key = (case found_value c fams key of None \<Rightarrow> 0 | Some v \<Rightarrow> v)"
  by (simp add: field_value_def found_value_def split: option.split list.split)

lemma foldl_set_field:
  assumes "distinct (map fst fs)" and "set fs \<subseteq> set vllm_fields" and "(key, get) \<in> set vllm_getters"
    and "get r = 0"
  shows "get (foldl (set_field c fams) r fs) = (if key \<in> fst ` set fs then field_value c fams key else 0)"
  using assms(1,2)
proof (induction fs rule: rev_induct)
  case (snoc kf fs)
  obtain k f where kf: "kf = (k, f)" by (cases kf)
  let ?r = "foldl (set_field c fams) r fs"
  have "get (f ?r v) = (if k = key then v else get ?r)" for v
    using snoc.prems vlt.get_set [of k f key get] assms(3) by (simp add: kf)
  moreover have "get ?r = (if key \<in> fst ` set fs then field_value c fams key else 0)"
    using snoc by simp
  moreover have "k \<notin> fst ` set fs" using snoc.prems by (simp add: kf)
  moreover have "foldl (set_field c fams) r (fs @ [kf]) =
      (case found_value c fams k of None \<Rightarrow> ?r | Some v \<Rightarrow> f ?r v)"
    by (simp add: set_field_found kf split: option.split)
  ultimately show ?case
    by (cases "found_value c fams k") (auto simp: kf field_value_found simp del: foldl_append)
qed (simp add: assms(4))

lemma foldl_set_field_endpoint:
  "set fs \<subseteq> set vllm_fields \<Longrightarrow> vl_Endpoint (foldl (set_field c fams) r fs) = vl_Endpoint r"
proof (induction fs rule: rev_induct)
  case (snoc kf fs)
  have "list_all (\<lambda>(k, f). \<forall>r v. vl_Endpoint (f r v) = vl_Endpoint r) vllm_fields"
    by (simp add: vllm_fields_def)
  from bspec [OF this [unfolded list_all_iff], of kf] snoc.prems
  have "vl_Endpoint (snd kf r v) = vl_Endpoint r" for r v
    by (simp add: case_prod_beta)
  then show ?case using snoc by (simp add: set_field_def split: option.split list.split)
qed simp

definition scraped_record :: "vllm_collector \<Rightarrow> (string \<Rightarrow> vllm_setters) \<Rightarrow> string \<times> families \<Rightarrow> vllm" where
  "scraped_record c order ef = foldl (set_field c (snd ef)) (zero_vllm (fst ef)) (order (fst ef))"

text \<open>The endpoints that answer with metrics, each taking the next reply.\<close>

fun scraped :: "(string \<Rightarrow> bool) \<Rightarrow> metrics_reply list \<Rightarrow> string list \<Rightarrow> (string \<times> families) list" where
  "scraped good rs [] = []"
| "scraped good rs (ep # eps) =
     (if \<not> good (ep @ ''/metrics'') then scraped good rs eps
      else (case rs of
              Metrics st (Inr fams) # _ \<Rightarrow>
                if st = 200 then (ep, fams) # scraped good (tl rs) eps else scraped good (tl rs) eps
            | _ \<Rightarrow> scraped good (tl rs) eps))"

lemma scrape_metrics_cases:
  "\<exists>c'. metric_map c' = metric_map c \<and> vl_url_good c' = vl_url_good c
     \<and> (if \<not> vl_url_good c (ep @ ''/metrics'')
         then (\<exists>e. scrape_metrics ep c = (Inl e, c')) \<and> vl_replies c' = vl_replies c
         else vl_replies c' = tl (vl_replies c)
           \<and> (case vl_replies c of
                 Metrics st (Inr fams) # _ \<Rightarrow>
                   if st = 200 then scrape_metrics ep c = (Inr fams, c') else \<exists>e. scrape_metrics ep c = (Inl e, c')
               | _ \<Rightarrow> \<exists>e. scrape_metrics ep c = (Inl e, c')))"
proof (cases "vl_url_good c (ep @ ''/metrics'')")
  case True
  then show ?thesis
    by (intro exI [of _ "snd (scrape_metrics ep c)"])
      (auto simp: scrape_metrics_def metrics_get_def bind_act_def get_act_def fail_def ret_def Let_def
        split: list.split metrics_reply.split sum.split)
qed (auto simp: scrape_metrics_def fail_def)

lemma scraped_record_map: "metric_map c' = metric_map c \<Longrightarrow> scraped_record c' = scraped_record c"
proof -
  assume "metric_map c' = metric_map c"
  then have cf: "configured c' = configured c" by (rule configured_warn)
  have "set_field c' = set_field c" by (intro ext) (simp add: set_field_def cf)
  then show ?thesis by (intro ext) (simp add: scraped_record_def)
qed

lemma collect_endpoints_records:
  "\<exists>c'. collect_endpoints order eps out c =
     (Inr (out @ map (scraped_record c order) (scraped (vl_url_good c) (vl_replies c) eps)), c')"
proof (induction eps arbitrary: out c)
  case Nil
  then show ?case by (simp add: ret_def)
next
  case (Cons ep eps)
  obtain c1 where m1: "metric_map c1 = metric_map c" "vl_url_good c1 = vl_url_good c"
    and r1: "if \<not> vl_url_good c (ep @ ''/metrics'')
         then (\<exists>e. scrape_metrics ep c = (Inl e, c1)) \<and> vl_replies c1 = vl_replies c
         else vl_replies c1 = tl (vl_replies c)
           \<and> (case vl_replies c of
                 Metrics st (Inr fams) # _ \<Rightarrow>
                   if st = 200 then scrape_metrics ep c = (Inr fams, c1) else \<exists>e. scrape_metrics ep c = (Inl e, c1)
               | _ \<Rightarrow> \<exists>e. scrape_metrics ep c = (Inl e, c1))"
    using scrape_metrics_cases [of c ep] by blast
  note IH1 = Cons.IH [of _ c1, unfolded scraped_record_map [OF m1(1)] m1(2)]
  show ?case
  proof (cases "\<exists>fams. scrape_metrics ep c = (Inr fams, c1)")
    case True
    then obtain fams where s: "scrape_metrics ep c = (Inr fams, c1)" ..
    with r1 have sc: "scraped (vl_url_good c) (vl_replies c) (ep # eps) =
        (ep, fams) # scraped (vl_url_good c) (tl (vl_replies c)) eps" and rep: "vl_replies c1 = tl (vl_replies c)"
      by (auto split: if_splits list.splits metrics_reply.splits sum.splits)
    obtain c2 where b: "build_record (order ep) ep fams c1 = (Inr (scraped_record c1 order (ep, fams)), c2)"
      and m2: "metric_map c2 = metric_map c1" "vl_replies c2 = vl_replies c1" "vl_url_good c2 = vl_url_good c1"
      using build_fields_fold [of fams "order ep" "zero_vllm ep" c1]
      by (auto simp: build_record_def scraped_record_def)
    have "\<exists>c'. collect_endpoints order eps (out @ [scraped_record c order (ep, fams)]) c2 =
        (Inr ((out @ [scraped_record c order (ep, fams)])
          @ map (scraped_record c order) (scraped (vl_url_good c) (tl (vl_replies c)) eps)), c')"
      using Cons.IH [of "out @ [scraped_record c order (ep, fams)]" c2, unfolded scraped_record_map [OF m2(1)]
        scraped_record_map [OF m1(1)] m2 m1 rep] .
    then show ?thesis
      unfolding sc by (simp add: bind_try s bind_act_runs [of "build_record (order ep) ep fams", OF b] scraped_record_map [OF m1(1)])
  next
    case False
    with r1 obtain e where s: "scrape_metrics ep c = (Inl e, c1)"
      by (auto split: if_splits list.splits metrics_reply.splits sum.splits)
    with r1 have "scraped (vl_url_good c) (vl_replies c) (ep # eps) = scraped (vl_url_good c) (vl_replies c1) eps"
      by (auto split: if_splits list.splits metrics_reply.splits sum.splits)
    with IH1 s show ?thesis by (simp add: bind_try)
  qed
qed

text \<open>
  C37: The vLLM records. A collection never fails: it returns one record, in the order of the
  configured endpoints, for each endpoint that answers with metrics, whatever the others do. Each
  field of a record is the value of the first metric of the family configured for it, and zero if
  none is configured or found, in whatever order Go ranges over the table of fields.
\<close>
theorem vllm_collect_records:
  assumes "\<And>ep. mset (order ep) = mset vllm_fields"
  shows "\<exists>recs c'. vllm_collect order c = (Inr recs, c')
    \<and> map vl_Endpoint recs = map fst (scraped (vl_url_good c) (vl_replies c) (endpoints c))
    \<and> list_all (\<lambda>(key, get). map get recs =
        map (\<lambda>(ep, fams). field_value c fams key) (scraped (vl_url_good c) (vl_replies c) (endpoints c))) vllm_getters"
proof -
  let ?sc = "scraped (vl_url_good c) (vl_replies c) (endpoints c)"
  have order: "distinct (map fst (order ep))" "set (order ep) = set vllm_fields" for ep
  proof -
    have "distinct (map fst vllm_fields)" by (simp add: vllm_fields_def)
    moreover have "mset (map fst (order ep)) = mset (map fst vllm_fields)" by (simp only: mset_map assms)
    ultimately show "distinct (map fst (order ep))" by (rule mset_eq_imp_distinct_iff [THEN iffD2, rotated])
    show "set (order ep) = set vllm_fields" by (rule mset_eq_setD) (rule assms)
  qed
  obtain c' where c': "vllm_collect order c = (Inr (map (scraped_record c order) ?sc), c')"
    using collect_endpoints_records [of order "endpoints c" "[]" c] by (auto simp: vllm_collect_def)
  have "vl_Endpoint (scraped_record c order ef) = fst ef" for ef
    by (simp add: scraped_record_def foldl_set_field_endpoint order zero_vllm_def)
  then have "map vl_Endpoint (map (scraped_record c order) ?sc) = map fst ?sc" by simp
  moreover have "get (scraped_record c order ef) = field_value c (snd ef) key"
    if g: "(key, get) \<in> set vllm_getters" for key get ef
  proof -
    have "key \<in> fst ` set vllm_fields" using vlt.getter_key [OF g] by (force dest: map_of_SomeD)
    moreover have "get (zero_vllm (fst ef)) = 0"
      using g by (auto simp: vllm_getters_def zero_vllm_def)
    ultimately show ?thesis
      using foldl_set_field [OF order(1) _ g, of "fst ef" "zero_vllm (fst ef)" c "snd ef"] order(2)
      by (simp add: scraped_record_def)
  qed
  then have "list_all (\<lambda>(key, get). map get (map (scraped_record c order) ?sc) =
        map (\<lambda>(ep, fams). field_value c fams key) ?sc) vllm_getters"
    by (auto simp: list_all_iff case_prod_beta)
  ultimately show ?thesis using c' by blast
qed

theorem vllm_collect_records_witness:
  "\<exists>recs c'. vllm_collect (\<lambda>_. rev vllm_fields)
      (new_vllm [''a'', ''b''] [(''running'', ''r'')] (\<lambda>_. True)
        [NoMetrics ErrNet, Metrics 200 (Inr [(''r'', [\<lparr>m_Gauge = Some (Some 5), m_Counter = None, m_Untyped = None\<rparr>])])])
      = (Inr recs, c') \<and> map vl_Endpoint recs = [''b''] \<and> map vl_Running recs = [5]"
proof -
  let ?c = "new_vllm [''a'', ''b''] [(''running'', ''r'')] (\<lambda>_. True)
        [NoMetrics ErrNet, Metrics 200 (Inr [(''r'', [\<lparr>m_Gauge = Some (Some 5), m_Counter = None, m_Untyped = None\<rparr>])])]"
  have "mset (rev vllm_fields) = mset vllm_fields" by simp
  from vllm_collect_records [OF this, of ?c] show ?thesis
    by (auto simp: new_vllm_def vllm_getters_def field_value_def configured_def metric_value_def get_value_def)
qed

end
