(* ===== verification/Json.thy ===== *)
theory Json
  imports GoStrings
begin

text \<open>
  The wire form of an envelope: what \<open>encoding/json\<close> makes of the records of
  \<open>pkg/model/records.go\<close>. A value is a \<open>json\<close> tree; \<open>json_marshal\<close> renders it as
  \<open>json.Marshal\<close> does (no white space, strings escaped for HTML, invalid UTF-8 replaced) and
  fails on a float that has no JSON form. A \<open>json.RawMessage\<close> is only ever filled by
  \<open>json.Marshal\<close> in this program, so an envelope's payload is a tree as well.

  The decimal form of a float64 and the RFC 3339 form of a time are parameters (\<open>codec\<close>).
\<close>

section \<open>Values\<close>

datatype json =
    JBool bool
  | JUint u64
  | JInt int
  | JFloat f64
  | JString string
  | JArray "json list"
  | JObject "(string \<times> json) list"

record codec =
  fmt_time :: "int \<Rightarrow> err + string"
  fmt_float :: "f64 \<Rightarrow> string"

section \<open>Strings\<close>

definition backslash :: char where
  "backslash = CHR 0x5C"

definition hex2 :: "nat \<Rightarrow> string" where
  "hex2 n = [digit_char (n div 16), digit_char (n mod 16)]"

text \<open>A byte below 128, as \<open>encoding/json\<close> writes it inside a string.\<close>

definition json_ascii :: "char \<Rightarrow> string" where
  "json_ascii c =
     (if c = backslash \<or> c = CHR 0x22 then [backslash, c]
      else if c = CHR 0x08 then [backslash, CHR ''b'']
      else if c = CHR 0x0C then [backslash, CHR ''f'']
      else if c = CHR 0x0A then [backslash, CHR ''n'']
      else if c = CHR 0x0D then [backslash, CHR ''r'']
      else if c = CHR 0x09 then [backslash, CHR ''t'']
      else if (of_char c :: nat) < 32 \<or> c = CHR ''<'' \<or> c = CHR ''>'' \<or> c = CHR ''&''
        then backslash # ''u00'' @ hex2 (of_char c)
      else [c])"

function json_chars :: "string \<Rightarrow> string" where
  "json_chars [] = []"
| "json_chars (c # s) =
     (if is_ascii c then json_ascii c @ json_chars s
      else (let (r, n) = decode_rune (c # s)
            in (if r = 65533 \<and> n = 1 then backslash # ''ufffd''
                else if r = 8232 \<or> r = 8233 then backslash # ''u202'' @ [digit_char (r mod 16)]
                else take n (c # s))
               @ json_chars (drop n (c # s))))"
  by pat_completeness auto
termination
  by (relation "measure length") (auto dest: decode_rune_drop [rotated])

definition json_string :: "string \<Rightarrow> string" where
  "json_string s = CHR 0x22 # json_chars s @ [CHR 0x22]"

section \<open>Rendering\<close>

definition finite_float :: "f64 \<Rightarrow> bool" where
  "finite_float f \<longleftrightarrow> (unat f div 2 ^ 52) mod 2 ^ 11 \<noteq> 2047"

fun json_ok :: "json \<Rightarrow> bool" where
  "json_ok (JFloat f) = finite_float f"
| "json_ok (JArray js) = (\<forall>j \<in> set js. json_ok j)"
| "json_ok (JObject kvs) = (\<forall>kv \<in> set kvs. json_ok (snd kv))"
| "json_ok _ = True"

fun json_render :: "codec \<Rightarrow> json \<Rightarrow> string" where
  "json_render c (JBool b) = (if b then ''true'' else ''false'')"
| "json_render c (JUint w) = format_uint (unat w)"
| "json_render c (JInt i) = itoa i"
| "json_render c (JFloat f) = fmt_float c f"
| "json_render c (JString s) = json_string s"
| "json_render c (JArray js) = ''['' @ join '','' (map (json_render c) js) @ '']''"
| "json_render c (JObject kvs) =
     ''{'' @ join '','' (map (\<lambda>kv. json_string (fst kv) @ '':'' @ json_render c (snd kv)) kvs) @ ''}''"

definition json_marshal :: "codec \<Rightarrow> json \<Rightarrow> err + string" where
  "json_marshal c j =
     (if json_ok j then Inr (json_render c j) else Inl (ErrInvalid ''unsupported value''))"

section \<open>Envelopes\<close>

record envelope =
  env_TS :: int
  env_Site :: string
  env_Host :: string
  env_Type :: string
  env_Schema :: int
  env_Payload :: json

definition envelope_fields :: "envelope \<Rightarrow> (string \<times> json) list" where
  "envelope_fields e =
     [(''site'', JString (env_Site e)), (''host'', JString (env_Host e)),
      (''type'', JString (env_Type e)), (''schema'', JInt (env_Schema e)),
      (''payload'', env_Payload e)]"

text \<open>\<open>json.Marshal\<close> of an envelope: its time first, as a string, then the other fields.\<close>

definition marshal_envelope :: "codec \<Rightarrow> envelope \<Rightarrow> err + string" where
  "marshal_envelope c e =
     bind_res (fmt_time c (env_TS e)) (\<lambda>ts.
       if json_ok (env_Payload e)
       then Inr (''{'' @ json_string ''ts'' @ '':'' @ CHR 0x22 # ts @ CHR 0x22 # '',''
                  @ join '','' (map (\<lambda>kv. json_string (fst kv) @ '':'' @ json_render c (snd kv))
                               (envelope_fields e)) @ ''}'')
       else Inl (ErrInvalid ''unsupported value''))"

section \<open>One record, one line\<close>

definition printable :: "string \<Rightarrow> bool" where
  "printable s \<longleftrightarrow> (\<forall>c \<in> set s. 32 \<le> (of_char c :: nat))"

definition codec_ok :: "codec \<Rightarrow> bool" where
  "codec_ok c \<longleftrightarrow> (\<forall>t s. fmt_time c t = Inr s \<longrightarrow> printable s) \<and> (\<forall>f. printable (fmt_float c f))"

lemma printable_simps [simp]:
  "printable []"
  "printable (c # s) \<longleftrightarrow> 32 \<le> (of_char c :: nat) \<and> printable s"
  "printable (s @ t) \<longleftrightarrow> printable s \<and> printable t"
  by (auto simp: printable_def)

lemma printable_join: "printable sep \<Longrightarrow> (\<And>x. x \<in> set xs \<Longrightarrow> printable x) \<Longrightarrow> printable (join sep xs)"
  by (induction sep xs rule: join.induct) auto

lemma printable_digit_char: "d < 36 \<Longrightarrow> 32 \<le> (of_char (digit_char d) :: nat)"
proof -
  assume "d < 36"
  have "\<forall>d \<in> set [0..<36]. 32 \<le> (of_char (digit_char d) :: nat)"
    by (simp add: digit_char_def upt_rec)
  with \<open>d < 36\<close> show ?thesis by simp
qed

lemma printable_json_ascii: "printable (json_ascii c)"
proof -
  have "(of_char c :: nat) < 256" by (metis of_char_mod_256 mod_less_divisor zero_less_numeral)
  then have "(of_char c :: nat) div 16 < 36" by (intro less_mult_imp_div_less) linarith
  moreover have "(of_char c :: nat) mod 16 < 36"
    by (rule less_trans [OF mod_less_divisor]) simp_all
  ultimately have "printable (hex2 (of_char c))" by (simp add: hex2_def printable_digit_char)
  then show ?thesis by (simp add: json_ascii_def backslash_def)
qed

lemma decode_rune_high:
  assumes "\<not> is_ascii c" and "decode_rune (c # s) = (r, n)" and "i < n"
  shows "128 \<le> byte_at (c # s) i"
proof -
  have b0: "128 \<le> byte_at (c # s) 0" using assms(1) by (simp add: byte_at_def is_ascii_def)
  have "i = 0 \<or> i = 1 \<or> i = 2 \<or> i = 3"
    using assms(2,3) by (auto simp: decode_rune_def Let_def split: if_splits)
  then show ?thesis
    using assms(2,3) b0 by (auto simp: decode_rune_def Let_def is_cont_def split: if_splits)
qed

lemma printable_rune:
  assumes "\<not> is_ascii c" and "decode_rune (c # s) = (r, n)"
  shows "printable (take n (c # s))"
  unfolding printable_def
proof
  fix x
  assume "x \<in> set (take n (c # s))"
  then obtain i where i: "i < n" "i < length (c # s)" "x = (c # s) ! i"
    by (auto simp: in_set_conv_nth simp del: take_Cons' take_Suc_Cons)
  with decode_rune_high [OF assms i(1)] show "32 \<le> (of_char x :: nat)"
    by (simp add: byte_at_def)
qed

lemma printable_json_chars: "printable (json_chars s)"
proof (induction s rule: json_chars.induct)
  case (2 c s)
  obtain r n where d: "decode_rune (c # s) = (r, n)" by fastforce
  have dig: "32 \<le> (of_char (digit_char (r mod 16)) :: nat)"
    by (rule printable_digit_char) simp
  show ?case
  proof (cases "is_ascii c")
    case True
    then show ?thesis using 2 by (simp add: printable_json_ascii)
  next
    case False
    with 2(2) [OF False d [symmetric] refl] printable_rune [OF False d] dig d show ?thesis
      by (simp add: backslash_def)
  qed
qed simp

lemma printable_json_string: "printable (json_string s)"
  by (simp add: json_string_def printable_json_chars)

lemma printable_format_uint: "printable (format_uint n)"
proof -
  have "32 \<le> (of_char x :: nat)" if "digit_val x \<noteq> None" for x
    using that by (auto simp: digit_val_def Let_def split: if_splits)
  then show ?thesis unfolding printable_def using format_uint_chars by blast
qed

lemma printable_json_render:
  assumes "codec_ok c"
  shows "printable (json_render c j)"
proof (induction j)
  case (JFloat f)
  then show ?case using assms by (simp add: codec_ok_def)
next
  case (JArray js)
  then show ?case by (auto intro!: printable_join)
next
  case (JObject kvs)
  then show ?case 
    by (auto intro!: printable_join simp: printable_json_string)
qed (simp_all add: printable_format_uint itoa_def printable_json_string)

lemma marshal_envelope_printable:
  assumes "codec_ok c" and "marshal_envelope c e = Inr b"
  shows "printable b"
proof -
  from assms(2) obtain ts where ts: "fmt_time c (env_TS e) = Inr ts"
    and b: "b = ''{'' @ json_string ''ts'' @ '':'' @ CHR 0x22 # ts @ CHR 0x22 # '',''
                  @ join '','' (map (\<lambda>kv. json_string (fst kv) @ '':'' @ json_render c (snd kv))
                               (envelope_fields e)) @ ''}''"
    by (auto simp: marshal_envelope_def bind_res_eq_Inr split: if_splits)
  have "printable ts" using assms(1) ts by (simp add: codec_ok_def)
  moreover have "printable (join '','' (map (\<lambda>kv. json_string (fst kv) @ '':'' @ json_render c (snd kv))
      (envelope_fields e)))"
    by (rule printable_join) (auto simp: printable_json_string printable_json_render [OF assms(1)])
  ultimately show ?thesis by (simp add: b printable_json_string)
qed

lemma printable_no_newline: "printable s \<Longrightarrow> newline \<notin> set s"
  by (auto simp: printable_def newline_def)

end
