(* ===== verification/GoFmt.thy ===== *)
theory GoFmt
  imports GoFloat Json
begin

text \<open>
  The verbs of \<open>fmt\<close> and the functions of \<open>strings\<close> and \<open>strconv\<close> with which the program prints for
  people: \<open>%f\<close> with a precision, \<open>%q\<close>, \<open>TrimRight\<close>. A float64 is its bit pattern.
\<close>

section \<open>Fixed-point numbers\<close>

text \<open>Sign, mantissa and exponent: the value is the mantissa times two to the exponent.\<close>

definition f64_neg :: "f64 \<Rightarrow> bool" where
  "f64_neg x \<longleftrightarrow> 2 ^ 63 \<le> unat x"

definition f64_exp_field :: "f64 \<Rightarrow> nat" where
  "f64_exp_field x = unat x div 2 ^ 52 mod 2048"

definition f64_fraction :: "f64 \<Rightarrow> nat" where
  "f64_fraction x = unat x mod 2 ^ 52"

definition f64_mant :: "f64 \<Rightarrow> nat" where
  "f64_mant x = (if f64_exp_field x = 0 then f64_fraction x else 2 ^ 52 + f64_fraction x)"

definition f64_exp :: "f64 \<Rightarrow> int" where
  "f64_exp x = int (max 1 (f64_exp_field x)) - 1075"

text \<open>The quotient rounded to the nearest natural number, ties to even.\<close>

definition div_round :: "nat \<Rightarrow> nat \<Rightarrow> nat" where
  "div_round a b =
     (let q = a div b; r = a mod b
      in if b < 2 * r \<or> b = 2 * r \<and> odd q then q + 1 else q)"

definition fixed_value :: "nat \<Rightarrow> nat \<Rightarrow> int \<Rightarrow> nat" where
  "fixed_value prec m e =
     (if 0 \<le> e then m * 2 ^ nat e * 10 ^ prec else div_round (m * 10 ^ prec) (2 ^ nat (- e)))"

definition zero_pad :: "nat \<Rightarrow> string \<Rightarrow> string" where
  "zero_pad k s = replicate (k - length s) CHR ''0'' @ s"

definition fixed_digits :: "nat \<Rightarrow> nat \<Rightarrow> string" where
  "fixed_digits prec n =
     format_uint (n div 10 ^ prec) @ ''.'' @ zero_pad prec (format_uint (n mod 10 ^ prec))"

text \<open>\<open>Sprintf("%.<prec>f", x)\<close> for a precision that is not zero.\<close>

definition sprintf_f :: "nat \<Rightarrow> f64 \<Rightarrow> string" where
  "sprintf_f prec x =
     (if f64_exp_field x = 2047 then
        (if f64_fraction x \<noteq> 0 then ''NaN'' else if f64_neg x then ''-Inf'' else ''+Inf'')
      else (if f64_neg x then ''-'' else []) @ fixed_digits prec (fixed_value prec (f64_mant x) (f64_exp x)))"

definition trim_right_char :: "char \<Rightarrow> string \<Rightarrow> string" where
  "trim_right_char c s = rev (dropWhile (\<lambda>x. x = c) (rev s))"

section \<open>Quoted strings\<close>

definition hex_pad :: "nat \<Rightarrow> nat \<Rightarrow> string" where
  "hex_pad k n = zero_pad k (format_base 16 n)"

text \<open>
  \<open>strconv.Quote\<close>. \<open>is_print r\<close> is the table of \<open>strconv.IsPrint\<close> above ASCII. A byte that is no UTF-8
  and a control character are written in hexadecimal, other runes that do not print as \<open>u\<close> or \<open>U\<close>.
\<close>

definition quote_ascii :: "char \<Rightarrow> string" where
  "quote_ascii c =
     (if c = CHR 0x22 \<or> c = backslash then [backslash, c]
      else if 32 \<le> (of_char c :: nat) \<and> (of_char c :: nat) < 127 then [c]
      else if c = CHR 0x07 then [backslash, CHR ''a'']
      else if c = CHR 0x08 then [backslash, CHR ''b'']
      else if c = CHR 0x0C then [backslash, CHR ''f'']
      else if c = CHR 0x0A then [backslash, CHR ''n'']
      else if c = CHR 0x0D then [backslash, CHR ''r'']
      else if c = CHR 0x09 then [backslash, CHR ''t'']
      else if c = CHR 0x0B then [backslash, CHR ''v'']
      else backslash # ''x'' @ hex2 (of_char c))"

function quote_chars :: "(nat \<Rightarrow> bool) \<Rightarrow> string \<Rightarrow> string" where
  "quote_chars is_print [] = []"
| "quote_chars is_print (c # s) =
     (if is_ascii c then quote_ascii c @ quote_chars is_print s
      else case decode_rune (c # s) of (r, n) \<Rightarrow>
        (if n = 1 \<and> r = 65533 then (backslash # ''x'' @ hex2 (of_char c)) @ quote_chars is_print s
         else (if is_print r then take n (c # s)
               else if r < 65536 then backslash # ''u'' @ hex_pad 4 r
               else backslash # ''U'' @ hex_pad 8 r)
              @ quote_chars is_print (drop n (c # s))))"
  by pat_completeness auto
termination
  by (relation "measure (\<lambda>(p, s). length s)") (auto dest: decode_rune_drop [rotated])

declare quote_chars.simps(2) [simp del]

definition sprintf_q :: "(nat \<Rightarrow> bool) \<Rightarrow> string \<Rightarrow> string" where
  "sprintf_q is_print s = CHR 0x22 # quote_chars is_print s @ [CHR 0x22]"

end
