(* ===== verification/VllmDump.thy ===== *)
theory VllmDump
  imports Vllm GoFmt
begin

text \<open>
  \<open>cmd/memauditd/vllm_dump.go\<close>: every metric a vLLM endpoint exposes, one line per sample, and
  \<open>cmd/memaudit-synth/format.go\<close>, the other place that prints floating point numbers. A map of
  families is an association list with distinct names in some order.
\<close>

section \<open>Lines\<close>

text \<open>A \<open>dto.Metric\<close> with its labels, and count and sum of a histogram or a summary.\<close>

record dump_metric = metric +
  m_Labels :: "(string \<times> string) list"
  m_Histogram :: "(u64 \<times> f64) option"
  m_Summary :: "(u64 \<times> f64) option"

type_synonym dump_families = "(string \<times> dump_metric list) list"

definition format_float :: "f64 \<Rightarrow> string" where
  "format_float x = trim_right_char CHR ''.'' (trim_right_char CHR ''0'' (sprintf_f 6 x))"

definition format_sum :: "string \<Rightarrow> u64 \<times> f64 \<Rightarrow> string" where
  "format_sum kind cs =
     ''('' @ kind @ '', sample_count='' @ format_uint (unat (fst cs)) @ '' sample_sum='' @ format_float (snd cs) @ '')''"

definition format_value :: "dump_metric \<Rightarrow> string" where
  "format_value m =
     (case m_Gauge m of
        Some g \<Rightarrow> format_float (get_value g)
      | None \<Rightarrow>
     (case m_Counter m of
        Some c \<Rightarrow> format_float (get_value c)
      | None \<Rightarrow>
     (case m_Untyped m of
        Some u \<Rightarrow> format_float (get_value u)
      | None \<Rightarrow>
     (case m_Histogram m of
        Some h \<Rightarrow> format_sum ''histogram'' h
      | None \<Rightarrow>
     (case m_Summary m of
        Some s \<Rightarrow> format_sum ''summary'' s
      | None \<Rightarrow> ''(no value)'')))))"

definition format_labels :: "(nat \<Rightarrow> bool) \<Rightarrow> (string \<times> string) list \<Rightarrow> string" where
  "format_labels is_print labels =
     (if labels = [] then []
      else ''{'' @ join '','' (map (\<lambda>(n, v). n @ ''='' @ sprintf_q is_print v) labels) @ ''}'')"

definition metric_line :: "(nat \<Rightarrow> bool) \<Rightarrow> string \<Rightarrow> dump_metric \<Rightarrow> string" where
  "metric_line is_print name m =
     name @ format_labels is_print (m_Labels m) @ '' '' @ format_value m @ [newline]"

definition format_metrics :: "(nat \<Rightarrow> bool) \<Rightarrow> dump_families \<Rightarrow> string" where
  "format_metrics is_print fams =
     concat (map (\<lambda>name. concat (map (metric_line is_print name)
         (case map_of fams name of None \<Rightarrow> [] | Some ms \<Rightarrow> ms)))
       (sort (map fst fams)))"

text \<open>\<open>vllmDumpCmd\<close>: the exit status and what it prints, for a scrape that answers \<open>scrape endpoint\<close>.\<close>

definition vllm_dump_cmd ::
  "(nat \<Rightarrow> bool) \<Rightarrow> (string \<Rightarrow> err + dump_families) \<Rightarrow> string \<Rightarrow> nat \<times> string" where
  "vllm_dump_cmd is_print scrape endpoint =
     (if endpoint = [] then (2, [])
      else case scrape endpoint of
        Inl e \<Rightarrow> (1, [])
      | Inr fams \<Rightarrow> (0, format_metrics is_print fams))"

section \<open>Bytes\<close>

text \<open>
  \<open>float64(b)\<close> as mantissa and exponent: exact below 2 to the 53, rounded to 53 bits above.
\<close>

definition float_of_u64 :: "u64 \<Rightarrow> nat \<times> int" where
  "float_of_u64 b =
     (let k = bit_length (unat b) - 53 in (div_round (unat b) (2 ^ k), int k))"

text \<open>\<open>formatBytes\<close>; the division by one GiB only changes the exponent.\<close>

definition format_bytes :: "u64 \<Rightarrow> string" where
  "format_bytes b =
     (case float_of_u64 b of (m, e) \<Rightarrow> fixed_digits 2 (fixed_value 2 m (e - 30)) @ ''GiB'')"

section \<open>What is printed\<close>

lemma div_round_near: "0 < b \<Longrightarrow> 2 * (div_round a b * b) \<le> 2 * a + b \<and> 2 * a \<le> 2 * (div_round a b * b) + b"
proof -
  assume b: "0 < b"
  define p where p: "p = a div b * b"
  let ?up = "b < 2 * (a mod b) \<or> b = 2 * (a mod b) \<and> odd (a div b)"
  have a: "a = p + a mod b" "a mod b < b" using b by (simp_all add: p)
  have d: "div_round a b * b = (if ?up then p + b else p)" unfolding div_round_def Let_def p by simp
  show ?thesis
  proof (cases ?up)
    case True
    then have "b \<le> 2 * (a mod b)" by linarith
    moreover have "div_round a b * b = p + b" using d True by (simp only: if_True)
    ultimately show ?thesis using a by linarith
  next
    case False
    then have "2 * (a mod b) \<le> b" by linarith
    moreover have "div_round a b * b = p" using d False by (simp only: if_False)
    ultimately show ?thesis using a by linarith
  qed
qed

text \<open>Trimming.\<close>

lemma trim_char_snoc: "trim_right_char c (s @ [x]) = (if x = c then trim_right_char c s else s @ [x])"
  by (simp add: trim_right_char_def)

lemma trim_right_ends: "s = [] \<or> last s \<noteq> c \<Longrightarrow> trim_right_char c s = s"
  by (cases s rule: rev_cases) (auto simp: trim_char_snoc trim_right_char_def)

lemma trim_right_shape: "\<exists>k. s = trim_right_char c s @ replicate k c
    \<and> (trim_right_char c s = [] \<or> last (trim_right_char c s) \<noteq> c)"
proof (induction s rule: rev_induct)
  case (snoc x s)
  then obtain k where k: "s = trim_right_char c s @ replicate k c"
    "trim_right_char c s = [] \<or> last (trim_right_char c s) \<noteq> c" by blast
  show ?case
  proof (cases "x = c")
    case True
    have "s @ [x] = trim_right_char c s @ (replicate k c @ [c])"
      using arg_cong [OF k(1), of "\<lambda>t. t @ [c]"] True by simp
    then have "s @ [x] = trim_right_char c s @ replicate (Suc k) c"
      by (simp only: replicate_append_same replicate_Suc)
    moreover have "trim_right_char c (s @ [x]) = trim_right_char c s" using True by (simp add: trim_char_snoc)
    ultimately show ?thesis using k(2) by metis
  next
    case False
    then show ?thesis by (intro exI [of _ 0]) (simp add: trim_char_snoc)
  qed
qed (simp add: trim_right_char_def)

lemma trim_right_after: "x \<noteq> c \<Longrightarrow> trim_right_char c (p @ x # s) = p @ x # trim_right_char c s"
proof (induction s rule: rev_induct)
  case (snoc y s)
  have "p @ x # s @ [y] = (p @ x # s) @ [y]" by simp
  then show ?case using snoc trim_char_snoc [of c "p @ x # s" y] by (simp add: trim_char_snoc)
qed (simp add: trim_right_ends)

text \<open>The six decimals, and what is left of them.\<close>

lemma zero_pad_facts:
  assumes "length s \<le> k" and "digits_ok 10 s"
  shows "length (zero_pad k s) = k" "digits_ok 10 (zero_pad k s)"
    "digits_value 10 n (zero_pad k s) = n * 10 ^ k + digits_value 10 0 s"
  using assms
  by (simp_all add: zero_pad_def digits_ok_zeros digits_value_zeros_from digits_value_shift [of 10 "n * _"]
      power_add [symmetric])

lemma format_fixed:
  "\<exists>ds. trim_right_char CHR ''.'' (trim_right_char CHR ''0'' (p @ fixed_digits 6 v)) =
      p @ format_uint (v div 10 ^ 6) @ (if ds = [] then [] else CHR ''.'' # ds)
    \<and> digits_ok 10 ds \<and> length ds \<le> 6 \<and> (ds = [] \<or> last ds \<noteq> CHR ''0'')
    \<and> digits_value 10 (v div 10 ^ 6) (ds @ replicate (6 - length ds) CHR ''0'') = v"
proof -
  let ?f = "format_uint (v mod 10 ^ 6)" and ?q = "p @ format_uint (v div 10 ^ 6)"
  let ?z = "zero_pad 6 ?f"
  have f: "length ?f \<le> 6" "digits_ok 10 ?f"
    using length_format_base [of 10 "v mod 10 ^ 6" 5] digits_format_base [of 10 "v mod 10 ^ 6"]
    by (simp_all add: format_uint_def)
  note z = zero_pad_facts [OF f]
  define ds where "ds = trim_right_char CHR ''0'' ?z"
  obtain k where k: "?z = ds @ replicate k CHR ''0''" and l: "ds = [] \<or> last ds \<noteq> CHR ''0''"
    using trim_right_shape [of ?z "CHR ''0''"] unfolding ds_def by blast
  have len: "length ds + k = 6" using z(1) k by (metis length_append length_replicate)
  have ok: "digits_ok 10 ds" using z(2) k by (metis digits_ok_simps(3))
  have "digits_value 10 (v div 10 ^ 6) ?z = v"
    using z(3) [of "v div 10 ^ 6"] by (simp add: digits_value_format_uint)
  then have val: "digits_value 10 (v div 10 ^ 6) (ds @ replicate (6 - length ds) CHR ''0'') = v"
    using k len by (metis add_diff_cancel_left')
  have one: "trim_right_char CHR ''0'' (?q @ CHR ''.'' # ?z) = ?q @ CHR ''.'' # ds"
    unfolding ds_def by (rule trim_right_after) simp
  have dot: "CHR ''.'' \<notin> set s" if "digits_ok 10 s" for s
    using digits_ok_chars [OF that, of "CHR ''.''"] by (auto simp: digit_val_def)
  have two: "trim_right_char CHR ''.'' (?q @ CHR ''.'' # ds) = ?q @ (if ds = [] then [] else CHR ''.'' # ds)"
  proof (cases "ds = []")
    case True
    let ?u = "format_uint (v div 10 ^ 6)"
    have "CHR ''.'' \<notin> set ?u"
      by (rule dot) (use digits_format_base [of 10 "v div 10 ^ 6"] in \<open>simp add: format_uint_def\<close>)
    moreover have "last ?u \<in> set ?u" by (rule last_in_set) simp
    ultimately have "last ?u \<noteq> CHR ''.''" by metis
    then have "last ?q \<noteq> CHR ''.''" by simp
    then show ?thesis using True trim_char_snoc [of "CHR ''.''" ?q "CHR ''.''"] trim_right_ends [of ?q] by simp
  next
    case False
    then have "last (?q @ CHR ''.'' # ds) \<noteq> CHR ''.''" using dot [OF ok] by (metis last_appendR last_ConsR last_in_set list.discI)
    then show ?thesis using False trim_right_ends by auto
  qed
  have "p @ fixed_digits 6 v = ?q @ CHR ''.'' # ?z" by (simp add: fixed_digits_def)
  then have "trim_right_char CHR ''.'' (trim_right_char CHR ''0'' (p @ fixed_digits 6 v)) =
      p @ format_uint (v div 10 ^ 6) @ (if ds = [] then [] else CHR ''.'' # ds)"
    using one two by simp
  with ok len l val show ?thesis by (intro exI [of _ ds]) auto
qed

lemma fixed_value_near:
  "if 0 \<le> e then fixed_value k m e = m * 2 ^ nat e * 10 ^ k
   else 2 * (fixed_value k m e * 2 ^ nat (- e)) \<le> 2 * (m * 10 ^ k) + 2 ^ nat (- e)
      \<and> 2 * (m * 10 ^ k) \<le> 2 * (fixed_value k m e * 2 ^ nat (- e)) + 2 ^ nat (- e)"
  using div_round_near [of "2 ^ nat (- e)" "m * 10 ^ k"] by (simp add: fixed_value_def)

text \<open>
  For a finite float64, \<open>formatFloat\<close> prints an optional sign, the whole part, and at most six
  decimals of which the last is not zero; no point is printed when no decimal is. Read back, in
  millionths, the digits are the value itself when it is a whole number of the form mantissa times a
  power of two, and otherwise within half a millionth of it.
\<close>

theorem format_float_rounds:
  assumes "f64_exp_field x \<noteq> 2047"
  shows "\<exists>ip ds n.
      format_float x = (if f64_neg x then ''-'' else []) @ format_uint ip @ (if ds = [] then [] else CHR ''.'' # ds)
    \<and> digits_ok 10 ds \<and> length ds \<le> 6 \<and> (ds = [] \<or> last ds \<noteq> CHR ''0'')
    \<and> n = digits_value 10 ip (ds @ replicate (6 - length ds) CHR ''0'')
    \<and> (if 0 \<le> f64_exp x then n = f64_mant x * 2 ^ nat (f64_exp x) * 10 ^ 6
       else 2 * (n * 2 ^ nat (- f64_exp x)) \<le> 2 * (f64_mant x * 10 ^ 6) + 2 ^ nat (- f64_exp x)
          \<and> 2 * (f64_mant x * 10 ^ 6) \<le> 2 * (n * 2 ^ nat (- f64_exp x)) + 2 ^ nat (- f64_exp x))"
proof -
  let ?v = "fixed_value 6 (f64_mant x) (f64_exp x)" and ?p = "if f64_neg x then ''-'' else []"
  have "format_float x = trim_right_char CHR ''.'' (trim_right_char CHR ''0'' (?p @ fixed_digits 6 ?v))"
    using assms by (simp add: format_float_def sprintf_f_def)
  with format_fixed [of ?p ?v] fixed_value_near [of "f64_exp x" 6 "f64_mant x"] show ?thesis
    by (intro exI [of _ "?v div 10 ^ 6"]) metis
qed

theorem format_float_rounds_witness:
  "\<exists>ip ds n. format_float 4609434218613702656 = format_uint ip @ (if ds = [] then [] else CHR ''.'' # ds)
    \<and> digits_ok 10 ds \<and> length ds \<le> 6 \<and> (ds = [] \<or> last ds \<noteq> CHR ''0'')
    \<and> n = digits_value 10 ip (ds @ replicate (6 - length ds) CHR ''0'')
    \<and> 2 * (n * 2 ^ 52) \<le> 2 * (6755399441055744 * 10 ^ 6) + 2 ^ 52
    \<and> 2 * (6755399441055744 * 10 ^ 6) \<le> 2 * (n * 2 ^ 52) + (2 ^ 52 :: nat)"
proof -
  let ?x = "4609434218613702656 :: f64"
  have x: "f64_exp_field ?x = 1023" "f64_neg ?x = False" "f64_mant ?x = 6755399441055744" "f64_exp ?x = - 52"
    by (simp_all add: f64_exp_field_def f64_neg_def f64_mant_def f64_fraction_def f64_exp_def)
  have e: "(0 \<le> (- 52 :: int)) = False" "nat (- (- 52)) = 52" by simp_all
  have "f64_exp_field ?x \<noteq> 2047" using x by simp
  from format_float_rounds [OF this, unfolded x e if_False append_Nil] show ?thesis .
qed

section \<open>One line per sample\<close>

lemma printable_digits: "digits_ok b s \<Longrightarrow> printable s"
  unfolding printable_def
proof
  fix x assume "digits_ok b s" "x \<in> set s"
  then have "digit_val x \<noteq> None" by (rule digits_ok_chars)
  then show "32 \<le> (of_char x :: nat)" by (auto simp: digit_val_def Let_def split: if_splits)
qed

lemma printable_zero_pad: "printable s \<Longrightarrow> printable (zero_pad k s)"
  by (auto simp: zero_pad_def printable_def)

lemma printable_hex_pad: "printable (hex_pad k n)"
  unfolding hex_pad_def
  by (intro printable_zero_pad printable_digits [of 16]) (use digits_format_base [of 16 n] in simp)

lemma printable_hex2: "printable (hex2 (of_char c))"
proof -
  have "(of_char c :: nat) < 256" by (metis of_char_mod_256 mod_less_divisor zero_less_numeral)
  then have "(of_char c :: nat) div 16 < 36" by (intro less_mult_imp_div_less) linarith
  moreover have "(of_char c :: nat) mod 16 < 36" by (rule less_trans [OF mod_less_divisor]) simp_all
  ultimately show ?thesis by (simp add: hex2_def printable_digit_char)
qed

lemma printable_quote_ascii: "printable (quote_ascii c)"
  by (simp add: quote_ascii_def backslash_def printable_hex2)

lemma printable_quote_chars: "printable (quote_chars p s)"
proof (induction p s rule: quote_chars.induct)
  case (2 p c s)
  obtain r n where d: "decode_rune (c # s) = (r, n)" by fastforce
  show ?case
  proof (cases "is_ascii c")
    case True
    then show ?thesis using 2 by (simp add: quote_chars.simps(2) printable_quote_ascii)
  next
    case False
    note IH = 2(2) [OF False d [symmetric]] 2(3) [OF False d [symmetric]]
    show ?thesis
      using False IH printable_rune [OF False d]
      by (simp add: quote_chars.simps(2) d backslash_def printable_hex_pad printable_hex2)
  qed
qed simp

lemma printable_sprintf_q: "printable (sprintf_q p s)"
  by (simp add: sprintf_q_def printable_quote_chars)

lemma printable_trim_right: "printable s \<Longrightarrow> printable (trim_right_char c s)"
  using trim_right_shape [of s c] by (metis printable_simps(3))

lemma printable_format_float: "printable (format_float x)"
  by (simp add: format_float_def sprintf_f_def fixed_digits_def printable_trim_right printable_format_uint
      printable_zero_pad)

lemma printable_format_value: "printable (format_value m)"
  by (auto simp: format_value_def format_sum_def printable_format_float printable_format_uint split: option.splits)

lemma printable_format_labels:
  "list_all (\<lambda>l. printable (fst l)) ls \<Longrightarrow> printable (format_labels p ls)"
  by (fastforce simp: format_labels_def list_all_iff printable_sprintf_q intro!: printable_join)

definition sample_line :: "(nat \<Rightarrow> bool) \<Rightarrow> string \<Rightarrow> dump_metric \<Rightarrow> string" where
  "sample_line is_print name m = name @ format_labels is_print (m_Labels m) @ '' '' @ format_value m"

definition named_printable :: "string \<times> dump_metric list \<Rightarrow> bool" where
  "named_printable fam \<longleftrightarrow> printable (fst fam)
     \<and> list_all (\<lambda>m. list_all (\<lambda>l. printable (fst l)) (m_Labels m)) (snd fam)"

lemma sorted_names:
  assumes "distinct (map fst fams)" and "mset fams' = mset fams"
  shows "sort (map fst fams') = map fst (sort_key fst fams)"
  using assms by (intro properties_for_sort) (simp_all add: mset_map)

lemma unlines_concat: "concat (map (\<lambda>l. l @ [newline]) (concat lss)) = concat (map unlines lss)"
  by (induction lss) (simp_all add: unlines_def)

text \<open>
  The dump does not depend on the order in which Go iterates the families, which it prints by
  name: one line for each sample, in the order of the families' names and, in a family, of the
  scrape. When the names the endpoint uses are printable, so is every line, whatever bytes the label
  values hold: a value cannot break a line or forge one.
\<close>

theorem format_metrics_lines:
  assumes "distinct (map fst fams)" and "mset fams' = mset fams" and "list_all named_printable fams"
  shows "format_metrics p fams' =
      unlines (concat (map (\<lambda>(n, ms). map (sample_line p n) ms) (sort_key fst fams)))
    \<and> list_all printable (concat (map (\<lambda>(n, ms). map (sample_line p n) ms) (sort_key fst fams)))"
proof
  have set_eq: "set fams' = set fams" using assms(2) by (metis set_mset_mset)
  have "distinct (map fst fams')"
    using assms(1,2) by (metis mset_eq_imp_distinct_iff mset_map)
  then have look: "map_of fams' n = Some ms" if "(n, ms) \<in> set fams" for n ms
    using that set_eq by simp
  have "format_metrics p fams' = concat (map (\<lambda>name. concat (map (metric_line p name)
      (case map_of fams' name of None \<Rightarrow> [] | Some ms \<Rightarrow> ms))) (map fst (sort_key fst fams)))"
    by (simp add: format_metrics_def sorted_names [OF assms(1,2)])
  also have "\<dots> = concat (map unlines (map (\<lambda>(n, ms). map (sample_line p n) ms) (sort_key fst fams)))"
    by (auto simp: look metric_line_def sample_line_def unlines_def o_def intro!: arg_cong [where f = concat])
  finally show "format_metrics p fams' =
      unlines (concat (map (\<lambda>(n, ms). map (sample_line p n) ms) (sort_key fst fams)))"
    by (simp add: unlines_concat unlines_def)
next
  show "list_all printable (concat (map (\<lambda>(n, ms). map (sample_line p n) ms) (sort_key fst fams)))"
    using assms(3)
    by (fastforce simp: list_all_iff named_printable_def sample_line_def printable_format_value
        intro!: printable_format_labels)
qed

definition plain_gauge :: "(string \<times> string) list \<Rightarrow> dump_metric" where
  "plain_gauge labels =
     \<lparr>m_Gauge = Some (Some 0), m_Counter = None, m_Untyped = None, m_Labels = labels,
      m_Histogram = None, m_Summary = None\<rparr>"

theorem format_metrics_lines_witness:
  "format_metrics (\<lambda>_. True) [(''b'', []), (''a'', [plain_gauge [(''l'', [newline])]])] =
     unlines [sample_line (\<lambda>_. True) ''a'' (plain_gauge [(''l'', [newline])])]
   \<and> printable (sample_line (\<lambda>_. True) ''a'' (plain_gauge [(''l'', [newline])]))"
proof -
  let ?fams = "[(''a'', [plain_gauge [(''l'', [newline])]]), (''b'', [])]"
  let ?fams' = "[(''b'', []), (''a'', [plain_gauge [(''l'', [newline])]])]"
  have h: "distinct (map fst ?fams)" "mset ?fams' = mset ?fams" "list_all named_printable ?fams"
    by (simp_all add: named_printable_def plain_gauge_def)
  have "sort_key fst ?fams = ?fams" by (simp add: sort_key_def insort_key.simps)
  with format_metrics_lines [OF h, of "\<lambda>_. True"] show ?thesis by simp
qed

end
