(* ===== verification/DamonHist.thy ===== *)
theory DamonHist
  imports Prelude
begin

text \<open>
  The cold-page histogram (\<open>internal/collector/damon.go\<close>) over the regions a DAMON snapshot
  returns (\<open>pkg/damon/regions.go\<close>): the record type, the bucketing loop on 64-bit words, and
  its comparison with sums of natural numbers. The record fields are \<open>model.DamonHist\<close>'s.
\<close>

section \<open>Regions and histograms\<close>

text \<open>A half-open range \<open>[r_start, r_end)\<close> with its access count and its age.\<close>

record region =
  r_start :: u64
  r_end :: u64
  nr_accesses :: u32
  r_age :: u32

record damon_hist =
  monitored_bytes :: u64
  hot_bytes :: u64
  cold_60s :: u64
  cold_300s :: u64
  cold_1h :: u64
  cold_6h :: u64
  cold_24h :: u64

definition cold_thresholds_us :: "u64 list" where
  "cold_thresholds_us =
     [60 * 1000000, 300 * 1000000, 3600 * 1000000, 6 * 3600 * 1000000, 24 * 3600 * 1000000]"

section \<open>The bucketing loop\<close>

text \<open>
  One iteration of \<open>bucketRegions\<close>: the loop state is \<open>hist.MonitoredBytes\<close> and the array
  \<open>cold\<close>. All arithmetic is that of uint64.
\<close>

definition bucket_region :: "u64 \<Rightarrow> u64 \<times> u64 list \<Rightarrow> region \<Rightarrow> u64 \<times> u64 list" where
  "bucket_region aggr_us st r =
     (let (monitored, cold) = st;
          sz = r_end r - r_start r;
          monitored' = monitored + sz
      in if 0 < nr_accesses r then (monitored', cold)
         else let age_us = ucast (r_age r) * aggr_us
              in (monitored',
                  map2 (\<lambda>threshold c. if threshold \<le> age_us then c + sz else c)
                    cold_thresholds_us cold))"

definition bucket_regions :: "region list \<Rightarrow> u64 \<Rightarrow> damon_hist" where
  "bucket_regions regions aggr_us =
     (let (monitored, cold) = foldl (bucket_region aggr_us) (0, replicate 5 0) regions
      in \<lparr>monitored_bytes = monitored,
          hot_bytes = monitored - cold ! 0,
          cold_60s = cold ! 0, cold_300s = cold ! 1, cold_1h = cold ! 2,
          cold_6h = cold ! 3, cold_24h = cold ! 4\<rparr>)"

section \<open>The loop computes word sums\<close>

definition region_size :: "region \<Rightarrow> u64" where
  "region_size r = r_end r - r_start r"

definition cold_at :: "u64 \<Rightarrow> u64 \<Rightarrow> region \<Rightarrow> bool" where
  "cold_at aggr_us threshold r \<longleftrightarrow> nr_accesses r = 0 \<and> threshold \<le> ucast (r_age r) * aggr_us"

definition word_sum :: "(region \<Rightarrow> bool) \<Rightarrow> region list \<Rightarrow> u64" where
  "word_sum P rs = (\<Sum>r \<leftarrow> filter P rs. region_size r)"

definition nat_sum :: "(region \<Rightarrow> bool) \<Rightarrow> region list \<Rightarrow> nat" where
  "nat_sum P rs = (\<Sum>r \<leftarrow> filter P rs. unat (region_size r))"

lemma word_sum_snoc:
  "word_sum P (rs @ [r]) = word_sum P rs + (if P r then region_size r else 0)"
  by (simp add: word_sum_def)

lemma bucket_region_word_sum:
  "bucket_region aggr
     (word_sum (\<lambda>_. True) rs, map (\<lambda>t. word_sum (cold_at aggr t) rs) cold_thresholds_us) r =
   (word_sum (\<lambda>_. True) (rs @ [r]),
      map (\<lambda>t. word_sum (cold_at aggr t) (rs @ [r])) cold_thresholds_us)"
proof -
  have step: "map2 (\<lambda>t c. if t \<le> a then c + sz else c) ts (map f ts) =
      map (\<lambda>t. if t \<le> a then f t + sz else f t) ts"
    for a sz :: u64 and ts and f :: "u64 \<Rightarrow> u64"
    by (induction ts) simp_all
  show ?thesis
    by (cases "nr_accesses r = 0")
      (simp_all add: bucket_region_def Let_def step word_sum_snoc cold_at_def region_size_def
        word_gt_0)
qed

lemma foldl_bucket_region:
  "foldl (bucket_region aggr) (0, replicate 5 0) rs =
     (word_sum (\<lambda>_. True) rs, map (\<lambda>t. word_sum (cold_at aggr t) rs) cold_thresholds_us)"
  by (induction rs rule: rev_induct)
    (simp_all add: bucket_region_word_sum,
      simp add: word_sum_def cold_thresholds_us_def numeral_eq_Suc)

lemma bucket_regions_word_sum:
  "bucket_regions rs aggr =
     \<lparr>monitored_bytes = word_sum (\<lambda>_. True) rs,
      hot_bytes = word_sum (\<lambda>_. True) rs - word_sum (cold_at aggr (60 * 1000000)) rs,
      cold_60s = word_sum (cold_at aggr (60 * 1000000)) rs,
      cold_300s = word_sum (cold_at aggr (300 * 1000000)) rs,
      cold_1h = word_sum (cold_at aggr (3600 * 1000000)) rs,
      cold_6h = word_sum (cold_at aggr (6 * 3600 * 1000000)) rs,
      cold_24h = word_sum (cold_at aggr (24 * 3600 * 1000000)) rs\<rparr>"
  by (simp add: bucket_regions_def foldl_bucket_region cold_thresholds_us_def)

section \<open>Word sums without overflow\<close>

definition sizes_fit :: "region list \<Rightarrow> bool" where
  "sizes_fit rs \<longleftrightarrow> nat_sum (\<lambda>_. True) rs < 2 ^ 64"

lemma nat_sum_mono: "(\<And>r. P r \<Longrightarrow> Q r) \<Longrightarrow> nat_sum P rs \<le> nat_sum Q rs"
  by (induction rs) (auto simp: nat_sum_def)

lemma nat_sum_split: "nat_sum P rs + nat_sum (\<lambda>r. \<not> P r) rs = nat_sum (\<lambda>_. True) rs"
  by (induction rs) (auto simp: nat_sum_def)

lemma unat_word_sum_mod: "unat (word_sum P rs) = nat_sum P rs mod 2 ^ 64"
proof (induction rs)
  case (Cons r rs)
  then show ?case
    by (simp add: word_sum_def nat_sum_def unat_word_ariths mod_simps)
qed (simp add: word_sum_def nat_sum_def)

lemma unat_word_sum: "sizes_fit rs \<Longrightarrow> unat (word_sum P rs) = nat_sum P rs"
proof -
  assume "sizes_fit rs"
  then have "nat_sum P rs < 2 ^ 64"
    using nat_sum_mono [of P "\<lambda>_. True" rs] by (simp add: sizes_fit_def)
  then show ?thesis by (simp add: unat_word_sum_mod)
qed

lemma word_sum_mono:
  "sizes_fit rs \<Longrightarrow> (\<And>r. P r \<Longrightarrow> Q r) \<Longrightarrow> word_sum P rs \<le> word_sum Q rs"
  by (simp add: word_le_nat_alt unat_word_sum nat_sum_mono)

lemma cold_at_mono: "t' \<le> t \<Longrightarrow> cold_at aggr t r \<Longrightarrow> cold_at aggr t' r"
  by (auto simp: cold_at_def)

text \<open>
  The idle time in microseconds as a number, and the fact that a 32-bit age times an
  aggregation interval below \<open>2 ^ 32\<close> microseconds stays below \<open>2 ^ 64\<close>.
\<close>

definition idle_us :: "u64 \<Rightarrow> region \<Rightarrow> nat" where
  "idle_us aggr r = unat (r_age r) * unat aggr"

lemma idle_us_fits:
  assumes "unat aggr \<le> 2 ^ 32"
  shows "unat (ucast (r_age r) * aggr :: u64) = idle_us aggr r"
proof -
  have a: "unat (r_age r) < 2 ^ 32" using unat_u32_less [of "r_age r"] by simp
  have "unat (ucast (r_age r) :: u64) = unat (r_age r)"
    using unat_u32_less [of "r_age r"] by (simp add: unsigned_ucast_eq take_bit_nat_eq_self)
  moreover have "unat (r_age r) * unat aggr < 18446744073709551616"
    using mult_le_mono [of "unat (r_age r)" "2 ^ 32 - 1" "unat aggr" "2 ^ 32"] a assms by simp
  ultimately show ?thesis by (simp add: unat_word_ariths idle_us_def)
qed

lemma cold_at_idle:
  "unat aggr \<le> 2 ^ 32 \<Longrightarrow>
     cold_at aggr t r \<longleftrightarrow> nr_accesses r = 0 \<and> unat t \<le> idle_us aggr r"
  by (simp add: cold_at_def word_le_nat_alt idle_us_fits)

section \<open>Properties\<close>

definition idle_for :: "u64 \<Rightarrow> nat \<Rightarrow> region \<Rightarrow> bool" where
  "idle_for aggr t r \<longleftrightarrow> nr_accesses r = 0 \<and> t \<le> idle_us aggr r"

lemma cold_at_idle_for: "unat aggr \<le> 2 ^ 32 \<Longrightarrow> cold_at aggr t = idle_for aggr (unat t)"
  by (auto simp: idle_for_def cold_at_idle)

text \<open>
  C20: The histogram is exact. As long as the sizes of the regions add up to less than
  \<open>2 ^ 64\<close> bytes and the aggregation interval is at most \<open>2 ^ 32\<close> microseconds (so that the
  product of a 32-bit age with it cannot wrap), every bucket that \<open>bucketRegions\<close> computes
  with wrapping 64-bit arithmetic is the mathematical sum of the sizes of the regions that
  had no access and have been idle for at least that long, \<open>monitored_bytes\<close> is the sum over
  all regions and \<open>hot_bytes\<close> the sum over the regions not cold for 60 seconds.
\<close>

theorem bucket_regions_exact:
  assumes "sizes_fit rs" and "unat aggr \<le> 2 ^ 32"
  shows "unat (monitored_bytes (bucket_regions rs aggr)) = nat_sum (\<lambda>_. True) rs
    \<and> unat (hot_bytes (bucket_regions rs aggr)) = nat_sum (\<lambda>r. \<not> idle_for aggr 60000000 r) rs
    \<and> unat (cold_60s (bucket_regions rs aggr)) = nat_sum (idle_for aggr 60000000) rs
    \<and> unat (cold_300s (bucket_regions rs aggr)) = nat_sum (idle_for aggr 300000000) rs
    \<and> unat (cold_1h (bucket_regions rs aggr)) = nat_sum (idle_for aggr 3600000000) rs
    \<and> unat (cold_6h (bucket_regions rs aggr)) = nat_sum (idle_for aggr 21600000000) rs
    \<and> unat (cold_24h (bucket_regions rs aggr)) = nat_sum (idle_for aggr 86400000000) rs"
proof -
  have le: "word_sum (cold_at aggr t) rs \<le> word_sum (\<lambda>_. True) rs" for t
    using assms(1) by (rule word_sum_mono) simp
  have "nat_sum (idle_for aggr 60000000) rs + nat_sum (\<lambda>r. \<not> idle_for aggr 60000000 r) rs
      = nat_sum (\<lambda>_. True) rs"
    by (rule nat_sum_split)
  then have hot: "unat (word_sum (\<lambda>_. True) rs - word_sum (cold_at aggr 60000000) rs)
      = nat_sum (\<lambda>r. \<not> idle_for aggr 60000000 r) rs"
    using assms le [of 60000000]
    by (simp add: unat_sub unat_word_sum cold_at_idle_for)
  show ?thesis
    using assms hot
    by (simp add: bucket_regions_word_sum unat_word_sum cold_at_idle_for)
qed

text \<open>Two regions, the first touched just now, the second idle for 100 seconds.\<close>

definition sample_regions :: "region list" where
  "sample_regions =
     [\<lparr>r_start = 4096, r_end = 12288, nr_accesses = 3, r_age = 5000\<rparr>,
      \<lparr>r_start = 12288, r_end = 16384, nr_accesses = 0, r_age = 1000\<rparr>]"

theorem bucket_regions_exact_witness:
  "sizes_fit sample_regions \<and> unat (100000 :: u64) \<le> 2 ^ 32
   \<and> unat (cold_60s (bucket_regions sample_regions 100000)) = 4096
   \<and> unat (cold_300s (bucket_regions sample_regions 100000)) = 0
   \<and> unat (hot_bytes (bucket_regions sample_regions 100000)) = 8192"
proof -
  have "sizes_fit sample_regions" and "unat (100000 :: u64) \<le> 2 ^ 32"
    by (simp_all add: sizes_fit_def nat_sum_def sample_regions_def region_size_def)
  from this bucket_regions_exact [OF this] show ?thesis
    by (simp add: nat_sum_def idle_for_def idle_us_def sample_regions_def region_size_def)
qed

text \<open>
  The buckets are cumulative. When the sizes add up to less than \<open>2 ^ 64\<close>, every bucket
  is at most the next shorter one, the 60-second bucket is at most the monitored total, and
  hot and 60-second cold bytes partition the total. This needs no bound on the interval: it
  holds even where the idle time wraps.
\<close>

theorem bucket_regions_cumulative:
  assumes "sizes_fit rs"
  shows "cold_24h (bucket_regions rs aggr) \<le> cold_6h (bucket_regions rs aggr)
    \<and> cold_6h (bucket_regions rs aggr) \<le> cold_1h (bucket_regions rs aggr)
    \<and> cold_1h (bucket_regions rs aggr) \<le> cold_300s (bucket_regions rs aggr)
    \<and> cold_300s (bucket_regions rs aggr) \<le> cold_60s (bucket_regions rs aggr)
    \<and> cold_60s (bucket_regions rs aggr) \<le> monitored_bytes (bucket_regions rs aggr)
    \<and> unat (hot_bytes (bucket_regions rs aggr)) + unat (cold_60s (bucket_regions rs aggr))
        = unat (monitored_bytes (bucket_regions rs aggr))"
proof -
  have mono: "t' \<le> t \<Longrightarrow> word_sum (cold_at aggr t) rs \<le> word_sum (cold_at aggr t') rs" for t t'
    using assms by (rule word_sum_mono) (rule cold_at_mono)
  have le: "word_sum (cold_at aggr t) rs \<le> word_sum (\<lambda>_. True) rs" for t
    using assms by (rule word_sum_mono) simp
  then have "unat (word_sum (cold_at aggr 60000000) rs) \<le> unat (word_sum (\<lambda>_. True) rs)"
    by (simp add: word_le_nat_alt)
  with le show ?thesis by (simp add: bucket_regions_word_sum mono unat_sub)
qed

theorem bucket_regions_cumulative_witness:
  "sizes_fit sample_regions
   \<and> cold_300s (bucket_regions sample_regions 100000) \<le> cold_60s (bucket_regions sample_regions 100000)
   \<and> unat (hot_bytes (bucket_regions sample_regions 100000)) = 8192"
proof -
  have fit: "sizes_fit sample_regions"
    by (simp add: sizes_fit_def nat_sum_def sample_regions_def region_size_def)
  moreover have "unat (hot_bytes (bucket_regions sample_regions 100000)) = 8192"
    by (simp add: bucket_regions_word_sum word_sum_def cold_at_def sample_regions_def
        region_size_def)
  ultimately show ?thesis using bucket_regions_cumulative [OF fit, of 100000] by simp
qed

end
