(* ===== verification/Iomem.thy ===== *)
theory Iomem
  imports HostTree
begin

text \<open>
  The parser of \<open>/proc/iomem\<close> (\<open>pkg/damon/iomem.go\<close>): the loop over its lines and the
  address ranges it collects, an equivalence with a line-wise reference function, and a round
  trip with the kernel's rendering of the file.
\<close>

section \<open>The parser\<close>

text \<open>An address range as \<open>/proc/iomem\<close> reports it: both ends included.\<close>

record addr_range =
  ar_start :: u64
  ar_end :: u64

text \<open>The body of the loop of \<open>parseIomemReader\<close>; an early \<open>continue\<close> leaves the slice as it is.\<close>

definition iomem_step :: "addr_range list \<Rightarrow> string \<Rightarrow> err + addr_range list" where
  "iomem_step ranges line =
     (if line = [] \<or> hd line = CHR '' '' \<or> hd line = CHR 0x09 then Inr ranges
      else case cut line '' : '' of
        None \<Rightarrow> Inr ranges
      | Some (addrs, label) \<Rightarrow>
          if label \<noteq> ''System RAM'' then Inr ranges
          else (case cut addrs ''-'' of
            None \<Rightarrow> Inr ranges
          | Some (start_hex, stophex) \<Rightarrow>
              (case parse_hex64 start_hex of
                Inl e \<Rightarrow> Inl e
              | Inr start \<Rightarrow>
                  (case parse_hex64 stophex of
                    Inl e \<Rightarrow> Inl e
                  | Inr stop \<Rightarrow>
                      if start = 0 \<and> stop = 0 then Inl ErrIomemMasked
                      else Inr (ranges @ [\<lparr>ar_start = start, ar_end = stop\<rparr>])))))"

definition parse_iomem_reader :: "string \<Rightarrow> err + addr_range list" where
  "parse_iomem_reader content = scan_lines iomem_step [] content"

text \<open>\<open>ParseIomem\<close>, for the tree under \<open>/proc\<close>, by \<open>parseIomemFile\<close>.\<close>

definition parse_iomem_file :: "node \<Rightarrow> path \<Rightarrow> err + addr_range list" where
  "parse_iomem_file t p =
     (case os_read_file t p of Inl e \<Rightarrow> Inl e | Inr content \<Rightarrow> parse_iomem_reader content)"

definition parse_iomem :: "node \<Rightarrow> err + addr_range list" where
  "parse_iomem proc = parse_iomem_file proc [''iomem'']"

section \<open>A reference function, line by line\<close>

text \<open>
  The two hexadecimal words of a top-level \<open>System RAM\<close> line, \<open>None\<close> for a line the parser
  has no interest in.
\<close>

definition ram_fields :: "string \<Rightarrow> (string \<times> string) option" where
  "ram_fields line =
     (if line = [] \<or> hd line = CHR '' '' \<or> hd line = CHR 0x09 then None
      else case cut line '' : '' of
        None \<Rightarrow> None
      | Some (addrs, label) \<Rightarrow> if label = ''System RAM'' then cut addrs ''-'' else None)"

definition range_of_fields :: "string \<times> string \<Rightarrow> err + addr_range" where
  "range_of_fields f =
     (case parse_hex64 (fst f) of
        Inl e \<Rightarrow> Inl e
      | Inr a \<Rightarrow> (case parse_hex64 (snd f) of
          Inl e \<Rightarrow> Inl e
        | Inr b \<Rightarrow> if a = 0 \<and> b = 0 then Inl ErrIomemMasked
                   else Inr \<lparr>ar_start = a, ar_end = b\<rparr>))"

lemma iomem_step_fields:
  "iomem_step ranges line =
     (case ram_fields line of
        None \<Rightarrow> Inr ranges
      | Some f \<Rightarrow> (case range_of_fields f of Inl e \<Rightarrow> Inl e | Inr r \<Rightarrow> Inr (ranges @ [r])))"
  by (auto simp: iomem_step_def ram_fields_def range_of_fields_def
      split: option.splits prod.splits sum.splits)

lemma fold_iomem_step:
  "fold_res iomem_step ranges ls =
     bind_res (map_res range_of_fields (List.map_filter ram_fields ls)) (\<lambda>rs. Inr (ranges @ rs))"
proof (induction ls arbitrary: ranges)
  case (Cons l ls)
  show ?case
  proof (cases "ram_fields l")
    case None
    then show ?thesis by (simp add: iomem_step_fields [of ranges l] Cons.IH map_filter_simps)
  next
    case (Some f)
    then show ?thesis
      by (cases "range_of_fields f"; cases "map_res range_of_fields (List.map_filter ram_fields ls)")
        (simp_all add: iomem_step_fields [of ranges l] Cons.IH map_filter_simps)
  qed
qed (simp add: map_filter_simps)

section \<open>Rendering\<close>

text \<open>
  A line of the file as the kernel writes it: a System RAM range, its addresses padded with
  zeros, or any line that does not count as one.
\<close>

datatype iomem_line = Ram nat addr_range | Other string

fun render_iomem_line :: "iomem_line \<Rightarrow> string" where
  "render_iomem_line (Ram pad r) =
     replicate pad CHR ''0'' @ format_base 16 (unat (ar_start r)) @ ''-''
     @ replicate pad CHR ''0'' @ format_base 16 (unat (ar_end r)) @ '' : System RAM''"
| "render_iomem_line (Other l) = l"

fun ram_of :: "iomem_line \<Rightarrow> addr_range option" where
  "ram_of (Ram pad r) = Some r"
| "ram_of (Other l) = None"

text \<open>No range is masked, every other line is one the parser skips, and no line is too long.\<close>

fun good_line :: "iomem_line \<Rightarrow> bool" where
  "good_line (Ram pad r) \<longleftrightarrow> \<not> (ar_start r = 0 \<and> ar_end r = 0) \<and> pad < 16"
| "good_line (Other l) \<longleftrightarrow> ram_fields l = None \<and> clean_line l"

lemma parse_hex64_padded:
  "parse_hex64 (replicate k CHR ''0'' @ format_base 16 (unat w)) = Inr w"
proof -
  have "parse_uint 16 64 (replicate k CHR ''0'' @ format_base 16 (unat w)) = Inr (unat w)"
    using digits_format_base [of 16 "unat w"] unat_u64_less [of w]
    by (simp add: parse_uint_Inr_iff digits_ok_zeros digits_value_zeros)
  then show ?thesis by (simp add: parse_hex64_def)
qed

definition hex_word :: "nat \<Rightarrow> u64 \<Rightarrow> string" where
  "hex_word pad w = replicate pad CHR ''0'' @ format_base 16 (unat w)"

lemma hex_word_chars: "c \<in> set (hex_word pad w) \<Longrightarrow> digit_val c \<noteq> None"
  using digits_format_base [of 16 "unat w"] digits_ok_chars [of 16 "format_base 16 (unat w)" c]
  by (auto simp: hex_word_def digit_val_def split: if_splits)

lemma hex_word_fresh: "digit_val c = None \<Longrightarrow> c \<notin> set (hex_word pad w)"
  using hex_word_chars by blast

lemma non_digits:
  "digit_val CHR '' '' = None" "digit_val CHR ''-'' = None" "digit_val newline = None"
  "digit_val CHR 0x0D = None" "digit_val CHR 0x09 = None"
  by (simp_all add: digit_val_def newline_def)

lemma render_ram:
  "render_iomem_line (Ram pad r) =
     (hex_word pad (ar_start r) @ ''-'' @ hex_word pad (ar_end r)) @ '' : '' @ ''System RAM''"
  by (simp add: hex_word_def)

lemma ram_fields_render:
  "ram_fields (render_iomem_line (Ram pad r)) =
     Some (hex_word pad (ar_start r), hex_word pad (ar_end r))"
proof -
  let ?a = "hex_word pad (ar_start r)" and ?b = "hex_word pad (ar_end r)"
  have "?a \<noteq> []" by (simp add: hex_word_def)
  then have "hd ?a \<in> set ?a" by simp
  then have hd: "hd ?a \<noteq> CHR '' ''" "hd ?a \<noteq> CHR 0x09"
    using hex_word_fresh [OF non_digits(1)] hex_word_fresh [OF non_digits(5)] by metis+
  have "cut ((?a @ ''-'' @ ?b) @ '' : '' @ ''System RAM'') '' : '' = Some (?a @ ''-'' @ ?b, ''System RAM'')"
    by (rule cut_fresh) (simp_all add: hex_word_fresh non_digits)
  moreover have "cut (?a @ ''-'' @ ?b) ''-'' = Some (?a, ?b)"
    by (rule cut_fresh) (simp_all add: hex_word_fresh non_digits)
  ultimately show ?thesis
    using \<open>?a \<noteq> []\<close> hd unfolding render_ram ram_fields_def by simp
qed

lemma range_of_hex_words:
  "\<not> (ar_start r = 0 \<and> ar_end r = 0) \<Longrightarrow>
     range_of_fields (hex_word pad (ar_start r), hex_word pad (ar_end r)) = Inr r"
  by (simp add: range_of_fields_def hex_word_def parse_hex64_padded)

lemma clean_render: "good_line l \<Longrightarrow> clean_line (render_iomem_line l)"
proof (cases l)
  case (Ram pad r)
  assume "good_line l"
  then show ?thesis
    using Ram length_format_base_u64 [of 16 "ar_start r"] length_format_base_u64 [of 16 "ar_end r"]
    unfolding Ram render_ram clean_line_def line_fits_def
    by (simp add: hex_word_fresh non_digits) (simp add: hex_word_def newline_def)
qed simp

lemma map_filter_render:
  "\<forall>l \<in> set ls. good_line l \<Longrightarrow>
     map_res range_of_fields (List.map_filter ram_fields (map render_iomem_line ls)) =
       Inr (List.map_filter ram_of ls)"
proof (induction ls)
  case (Cons l ls)
  then show ?case
    by (cases l) (simp_all add: map_filter_simps ram_fields_render range_of_hex_words
        del: render_iomem_line.simps(1))
qed (simp add: map_filter_simps)

section \<open>Properties\<close>

text \<open>
  The imperative loop is the line-wise reference function. \<open>parseIomemReader\<close> succeeds
  exactly when no line is too long and each top-level \<open>System RAM\<close> line with a dash has two
  64-bit hexadecimal words that are not both zero; its result is then the list of the ranges
  of exactly these lines, in the order of the file, and nothing else is in it.
\<close>

theorem parse_iomem_lines:
  "parse_iomem_reader content =
     (case map_res range_of_fields (List.map_filter ram_fields (scanner_lines content)) of
        Inl e \<Rightarrow> Inl e
      | Inr ranges \<Rightarrow> (case scanner_err content of None \<Rightarrow> Inr ranges | Some e \<Rightarrow> Inl e))"
  by (simp add: parse_iomem_reader_def scan_lines_def fold_iomem_step split: sum.splits)

lemma parse_iomem_rendered:
  assumes "\<forall>l \<in> set ls. good_line l"
  shows "parse_iomem_reader (unlines (map render_iomem_line ls)) = Inr (List.map_filter ram_of ls)"
proof -
  have "\<forall>l \<in> set (map render_iomem_line ls). clean_line l"
    using assms clean_render by auto
  then show ?thesis
    using map_filter_render [OF assms]
    by (simp add: parse_iomem_reader_def scan_lines_unlines fold_iomem_step)
qed

text \<open>
  C30: Round trip. A file rendered the way the kernel renders it, from any mixture of System
  RAM lines with unmasked ranges and lines of other kinds (indented subdivisions, reserved
  areas, empty lines), is parsed back to exactly the System RAM ranges, in order.
\<close>

theorem parse_iomem_render:
  assumes "lookup_node proc [''iomem''] = Inr (File (unlines (map render_iomem_line ls)))"
    and "\<forall>l \<in> set ls. good_line l"
  shows "parse_iomem proc = Inr (List.map_filter ram_of ls)"
  using assms by (simp add: parse_iomem_def parse_iomem_file_def os_read_file_def parse_iomem_rendered)

definition sample_iomem :: "iomem_line list" where
  "sample_iomem =
     [Other ''00000000-00000fff : Reserved'', Ram 4 \<lparr>ar_start = 4096, ar_end = 654335\<rparr>,
      Other ''  00100000-0020ffff : Kernel code'', Ram 0 \<lparr>ar_start = 1048576, ar_end = 2147335167\<rparr>]"

theorem parse_iomem_render_witness:
  "list_all good_line sample_iomem
   \<and> parse_iomem (Dir [(''iomem'', File (unlines (map render_iomem_line sample_iomem)))])
       = Inr [\<lparr>ar_start = 4096, ar_end = 654335\<rparr>, \<lparr>ar_start = 1048576, ar_end = 2147335167\<rparr>]"
proof -
  have good: "\<forall>l \<in> set sample_iomem. good_line l"
    by (simp add: sample_iomem_def ram_fields_def has_prefix_def clean_line_def line_fits_def
        newline_def)
  have "List.map_filter ram_of sample_iomem =
      [\<lparr>ar_start = 4096, ar_end = 654335\<rparr>, \<lparr>ar_start = 1048576, ar_end = 2147335167\<rparr>]"
    by (simp add: sample_iomem_def map_filter_simps)
  moreover have "lookup_node (Dir [(''iomem'', File (unlines (map render_iomem_line sample_iomem)))]) [''iomem''] =
      Inr (File (unlines (map render_iomem_line sample_iomem)))" by simp
  ultimately show ?thesis using good parse_iomem_render [OF _ good] by (simp only: list_all_iff simp_thms)
qed

text \<open>
  Masked addresses are refused. If every System RAM line of the file reads as the
  all-zero range that an unprivileged reader sees, and there is at least one, the parser
  reports \<open>ErrIomemMasked\<close> and never an empty or a zero range.
\<close>

theorem parse_iomem_masked:
  assumes "List.map_filter ram_fields (scanner_lines content) \<noteq> []"
    and "\<forall>f \<in> set (List.map_filter ram_fields (scanner_lines content)).
      parse_hex64 (fst f) = Inr 0 \<and> parse_hex64 (snd f) = Inr 0"
  shows "parse_iomem_reader content = Inl ErrIomemMasked"
proof -
  obtain f fs where f: "List.map_filter ram_fields (scanner_lines content) = f # fs"
    using assms(1) by (cases "List.map_filter ram_fields (scanner_lines content)") auto
  then have "range_of_fields f = Inl ErrIomemMasked"
    using assms(2) by (simp add: range_of_fields_def)
  with f show ?thesis
    by (simp add: parse_iomem_reader_def scan_lines_def fold_iomem_step)
qed

definition masked_iomem :: string where
  "masked_iomem = unlines [''00000000-00000000 : Reserved'', ''00000000-00000000 : System RAM'']"

theorem parse_iomem_masked_witness:
  "parse_iomem_reader masked_iomem = Inl ErrIomemMasked"
proof -
  have "scanner_lines masked_iomem =
      [''00000000-00000000 : Reserved'', ''00000000-00000000 : System RAM'']"
    unfolding masked_iomem_def
    by (rule scanner_lines_unlines) (simp add: clean_line_def line_fits_def newline_def)
  then have f: "List.map_filter ram_fields (scanner_lines masked_iomem) = [(''00000000'', ''00000000'')]"
    by (simp add: map_filter_simps ram_fields_def has_prefix_def)
  show ?thesis
    by (rule parse_iomem_masked)
      (simp_all add: f parse_hex64_def parse_uint_def digit_val_def)
qed

end
