(* ===== verification/DamonSession.thy ===== *)
theory DamonSession
  imports HostTree DamonHist Iomem
begin

text \<open>
  The DAMON client (\<open>pkg/damon\<close>): capability detection, the sysfs write sequence that starts
  a monitoring session, stopping it, and the snapshot that reads \<open>tried_regions\<close> back. The
  kernel side of a sysfs write is not code of the program: it is the parameter \<open>write_file\<close>,
  a function on an arbitrary world that says whether the write was accepted and what became
  of the world; \<open>sysfs_of\<close> gives the \<open>/sys\<close> tree of a world.
\<close>

section \<open>Capabilities\<close>

record caps =
  sysfs :: bool
  paddr :: bool
  tried_regions :: bool

definition sysfs_admin_root :: path where
  "sysfs_admin_root = [''kernel'', ''mm'', ''damon'', ''admin'']"

definition kernel_at_least :: "string \<Rightarrow> int \<Rightarrow> int \<Rightarrow> bool" where
  "kernel_at_least release want_major want_minor =
     (let parts = split_n CHR ''.'' 3 release
      in if length parts < 2 then False
         else case atoi (parts ! 0) of
           Inl _ \<Rightarrow> False
         | Inr major \<Rightarrow>
             (case atoi (parts ! 1) of
               Inl _ \<Rightarrow> False
             | Inr minor \<Rightarrow>
                 if major \<noteq> want_major then want_major < major else want_minor \<le> minor))"

definition read_kernel_release :: "node \<Rightarrow> err + string" where
  "read_kernel_release proc =
     (case os_read_file proc [''sys'', ''kernel'', ''osrelease''] of
        Inl e \<Rightarrow> Inl e
      | Inr b \<Rightarrow> Inr (trim_space b))"

definition detect_at :: "node \<Rightarrow> node \<Rightarrow> err + caps" where
  "detect_at proc sys =
     (case os_stat sys (sysfs_admin_root @ [''kdamonds'', ''nr_kdamonds'']) of
        Inl _ \<Rightarrow> Inr \<lparr>sysfs = False, paddr = False, tried_regions = False\<rparr>
      | Inr _ \<Rightarrow>
          (case read_kernel_release proc of
             Inl e \<Rightarrow> Inl e
           | Inr release \<Rightarrow>
               Inr \<lparr>sysfs = True, paddr = True, tried_regions = kernel_at_least release 6 2\<rparr>))"

section \<open>Starting and stopping a session\<close>

record damon_config =
  ops :: string
  sample_us :: u64
  aggr_us :: u64
  update_us :: u64
  min_regions :: u64
  max_regions :: u64
  cfg_regions :: "addr_range list"

record session =
  kdamond :: path

type_synonym 'w writer = "'w \<Rightarrow> path \<Rightarrow> string \<Rightarrow> err option \<times> 'w"

definition max_u64_str :: string where
  "max_u64_str = ''18446744073709551615''"

definition format_u64 :: "u64 \<Rightarrow> string" where
  "format_u64 w = format_uint (unat w)"

text \<open>
  The two writes of the \<open>i\<close>-th target region. \<open>/proc/iomem\<close> ends are inclusive and DAMON's
  are exclusive, hence the \<open>+ 1\<close>.
\<close>

definition region_writes :: "path \<Rightarrow> nat \<Rightarrow> addr_range \<Rightarrow> (path \<times> string) list" where
  "region_writes c i r =
     (let rd = c @ [''targets'', ''0'', ''regions'', format_uint i]
      in [(rd @ [''start''], format_u64 (ar_start r)),
          (rd @ [''end''], format_u64 (ar_end r + 1))])"

definition start_writes :: "damon_config \<Rightarrow> (path \<times> string) list" where
  "start_writes cfg =
     (let admin = sysfs_admin_root;
          k = admin @ [''kdamonds'', ''0''];
          c = k @ [''contexts'', ''0''];
          s = c @ [''schemes'', ''0'']
      in [(admin @ [''kdamonds'', ''nr_kdamonds''], ''1''),
          (k @ [''contexts'', ''nr_contexts''], ''1''),
          (c @ [''operations''], ops cfg),
          (c @ [''monitoring_attrs'', ''intervals'', ''sample_us''], format_u64 (sample_us cfg)),
          (c @ [''monitoring_attrs'', ''intervals'', ''aggr_us''], format_u64 (aggr_us cfg)),
          (c @ [''monitoring_attrs'', ''intervals'', ''update_us''], format_u64 (update_us cfg)),
          (c @ [''monitoring_attrs'', ''nr_regions'', ''min''], format_u64 (min_regions cfg)),
          (c @ [''monitoring_attrs'', ''nr_regions'', ''max''], format_u64 (max_regions cfg)),
          (c @ [''targets'', ''nr_targets''], ''1''),
          (c @ [''targets'', ''0'', ''regions'', ''nr_regions''],
             format_uint (length (cfg_regions cfg)))]
         @ concat (map (\<lambda>(i, r). region_writes c i r) (enumerate 0 (cfg_regions cfg)))
         @ [(c @ [''schemes'', ''nr_schemes''], ''1''),
            (s @ [''action''], ''stat''),
            (s @ [''access_pattern'', ''sz'', ''min''], ''0''),
            (s @ [''access_pattern'', ''sz'', ''max''], max_u64_str),
            (s @ [''access_pattern'', ''nr_accesses'', ''min''], ''0''),
            (s @ [''access_pattern'', ''nr_accesses'', ''max''], max_u64_str),
            (s @ [''access_pattern'', ''age'', ''min''], ''0''),
            (s @ [''access_pattern'', ''age'', ''max''], max_u64_str)])"

text \<open>The loop \<open>for _, w := range writes\<close>, which stops at the first refused write.\<close>

fun do_writes :: "'w writer \<Rightarrow> 'w \<Rightarrow> (path \<times> string) list \<Rightarrow> err option \<times> 'w" where
  "do_writes write_file w [] = (None, w)"
| "do_writes write_file w ((p, v) # ws) =
     (case write_file w p v of
        (Some e, w') \<Rightarrow> (Some e, w')
      | (None, w') \<Rightarrow> do_writes write_file w' ws)"

definition kdamond0 :: path where
  "kdamond0 = sysfs_admin_root @ [''kdamonds'', ''0'']"

definition damon_start :: "'w writer \<Rightarrow> damon_config \<Rightarrow> 'w \<Rightarrow> (err + session) \<times> 'w" where
  "damon_start write_file cfg w =
     (case write_file w (kdamond0 @ [''state'']) ''off'' of (_, w1) \<Rightarrow>
      (case do_writes write_file w1 (start_writes cfg) of
         (Some e, w2) \<Rightarrow> (Inl e, w2)
       | (None, w2) \<Rightarrow>
           (case write_file w2 (kdamond0 @ [''state'']) ''on'' of
              (Some e, w3) \<Rightarrow> (Inl e, w3)
            | (None, w3) \<Rightarrow> (Inr \<lparr>kdamond = kdamond0\<rparr>, w3))))"

definition damon_stop :: "'w writer \<Rightarrow> session \<Rightarrow> 'w \<Rightarrow> err option \<times> 'w" where
  "damon_stop write_file s w = write_file w (kdamond s @ [''state'']) ''off''"

section \<open>Snapshots\<close>

definition read_sysfs_file :: "node \<Rightarrow> path \<Rightarrow> err + string" where
  "read_sysfs_file t p =
     (case os_read_file t p of Inl e \<Rightarrow> Inl e | Inr b \<Rightarrow> Inr (trim_space b))"

definition read_uint64_file :: "node \<Rightarrow> path \<Rightarrow> err + u64" where
  "read_uint64_file t p = bind_res (read_sysfs_file t p) parse_u64"

definition read_uint32_file :: "node \<Rightarrow> path \<Rightarrow> err + u32" where
  "read_uint32_file t p =
     bind_res (read_sysfs_file t p)
       (\<lambda>s. case parse_uint 10 32 s of
              Inl e \<Rightarrow> Inl (ErrNum e)
            | Inr n \<Rightarrow> Inr (word_of_nat n))"

definition read_region :: "node \<Rightarrow> path \<Rightarrow> int \<Rightarrow> err + region" where
  "read_region t dir i =
     (let rd = dir @ [itoa i]
      in bind_res (read_uint64_file t (rd @ [''start'']))
       (\<lambda>start. bind_res (read_uint64_file t (rd @ [''end'']))
       (\<lambda>stop. bind_res (read_uint32_file t (rd @ [''nr_accesses'']))
       (\<lambda>nr. bind_res (read_uint32_file t (rd @ [''age'']))
       (\<lambda>a. Inr \<lparr>r_start = start, r_end = stop, nr_accesses = nr, r_age = a\<rparr>)))))"

text \<open>The directories with a numeric name, in numeric order.\<close>

definition region_indices :: "(string \<times> bool) list \<Rightarrow> int list" where
  "region_indices entries =
     sort (List.map_filter
       (\<lambda>(name, dir). if \<not> dir then None
          else (case atoi name of Inl _ \<Rightarrow> None | Inr n \<Rightarrow> Some n)) entries)"

definition read_tried_regions :: "node \<Rightarrow> path \<Rightarrow> err + region list" where
  "read_tried_regions t dir =
     (case os_read_dir t dir of
        Inl e \<Rightarrow> Inl e
      | Inr entries \<Rightarrow> map_res (read_region t dir) (region_indices entries))"

definition tried_regions_dir :: "path \<Rightarrow> path" where
  "tried_regions_dir k =
     k @ [''contexts'', ''0'', ''schemes'', ''0'', ''tried_regions'']"

definition snapshot ::
  "'w writer \<Rightarrow> ('w \<Rightarrow> node) \<Rightarrow> session \<Rightarrow> 'w \<Rightarrow> (err + region list) \<times> 'w" where
  "snapshot write_file sysfs_of s w =
     (case write_file w (kdamond s @ [''state'']) ''update_schemes_tried_regions'' of
        (Some e, w') \<Rightarrow> (Inl e, w')
      | (None, w') \<Rightarrow> (read_tried_regions (sysfs_of w') (tried_regions_dir (kdamond s)), w'))"

text \<open>\<open>Damon.Collect\<close> of the collector: a snapshot, bucketed.\<close>

definition damon_collect ::
  "'w writer \<Rightarrow> ('w \<Rightarrow> node) \<Rightarrow> session \<Rightarrow> u64 \<Rightarrow> 'w \<Rightarrow> (err + damon_hist) \<times> 'w" where
  "damon_collect write_file sysfs_of s aggr w =
     (case snapshot write_file sysfs_of s w of
        (Inl e, w') \<Rightarrow> (Inl e, w')
      | (Inr regions, w') \<Rightarrow> (Inr (bucket_regions regions aggr), w'))"

section \<open>The order of the writes\<close>

text \<open>A writer that also keeps the log of the writes attempted, each with its outcome.\<close>

type_synonym write_log = "(path \<times> string \<times> err option) list"

definition logged :: "'w writer \<Rightarrow> ('w \<times> write_log) writer" where
  "logged write_file wl p v =
     (case write_file (fst wl) p v of (r, w') \<Rightarrow> (r, (w', snd wl @ [(p, v, r)])))"

lemma logged_apply [simp]:
  "logged write_file (w, log) p v =
     (case write_file w p v of (r, w') \<Rightarrow> (r, (w', log @ [(p, v, r)])))"
  by (simp add: logged_def)

definition start_sequence :: "damon_config \<Rightarrow> (path \<times> string) list" where
  "start_sequence cfg =
     (kdamond0 @ [''state''], ''off'') # start_writes cfg @ [(kdamond0 @ [''state''], ''on'')]"

abbreviation attempted :: "write_log \<Rightarrow> (path \<times> string) list" where
  "attempted log \<equiv> map (\<lambda>(p, v, r). (p, v)) log"

abbreviation outcomes :: "write_log \<Rightarrow> err option list" where
  "outcomes log \<equiv> map (\<lambda>(p, v, r). r) log"

lemma do_writes_logged:
  assumes "do_writes (logged wr) (w, log) ws = (r, (w', log'))"
  shows "\<exists>new. log' = log @ new
    \<and> (case r of
         None \<Rightarrow> attempted new = ws \<and> outcomes new = replicate (length ws) None
       | Some e \<Rightarrow> (\<exists>rest. ws = attempted new @ rest)
           \<and> outcomes new = replicate (length new - 1) None @ [Some e])"
  using assms
proof (induction ws arbitrary: w log)
  case (Cons pv ws)
  obtain p v where pv: "pv = (p, v)" by (cases pv)
  obtain o1 w1 where w1: "wr w p v = (o1, w1)" by (cases "wr w p v")
  show ?case
  proof (cases o1)
    case None
    with Cons.prems pv w1
    have "do_writes (logged wr) (w1, log @ [(p, v, None)]) ws = (r, (w', log'))"
      by simp
    from Cons.IH [OF this] obtain new where new: "log' = log @ (p, v, None) # new"
      "case r of
         None \<Rightarrow> attempted new = ws \<and> outcomes new = replicate (length ws) None
       | Some e \<Rightarrow> (\<exists>rest. ws = attempted new @ rest)
           \<and> outcomes new = replicate (length new - 1) None @ [Some e]"
      by auto
    then have "r = Some e \<Longrightarrow> new \<noteq> []" for e by auto
    with new pv show ?thesis
      by (intro exI [of _ "(p, v, None) # new"])
        (cases r; cases new; auto simp: replicate_append_same)
  next
    case (Some e)
    with Cons.prems pv w1 show ?thesis
      by (intro exI [of _ "[(p, v, Some e)]"]) auto
  qed
qed simp

lemma start_writes_nonempty: "start_writes cfg \<noteq> []"
  by (simp add: start_writes_def Let_def)

lemma start_writes_split:
  "\<exists>pre post. start_writes cfg =
     pre @ concat (map (\<lambda>(i, r). region_writes (kdamond0 @ [''contexts'', ''0'']) i r)
       (enumerate 0 (cfg_regions cfg))) @ post"
  unfolding start_writes_def Let_def kdamond0_def append_assoc by blast

text \<open>The two shapes of a run of \<open>start\<close>: a refused configuration write ends it, or \<open>on\<close> is tried.\<close>

lemma damon_start_runs:
  assumes "damon_start (logged write_file) cfg (w, []) = (r, (w', log))"
  shows "\<exists>o1 new.
     (\<exists>e rest. r = Inl e \<and> log = (kdamond0 @ [''state''], ''off'', o1) # new \<and> new \<noteq> []
        \<and> start_writes cfg = attempted new @ rest \<and> outcomes new = replicate (length new - 1) None @ [Some e])
   \<or> (\<exists>o3. log = (kdamond0 @ [''state''], ''off'', o1) # new @ [(kdamond0 @ [''state''], ''on'', o3)]
        \<and> attempted new = start_writes cfg \<and> outcomes new = replicate (length new) None
        \<and> ((\<exists>s. r = Inr s) \<longleftrightarrow> o3 = None))"
proof -
  obtain o1 w1 where w1: "write_file w (kdamond0 @ [''state'']) ''off'' = (o1, w1)"
    by (cases "write_file w (kdamond0 @ [''state'']) ''off''")
  let ?l1 = "[(kdamond0 @ [''state''], ''off'', o1)]"
  obtain r2 w2 l2 where d: "do_writes (logged write_file) (w1, ?l1) (start_writes cfg) = (r2, (w2, l2))"
    by (metis prod.exhaust)
  from do_writes_logged [OF d] obtain new where new: "l2 = ?l1 @ new"
    "case r2 of
       None \<Rightarrow> attempted new = start_writes cfg \<and> outcomes new = replicate (length (start_writes cfg)) None
     | Some e \<Rightarrow> (\<exists>rest. start_writes cfg = attempted new @ rest)
         \<and> outcomes new = replicate (length new - 1) None @ [Some e]"
    by auto
  show ?thesis
  proof (cases r2)
    case (Some e)
    with assms w1 d new have "r = Inl e" "log = ?l1 @ new" "new \<noteq> []" by (auto simp: damon_start_def)
    with new(2) Some show ?thesis by (intro exI [of _ o1] exI [of _ new] disjI1) auto
  next
    case None
    obtain o3 w3 where "write_file w2 (kdamond0 @ [''state'']) ''on'' = (o3, w3)"
      by (cases "write_file w2 (kdamond0 @ [''state'']) ''on''")
    with assms w1 d None new(1) have "log = ?l1 @ new @ [(kdamond0 @ [''state''], ''on'', o3)]"
      "(\<exists>s. r = Inr s) \<longleftrightarrow> o3 = None"
      by (auto simp: damon_start_def split: option.splits)
    moreover have att: "attempted new = start_writes cfg" using new(2) None by simp
    moreover have "length new = length (start_writes cfg)" using arg_cong [OF att, of length] by simp
    then have "outcomes new = replicate (length new) None" using new(2) None by simp
    ultimately have "\<exists>o3. log = (kdamond0 @ [''state''], ''off'', o1) # new @ [(kdamond0 @ [''state''], ''on'', o3)]
        \<and> attempted new = start_writes cfg \<and> outcomes new = replicate (length new) None
        \<and> ((\<exists>s. r = Inr s) \<longleftrightarrow> o3 = None)" by simp
    then show ?thesis by (intro exI [of _ o1] exI [of _ new]) (rule disjI2)
  qed
qed

section \<open>Properties\<close>

text \<open>
  C28: The monitor is switched on last, and only after every configuration write was accepted.
  Whatever the kernel answers, the writes \<open>start\<close> attempts are a prefix of the documented
  sequence (stop a leftover session, the configuration in dependency order, \<open>on\<close>); of all
  attempted writes only the best-effort first one and the last one can have been refused; and
  a session is returned exactly when the whole sequence was attempted and \<open>on\<close> was accepted.
\<close>

theorem damon_start_order:
  assumes "damon_start (logged write_file) cfg (w, []) = (r, (w', log))"
  shows "(\<exists>rest. start_sequence cfg = attempted log @ rest)
    \<and> (\<forall>i. 0 < i \<longrightarrow> Suc i < length log \<longrightarrow> outcomes log ! i = None)
    \<and> ((\<exists>s. r = Inr s) \<longleftrightarrow> attempted log = start_sequence cfg \<and> outcomes log ! (length log - 1) = None)"
  using damon_start_runs [OF assms]
proof (elim exE disjE conjE)
  fix o1 new e rest
  assume res: "r = Inl e" "log = (kdamond0 @ [''state''], ''off'', o1) # new" "new \<noteq> []"
    and rest: "start_writes cfg = attempted new @ rest"
    and out: "outcomes new = replicate (length new - 1) None @ [Some e]"
  have "outcomes log ! i = None" if "0 < i" "Suc i < length log" for i
    using that res(2) out by (cases i) (simp_all add: nth_append less_diff_conv)
  moreover have "attempted log \<noteq> start_sequence cfg"
    using res(2) rest by (auto simp: start_sequence_def dest: arg_cong [of _ _ length])
  moreover have "start_sequence cfg = attempted log @ rest @ [(kdamond0 @ [''state''], ''on'')]"
    using res(2) rest by (simp add: start_sequence_def)
  ultimately show ?thesis using res(1) by blast
next
  fix o1 new o3
  assume log: "log = (kdamond0 @ [''state''], ''off'', o1) # new @ [(kdamond0 @ [''state''], ''on'', o3)]"
    and new: "attempted new = start_writes cfg" "outcomes new = replicate (length new) None"
    and r: "(\<exists>s. r = Inr s) \<longleftrightarrow> o3 = None"
  have "outcomes log ! i = None" if "0 < i" "Suc i < length log" for i
    using that log new(2) by (cases i) (simp_all add: nth_append)
  moreover have "attempted log = start_sequence cfg"
    using log new(1) by (simp add: start_sequence_def)
  moreover have "outcomes log ! (length log - 1) = o3" using log by (simp add: nth_append)
  ultimately show ?thesis using r by simp
qed

text \<open>A kernel that knows no \<open>paddr\<close> operations: the fourth write is refused, \<open>on\<close> never tried.\<close>

definition no_paddr :: "unit writer" where
  "no_paddr w p v = (if v = ''paddr'' then (Some ErrIO, w) else (None, w))"

definition sample_config :: damon_config where
  "sample_config =
     \<lparr>ops = ''paddr'', sample_us = 5000, aggr_us = 100000, update_us = 1000000,
      min_regions = 10, max_regions = 1000,
      cfg_regions = [\<lparr>ar_start = 4096, ar_end = 654335\<rparr>]\<rparr>"

definition sample_start_log :: write_log where
  "sample_start_log =
     [(kdamond0 @ [''state''], ''off'', None),
      (sysfs_admin_root @ [''kdamonds'', ''nr_kdamonds''], ''1'', None),
      (kdamond0 @ [''contexts'', ''nr_contexts''], ''1'', None),
      (kdamond0 @ [''contexts'', ''0'', ''operations''], ''paddr'', Some ErrIO)]"

theorem damon_start_order_witness:
  "damon_start (logged no_paddr) sample_config ((), []) = (Inl ErrIO, ((), sample_start_log))
   \<and> (\<exists>rest. start_sequence sample_config = attempted sample_start_log @ rest)
   \<and> attempted sample_start_log \<noteq> start_sequence sample_config"
proof -
  have run: "damon_start (logged no_paddr) sample_config ((), []) = (Inl ErrIO, ((), sample_start_log))"
    by (simp add: damon_start_def start_writes_def sample_config_def no_paddr_def Let_def
        sample_start_log_def kdamond0_def)
  have "attempted sample_start_log \<noteq> start_sequence sample_config"
    by (simp add: sample_start_log_def start_sequence_def start_writes_def Let_def)
  with damon_start_order [OF run] run show ?thesis by blast
qed

text \<open>
  Inclusive to half-open. For every configured range, the value written to the region's
  \<open>start\<close> file parses back to its first address and the one written to its \<open>end\<close> file to one
  past its last address, so that the half-open range DAMON is given has exactly as many bytes
  as the inclusive one of \<open>/proc/iomem\<close>; this fails only for a range that ends at the last
  64-bit address, where the end wraps to 0.
\<close>

theorem start_writes_region:
  assumes "i < length (cfg_regions cfg)"
  shows "\<exists>v1 v2 first past.
      (kdamond0 @ [''contexts'', ''0'', ''targets'', ''0'', ''regions'', format_uint i, ''start''], v1)
        \<in> set (start_writes cfg)
    \<and> (kdamond0 @ [''contexts'', ''0'', ''targets'', ''0'', ''regions'', format_uint i, ''end''], v2)
        \<in> set (start_writes cfg)
    \<and> parse_u64 v1 = Inr first \<and> first = ar_start (cfg_regions cfg ! i)
    \<and> parse_u64 v2 = Inr past
    \<and> (if ar_end (cfg_regions cfg ! i) = - 1 then past = 0
       else unat past = unat (ar_end (cfg_regions cfg ! i)) + 1)"
proof -
  let ?r = "cfg_regions cfg ! i"
  let ?c = "kdamond0 @ [''contexts'', ''0'']"
  have "(i, ?r) \<in> set (enumerate 0 (cfg_regions cfg))"
    using assms by (simp add: in_set_enumerate_eq)
  then have "set (region_writes ?c i ?r)
      \<subseteq> set (concat (map (\<lambda>(i, r). region_writes ?c i r) (enumerate 0 (cfg_regions cfg))))"
    by (simp only: set_concat set_map) blast
  moreover obtain pre post where "start_writes cfg =
      pre @ concat (map (\<lambda>(i, r). region_writes ?c i r) (enumerate 0 (cfg_regions cfg))) @ post"
    using start_writes_split [of cfg] by blast
  ultimately have "set (region_writes ?c i ?r) \<subseteq> set (start_writes cfg)"
    by (simp only: set_append) blast
  then have w1: "(?c @ [''targets'', ''0'', ''regions'', format_uint i, ''start''], format_u64 (ar_start ?r))
      \<in> set (start_writes cfg)"
    and w2: "(?c @ [''targets'', ''0'', ''regions'', format_uint i, ''end''], format_u64 (ar_end ?r + 1))
      \<in> set (start_writes cfg)"
    by (simp_all add: region_writes_def)
  have "unat (ar_end ?r + 1) = unat (ar_end ?r) + 1" if "ar_end ?r \<noteq> - 1"
    using that by (rule unat_plus_one)
  then have past: "if ar_end ?r = - 1 then ar_end ?r + 1 = 0
      else unat (ar_end ?r + 1) = unat (ar_end ?r) + 1"
    by auto
  have p: "parse_u64 (format_u64 w) = Inr w" for w by (simp add: format_u64_def)
  show ?thesis
    by (rule exI [of _ "format_u64 (ar_start ?r)"], rule exI [of _ "format_u64 (ar_end ?r + 1)"],
        rule exI [of _ "ar_start ?r"], rule exI [of _ "ar_end ?r + 1"])
      (use w1 w2 p past in \<open>simp only: append.simps append_assoc simp_thms\<close>)
qed

theorem start_writes_region_witness:
  "(0 :: nat) < length (cfg_regions sample_config)
   \<and> (\<exists>v past. parse_u64 v = Inr past \<and> unat past = 654336
       \<and> (kdamond0 @ [''contexts'', ''0'', ''targets'', ''0'', ''regions'', format_uint 0, ''end''], v)
           \<in> set (start_writes sample_config))"
proof -
  have len: "(0 :: nat) < length (cfg_regions sample_config)"
    by (simp add: sample_config_def)
  have last: "ar_end (cfg_regions sample_config ! 0) = 654335" by (simp add: sample_config_def)
  from start_writes_region [OF len] obtain v past where
    "(kdamond0 @ [''contexts'', ''0'', ''targets'', ''0'', ''regions'', format_uint 0, ''end''], v)
       \<in> set (start_writes sample_config)"
    "parse_u64 v = Inr past" "unat past = 654336"
    unfolding last by auto
  with len show ?thesis by blast
qed

section \<open>Reading back what the kernel shows\<close>

text \<open>The directory of one tried region, and the whole directory with its other files.\<close>

definition region_dir :: "region \<Rightarrow> node" where
  "region_dir r =
     Dir [(''start'', File (counter_file (r_start r))),
          (''end'', File (counter_file (r_end r))),
          (''nr_accesses'', File (format_uint (unat (nr_accesses r)) @ [newline])),
          (''age'', File (format_uint (unat (r_age r)) @ [newline]))]"

definition render_regions :: "(string \<times> node) list \<Rightarrow> region list \<Rightarrow> node" where
  "render_regions extra rs =
     Dir (extra @ map (\<lambda>(i, r). (format_uint i, region_dir r)) (enumerate 0 rs))"

definition not_numeric :: "string \<times> node \<Rightarrow> bool" where
  "not_numeric e \<longleftrightarrow> (case atoi (fst e) of Inl _ \<Rightarrow> True | Inr _ \<Rightarrow> False)"

abbreviation entry_index :: "string \<times> bool \<Rightarrow> int option" where
  "entry_index \<equiv> \<lambda>(name, dir). if \<not> dir then None
     else (case atoi name of Inl _ \<Rightarrow> None | Inr n \<Rightarrow> Some n)"

lemma map_filter_extra:
  "list_all not_numeric extra \<Longrightarrow>
     List.map_filter entry_index (map (\<lambda>(n, c). (n, is_dir c)) extra) = []"
  by (induction extra) (auto simp: not_numeric_def split: sum.splits)

lemma map_filter_indices:
  "n + length rs \<le> 2 ^ 63 \<Longrightarrow>
     List.map_filter entry_index
       (map (\<lambda>(n, c). (n, is_dir c)) (map (\<lambda>(i, r). (format_uint i, region_dir r)) (enumerate n rs)))
     = map int [n..<n + length rs]"
proof (induction rs arbitrary: n)
  case (Cons r rs)
  then have "atoi (format_uint n) = Inr (int n)" by (intro atoi_format_uint) simp
  moreover have "[n..<n + length (r # rs)] = n # [Suc n..<Suc n + length rs]"
    by (simp add: upt_conv_Cons del: upt_Suc)
  moreover have "is_dir (region_dir r)" by (simp add: region_dir_def)
  ultimately show ?case
    using Cons.IH [of "Suc n"] Cons.prems by (simp del: upt_Suc)
qed simp

lemma region_indices_render:
  assumes "list_all not_numeric extra" and "length rs \<le> 2 ^ 63"
  shows "region_indices (sort_key fst (map (\<lambda>(n, c). (n, is_dir c))
      (extra @ map (\<lambda>(i, r). (format_uint i, region_dir r)) (enumerate 0 rs)))) = map int [0..<length rs]"
proof -
  have app: "List.map_filter f (xs @ ys) = List.map_filter f xs @ List.map_filter f ys"
    for f :: "string \<times> bool \<Rightarrow> int option" and xs ys
    by (simp add: List.map_filter_def)
  have "sorted (map int [0..<length rs])" by (simp add: sorted_iff_nth_mono)
  then show ?thesis
    unfolding region_indices_def
    using map_filter_extra [OF assms(1)] map_filter_indices [of 0 rs] assms(2)
    by (intro sort_eqI) (simp_all add: mset_map_filter_sort_key app del: map_map)
qed

lemma read_uint64_counter:
  "os_read_file t p = Inr (counter_file n) \<Longrightarrow> read_uint64_file t p = Inr n"
  by (simp add: read_uint64_file_def read_sysfs_file_def counter_file_def
      trim_space_word_newline word_str_format_uint)

lemma read_uint32_counter:
  "os_read_file t p = Inr (format_uint (unat n) @ [newline]) \<Longrightarrow> read_uint32_file t p = Inr n"
proof -
  have "parse_uint 10 32 (format_uint (unat n)) = Inr (unat n)"
    using parse_uint_format_base [of 10 "unat n" 32] unat_u32_less [of n]
    by (simp add: format_uint_def)
  then show "os_read_file t p = Inr (format_uint (unat n) @ [newline]) \<Longrightarrow> ?thesis"
    by (simp add: read_uint32_file_def read_sysfs_file_def trim_space_word_newline
        word_str_format_uint)
qed

lemma read_region_render:
  assumes dir: "lookup_node t dir = Inr (render_regions extra rs)"
    and extra: "list_all not_numeric extra" and i: "i < length rs" and len: "length rs \<le> 2 ^ 63"
  shows "read_region t dir (int i) = Inr (rs ! i)"
proof -
  have "atoi (format_uint i) = Inr (int i)" using i len by (intro atoi_format_uint) simp
  then have "format_uint i \<notin> fst ` set extra"
    using extra by (auto simp: list_all_iff not_numeric_def)
  then have none: "map_of extra (format_uint i) = None" by (simp add: map_of_eq_None_iff)
  have "map_of (map (\<lambda>(i, r). (format_uint i, region_dir r)) (enumerate 0 rs)) (format_uint i)
      = Some (region_dir (rs ! i))"
    using i by (intro map_of_enumerate) (simp_all add: inj_def)
  with none dir have sub: "lookup_node t (dir @ [format_uint i]) = Inr (region_dir (rs ! i))"
    by (simp add: lookup_node_append render_regions_def map_add_def)
  have rd: "os_read_file t (dir @ [format_uint i, f]) = os_read_file (region_dir (rs ! i)) [f]" for f
    using os_read_file_append [OF sub, of "[f]"] by simp
  have "os_read_file (region_dir r) [''start''] = Inr (counter_file (r_start r))"
    "os_read_file (region_dir r) [''end''] = Inr (counter_file (r_end r))"
    "os_read_file (region_dir r) [''nr_accesses''] = Inr (format_uint (unat (nr_accesses r)) @ [newline])"
    "os_read_file (region_dir r) [''age''] = Inr (format_uint (unat (r_age r)) @ [newline])" for r
    by (simp_all add: os_read_file_def region_dir_def)
  note files = this [of "rs ! i"]
  show ?thesis
    by (simp add: read_region_def Let_def read_uint64_counter [OF trans [OF rd files(1)]]
        read_uint64_counter [OF trans [OF rd files(2)]] read_uint32_counter [OF trans [OF rd files(3)]]
        read_uint32_counter [OF trans [OF rd files(4)]])
qed

lemma read_tried_regions_render:
  assumes "lookup_node t dir = Inr (render_regions extra rs)"
    and "list_all not_numeric extra" and "length rs \<le> 2 ^ 63"
  shows "read_tried_regions t dir = Inr rs"
proof -
  have "map_res (read_region t dir) (map int [0..<length rs]) = Inr (map (\<lambda>i. rs ! nat i) (map int [0..<length rs]))"
    using assms by (intro map_res_all_Inr) (auto simp: read_region_render)
  moreover have "map (\<lambda>i. rs ! nat i) (map int [0..<length rs]) = rs"
    by (simp add: map_nth comp_def)
  ultimately show ?thesis
    using assms(1) region_indices_render [OF assms(2,3)]
    by (simp add: read_tried_regions_def os_read_dir_def render_regions_def del: map_append map_map)
qed

text \<open>
  C29: Snapshot round trip. If the kernel shows the regions \<open>rs\<close> under \<open>tried_regions\<close>, one
  numbered directory each, in any arrangement with other entries whose names are not
  numbers, then a snapshot returns exactly \<open>rs\<close>, in numeric order: \<open>10\<close> after \<open>9\<close>, although
  the directory listing has it after \<open>1\<close>.
\<close>

theorem snapshot_render:
  assumes "write_file w (kdamond s @ [''state'']) ''update_schemes_tried_regions'' = (None, w')"
    and "lookup_node (sysfs_of w') (tried_regions_dir (kdamond s)) = Inr (render_regions extra rs)"
    and "list_all not_numeric extra" and "length rs \<le> 2 ^ 63"
  shows "snapshot write_file sysfs_of s w = (Inr rs, w')"
  using assms read_tried_regions_render [OF assms(2-4)] by (simp add: snapshot_def)

text \<open>A kernel whose world is just the tree, which it leaves as it is.\<close>

definition still_kernel :: "node writer" where
  "still_kernel t p v = (None, t)"

theorem snapshot_render_witness:
  "snapshot still_kernel (\<lambda>t. t) \<lparr>kdamond = []\<rparr>
     (Dir [(''contexts'', Dir [(''0'', Dir [(''schemes'', Dir [(''0'', Dir [(''tried_regions'',
        render_regions [(''total_bytes'', File ''12288'')] sample_regions)])])])])])
   = (Inr sample_regions,
      Dir [(''contexts'', Dir [(''0'', Dir [(''schemes'', Dir [(''0'', Dir [(''tried_regions'',
        render_regions [(''total_bytes'', File ''12288'')] sample_regions)])])])])])"
  by (rule snapshot_render [where extra = "[(''total_bytes'', File ''12288'')]"])
    (simp_all add: still_kernel_def tried_regions_dir_def not_numeric_def atoi_def parse_uint_def
      digit_val_def sample_regions_def)

section \<open>Kernel versions\<close>

lemma cut_format_uint: "cut (format_uint n @ CHR ''.'' # s) ''.'' = Some (format_uint n, s)"
proof -
  have "digit_val CHR ''.'' = None" by (simp add: digit_val_def)
  then have "CHR ''.'' \<notin> set (format_uint n)" using format_uint_chars by blast
  then show ?thesis by (rule cut_char_fresh)
qed

text \<open>
  Version comparison. For a release string \<open>major.minor.rest\<close> with decimal numbers, the
  capability check compares \<open>(major, minor)\<close> with the wanted pair lexicographically, whatever
  the rest says; for every release it accepts, \<open>major\<close> and \<open>minor\<close> did parse.
\<close>

theorem kernel_at_least_version:
  assumes "major < 2 ^ 63" and "minor < 2 ^ 63"
  shows "kernel_at_least (format_uint major @ ''.'' @ format_uint minor @ ''.'' @ rest) (int M) (int m)
    \<longleftrightarrow> M < major \<or> M = major \<and> m \<le> minor"
proof -
  have "split_n CHR ''.'' 3 (format_uint major @ CHR ''.'' # format_uint minor @ CHR ''.'' # rest)
      = [format_uint major, format_uint minor, rest]"
    by (simp add: numeral_eq_Suc cut_format_uint)
  then show ?thesis
    using assms by (auto simp: kernel_at_least_def atoi_format_uint)
qed

theorem kernel_at_least_version_witness:
  "(6 :: nat) < 2 ^ 63 \<and> (8 :: nat) < 2 ^ 63
   \<and> kernel_at_least (format_uint 6 @ ''.'' @ format_uint 8 @ ''.'' @ ''0-45-generic'') (int 6) (int 2)"
  using kernel_at_least_version [of 6 8 "''0-45-generic''" 6 2] by simp

end
