(* ===== verification/Synth.thy ===== *)
theory Synth
  imports DamonSession ProcFiles
begin

text \<open>
  \<open>cmd/memaudit-synth\<close>: the tool that checks DAMON's cold-page histogram against a workload of
  known size. Sizes are \<open>uint64\<close>. Mapping and touching memory, the clock and the signal context are
  its environment: \<open>polls\<close> is the elapsed time after each wait of the loop, \<open>None\<close> when the
  context was cancelled instead.
\<close>

section \<open>Sizes\<close>

definition size_suffixes :: "(string \<times> u64) list" where
  "size_suffixes =
     [(''TiB'', 1024 * 1024 * 1024 * 1024), (''GiB'', 1024 * 1024 * 1024), (''MiB'', 1024 * 1024),
      (''KiB'', 1024)]"

fun parse_size_with :: "(string \<times> u64) list \<Rightarrow> string \<Rightarrow> err + u64" where
  "parse_size_with [] s = Inl (ErrInvalid ''suffix'')"
| "parse_size_with ((suffix, mul) # sfxs) s =
     (case cut_suffix s suffix of
        None \<Rightarrow> parse_size_with sfxs s
      | Some num_part \<Rightarrow>
          if num_part = [] then Inl (ErrInvalid ''missing number'')
          else (case parse_u64 num_part of
                  Inl e \<Rightarrow> Inl e
                | Inr n \<Rightarrow> if (- 1) div mul < n then Inl (ErrInvalid ''overflow'') else Inr (n * mul)))"

definition parse_size :: "string \<Rightarrow> err + u64" where
  "parse_size s = parse_size_with size_suffixes s"

section \<open>The expected band\<close>

definition gib :: u64 where
  "gib = 1024 * 1024 * 1024"

definition band_low_slack_bytes :: u64 where
  "band_low_slack_bytes = gib"

definition band_high_slack_bytes :: u64 where
  "band_high_slack_bytes = gib div 2"

definition band_bounds :: "u64 \<Rightarrow> u64 \<Rightarrow> u64 \<Rightarrow> err + u64 \<times> u64" where
  "band_bounds alloc_bytes hot total_bytes =
     (if alloc_bytes < hot then Inl (ErrInvalid ''hot'')
      else if total_bytes < alloc_bytes then Inl (ErrInvalid ''total'')
      else let cold = alloc_bytes - hot;
               ambient = total_bytes - alloc_bytes;
               low = (if band_low_slack_bytes < cold then cold - band_low_slack_bytes else 0);
               high = cold + ambient + band_high_slack_bytes
           in Inr (low, high))"

section \<open>Preflight\<close>

definition min_headroom_bytes :: u64 where
  "min_headroom_bytes = gib"

definition max_ambient_ratio :: u64 where
  "max_ambient_ratio = 1"

definition check_preflight :: "u64 \<Rightarrow> u64 \<Rightarrow> err option" where
  "check_preflight total_bytes alloc_bytes =
     (if total_bytes < alloc_bytes + min_headroom_bytes then Some (ErrInvalid ''headroom'')
      else if max_ambient_ratio * alloc_bytes < total_bytes - alloc_bytes then Some (ErrInvalid ''ambient'')
      else None)"

definition kdamond_state_is_on :: "string \<Rightarrow> bool" where
  "kdamond_state_is_on raw \<longleftrightarrow> trim_space raw = ''on''"

definition kdamond_state_rel_path :: path where
  "kdamond_state_rel_path = [''kernel'', ''mm'', ''damon'', ''admin'', ''kdamonds'', ''0'', ''state'']"

definition kdamond_already_running :: "node \<Rightarrow> err + bool" where
  "kdamond_already_running sys =
     (case os_read_file sys kdamond_state_rel_path of
        Inl e \<Rightarrow> if e = ErrNotExist then Inr False else Inl e
      | Inr b \<Rightarrow> Inr (kdamond_state_is_on b))"

section \<open>The run\<close>

record 'w synth_env =
  sy_meminfo :: "err + host_mem"
  sy_proc :: node
  sy_sys :: node
  sy_mmap :: "err option"
  sy_write :: "'w writer"
  sy_sysfs :: "'w \<Rightarrow> node"
  sy_polls :: "int option list"

definition min_duration :: int where
  "min_duration = 6 * 60 * 1000000000"

definition max_int :: u64 where
  "max_int = word_of_nat max_int64"

text \<open>The checks on the command line: the sizes in bytes.\<close>

definition synth_args :: "string \<Rightarrow> string \<Rightarrow> int \<Rightarrow> err + u64 \<times> u64" where
  "synth_args alloc_str hot_str duration =
     (if duration < min_duration then Inl (ErrInvalid ''duration'')
      else bind_res (parse_size alloc_str) (\<lambda>alloc_bytes.
           bind_res (parse_size hot_str) (\<lambda>hot.
             if hot = 0 then Inl (ErrInvalid ''hot'')
             else if alloc_bytes < hot then Inl (ErrInvalid ''hot'')
             else if max_int < alloc_bytes then Inl (ErrInvalid ''alloc'')
             else if max_int < hot then Inl (ErrInvalid ''hot'')
             else Inr (alloc_bytes, hot))))"

text \<open>The checks on the machine, up to the mapping.\<close>

definition synth_machine :: "'w synth_env \<Rightarrow> u64 \<Rightarrow> bool \<Rightarrow> err + unit" where
  "synth_machine E alloc_bytes force =
     bind_res (sy_meminfo E) (\<lambda>mi.
       if check_preflight (hm_MemTotal mi) alloc_bytes \<noteq> None \<and> \<not> force then Inl (ErrInvalid ''preflight'')
       else bind_res (detect_at (sy_proc E) (sy_sys E)) (\<lambda>c.
         if \<not> sysfs c then Inl (ErrInvalid ''sysfs'')
         else bind_res (kdamond_already_running (sy_sys E)) (\<lambda>running.
           if running \<and> \<not> force then Inl (ErrInvalid ''running'')
           else case sy_mmap E of Some e \<Rightarrow> Inl e | None \<Rightarrow> Inr ())))"

text \<open>The wait between two polls, in nanoseconds.\<close>

definition poll_interval :: "int \<Rightarrow> int" where
  "poll_interval duration =
     (let p = duration div 20
      in if 30 * 1000000000 < p then 30 * 1000000000 else if p < 1000000000 then 1000000000 else p)"

text \<open>
  \<open>touchHotLoop\<close>: the index the \<open>n\<close>-th pass writes, for a region of \<open>len\<close> bytes and as long
  as \<open>i\<close> does not overflow.
\<close>

definition touch_index :: "nat \<Rightarrow> nat \<Rightarrow> nat \<Rightarrow> nat" where
  "touch_index len page_size n = (n * page_size) mod len"

text \<open>
  The polling loop, from the time already elapsed: it collects after every wait and ends when the
  duration is over. \<open>None\<close> stands for a loop that still waits when \<open>polls\<close> is used up.
\<close>

fun synth_poll ::
  "'w synth_env \<Rightarrow> session \<Rightarrow> u64 \<Rightarrow> int \<Rightarrow> int \<Rightarrow> damon_hist \<Rightarrow> int option list \<Rightarrow> 'w
     \<Rightarrow> (err + damon_hist) option \<times> 'w" where
  "synth_poll E sess aggr duration elapsed lst polls w =
     (if duration \<le> elapsed then (Some (Inr lst), w)
      else case polls of
        [] \<Rightarrow> (None, w)
      | None # _ \<Rightarrow> (Some (Inl ErrCancelled), w)
      | Some t # ps \<Rightarrow>
          (case damon_collect (sy_write E) (sy_sysfs E) sess aggr w of
             (Inl e, w') \<Rightarrow> (Some (Inl e), w')
           | (Inr h, w') \<Rightarrow> synth_poll E sess aggr duration t h ps w'))"

declare synth_poll.simps [simp del]

definition in_band :: "u64 \<times> u64 \<Rightarrow> damon_hist \<Rightarrow> bool" where
  "in_band b h \<longleftrightarrow> \<not> (cold_300s h < fst b \<or> snd b < cold_300s h)"

definition synth_aggr_us :: u64 where
  "synth_aggr_us = 100000"

definition synth_damon_config :: "addr_range list \<Rightarrow> damon_config" where
  "synth_damon_config rs =
     \<lparr>ops = ''paddr'', sample_us = 5000, aggr_us = synth_aggr_us, update_us = 1000000,
      min_regions = 10, max_regions = 1000, cfg_regions = rs\<rparr>"

text \<open>With a session: the probe, the baseline, the loop and the comparison.\<close>

definition synth_measure ::
  "'w synth_env \<Rightarrow> session \<Rightarrow> u64 \<Rightarrow> u64 \<Rightarrow> int \<Rightarrow> 'w \<Rightarrow> (err + unit) option \<times> 'w" where
  "synth_measure E sess alloc_bytes hot duration w =
     (case snapshot (sy_write E) (sy_sysfs E) sess w of
        (Inl e, w1) \<Rightarrow> (Some (Inl e), w1)
      | (Inr _, w1) \<Rightarrow>
          (case damon_collect (sy_write E) (sy_sysfs E) sess synth_aggr_us w1 of
             (Inl e, w2) \<Rightarrow> (Some (Inl e), w2)
           | (Inr baseline, w2) \<Rightarrow>
               (case band_bounds alloc_bytes hot (max (monitored_bytes baseline) alloc_bytes) of
                  Inl e \<Rightarrow> (Some (Inl e), w2)
                | Inr band \<Rightarrow>
                    (case synth_poll E sess synth_aggr_us duration 0 baseline (sy_polls E) w2 of
                       (None, w3) \<Rightarrow> (None, w3)
                     | (Some (Inl e), w3) \<Rightarrow> (Some (Inl e), w3)
                     | (Some (Inr h), w3) \<Rightarrow>
                         (Some (if in_band band h then Inr () else Inl (ErrInvalid ''FAIL'')), w3)))))"

text \<open>\<open>run\<close>. Once a session has been started, the deferred \<open>Stop\<close> ends it on every path.\<close>

definition synth_run ::
  "'w synth_env \<Rightarrow> string \<Rightarrow> string \<Rightarrow> int \<Rightarrow> bool \<Rightarrow> 'w \<Rightarrow> (err + unit) option \<times> 'w" where
  "synth_run E alloc_str hot_str duration force w =
     (case synth_args alloc_str hot_str duration of
        Inl e \<Rightarrow> (Some (Inl e), w)
      | Inr (alloc_bytes, hot) \<Rightarrow>
          (case synth_machine E alloc_bytes force of
             Inl e \<Rightarrow> (Some (Inl e), w)
           | Inr _ \<Rightarrow>
               (case parse_iomem (sy_proc E) of
                  Inl e \<Rightarrow> (Some (Inl e), w)
                | Inr rs \<Rightarrow>
                    (case damon_start (sy_write E) (synth_damon_config rs) w of
                       (Inl e, w1) \<Rightarrow> (Some (Inl e), w1)
                     | (Inr sess, w1) \<Rightarrow>
                         (case synth_measure E sess alloc_bytes hot duration w1 of
                            (r, w2) \<Rightarrow> (r, if r = None then w2 else snd (damon_stop (sy_write E) sess w2)))))))"

text \<open>\<open>main\<close>, after the flags are parsed: the exit status, \<open>None\<close> while \<open>run\<close> polls.\<close>

definition synth_main ::
  "'w synth_env \<Rightarrow> bool \<Rightarrow> string \<Rightarrow> string \<Rightarrow> int \<Rightarrow> bool \<Rightarrow> 'w \<Rightarrow> nat option \<times> 'w" where
  "synth_main E show_version alloc_str hot_str duration force w =
     (if show_version then (Some 0, w)
      else case synth_run E alloc_str hot_str duration force w of
        (None, w') \<Rightarrow> (None, w')
      | (Some (Inl e), w') \<Rightarrow> (Some 1, w')
      | (Some (Inr _), w') \<Rightarrow> (Some 0, w'))"

section \<open>Sizes and bands in natural numbers\<close>

lemma parse_u64_Inr_iff:
  "parse_u64 s = Inr (w :: u64) \<longleftrightarrow>
     s \<noteq> [] \<and> digits_ok 10 s \<and> digits_value 10 0 s < 2 ^ 64 \<and> unat w = digits_value 10 0 s"
proof (cases "parse_uint 10 64 s")
  case (Inl e)
  then have "\<not> (s \<noteq> [] \<and> digits_ok 10 s \<and> digits_value 10 0 s < 2 ^ 64)"
    using parse_uint_Inr_iff [of 10 64 s "digits_value 10 0 s"] by auto
  with Inl show ?thesis by (auto simp: parse_u64_def)
next
  case (Inr n)
  then have n: "s \<noteq> []" "digits_ok 10 s" "digits_value 10 0 s < 2 ^ 64" "n = digits_value 10 0 s"
    by (simp_all add: parse_uint_Inr_iff)
  have "unat (word_of_nat n :: u64) = n"
    using n by (simp add: unsigned_of_nat take_bit_nat_eq_self)
  then have "word_of_nat n = w \<longleftrightarrow> unat w = n" by (metis word_unat_eq_iff)
  with Inr n show ?thesis by (auto simp: parse_u64_def)
qed

lemma no_overflow_iff:
  fixes n m :: u64
  assumes "m \<noteq> 0"
  shows "\<not> (- 1) div m < n \<longleftrightarrow> unat n * unat m < 2 ^ 64"
proof -
  have "unat m > 0" using assms by (simp add: unat_gt_0)
  then have "\<not> (- 1) div m < n \<longleftrightarrow> unat n \<le> unat (- 1 :: u64) div unat m"
    by (simp add: word_less_nat_alt unat_div not_less)
  also have "\<dots> \<longleftrightarrow> unat n * unat m \<le> unat (- 1 :: u64)"
    using \<open>unat m > 0\<close> by (simp add: less_eq_div_iff_mult_less_eq)
  also have "\<dots> \<longleftrightarrow> unat n * unat m < 2 ^ 64"
    by (simp add: unsigned_minus_1_eq_mask mask_eq_exp_minus_1) linarith
  finally show ?thesis .
qed

lemma cut_suffix_Some_iff: "cut_suffix s p = Some d \<longleftrightarrow> s = d @ p"
proof
  assume "cut_suffix s p = Some d"
  then show "s = d @ p"
    by (auto simp: cut_suffix_def split: if_splits dest!: has_suffixD)
qed (simp add: cut_suffix_def)

lemma parse_size_with_iff:
  "\<forall>p \<in> set l. length (fst p) = 3 \<and> snd p \<noteq> 0 \<Longrightarrow> distinct (map fst l) \<Longrightarrow>
   parse_size_with l s = Inr b \<longleftrightarrow>
     (\<exists>ds suf m. (suf, m) \<in> set l \<and> s = ds @ suf \<and> ds \<noteq> [] \<and> digits_ok 10 ds
        \<and> digits_value 10 0 ds * unat m < 2 ^ 64 \<and> unat b = digits_value 10 0 ds * unat m)"
proof (induction l)
  case (Cons p l)
  obtain suf m where p: "p = (suf, m)" by (cases p)
  have m: "m \<noteq> 0" "length suf = 3" using Cons.prems(1) p by simp_all
  show ?case
  proof (cases "cut_suffix s suf")
    case None
    then have "s \<noteq> ds @ suf" for ds by (simp flip: cut_suffix_Some_iff)
    moreover have "parse_size_with (p # l) s = parse_size_with l s" using None p by simp
    ultimately show ?thesis using Cons p by auto
  next
    case (Some ds)
    then have s: "s = ds @ suf" by (simp add: cut_suffix_Some_iff)
    have uniq: "suf' = suf \<and> ds' = ds \<and> m' = m" if "(suf', m') \<in> set (p # l)" "s = ds' @ suf'" for ds' suf' m'
    proof -
      have "length suf' = 3" using that(1) Cons.prems(1) by force
      then have "suf' = suf" "ds' = ds" using that(2) s m(2) by auto
      moreover have "(suf', m') \<notin> set l" using \<open>suf' = suf\<close> Cons.prems(2) p by force
      ultimately show ?thesis using that(1) p by auto
    qed
    have "parse_size_with (p # l) s = Inr b \<longleftrightarrow>
        ds \<noteq> [] \<and> digits_ok 10 ds \<and> digits_value 10 0 ds * unat m < 2 ^ 64
          \<and> unat b = digits_value 10 0 ds * unat m"
    proof (cases "parse_u64 ds")
      case (Inl e)
      have "\<not> (ds \<noteq> [] \<and> digits_ok 10 ds \<and> digits_value 10 0 ds < 2 ^ 64)"
        using Inl parse_u64_Inr_iff [of ds "word_of_nat (digits_value 10 0 ds)"]
        by (auto simp: unsigned_of_nat take_bit_nat_eq_self)
      moreover have "digits_value 10 0 ds < 2 ^ 64" if "digits_value 10 0 ds * unat m < 2 ^ 64"
        using that m(1) by (metis le_less_trans mult.right_neutral mult_le_mono2 not_gr0 Suc_leI One_nat_def unat_gt_0)
      ultimately show ?thesis using Some Inl p by auto
    next
      case (Inr n)
      then have n: "ds \<noteq> []" "digits_ok 10 ds" "unat n = digits_value 10 0 ds"
        by (simp_all add: parse_u64_Inr_iff)
      have "unat (n * m) = unat n * unat m" if "unat n * unat m < 2 ^ 64"
        using that iffD1 [OF unat_mult_lem, of n m] by simp
      then have "n * m = b \<longleftrightarrow> unat b = unat n * unat m" if "unat n * unat m < 2 ^ 64"
        using that by (metis word_unat_eq_iff)
      then show ?thesis
        using Some Inr p n no_overflow_iff [OF m(1), of n] by auto
    qed
    also have "\<dots> \<longleftrightarrow> (\<exists>ds suf m. (suf, m) \<in> set (p # l) \<and> s = ds @ suf \<and> ds \<noteq> [] \<and> digits_ok 10 ds
        \<and> digits_value 10 0 ds * unat m < 2 ^ 64 \<and> unat b = digits_value 10 0 ds * unat m)"
      using uniq p s by (metis list.set_intros(1))
    finally show ?thesis .
  qed
qed simp

text \<open>
  \<open>parseSize\<close> accepts exactly a non-empty decimal number followed by one of the four binary
  suffixes whose product is below 2 to the 64, and returns that product: no size wraps.
\<close>

theorem parse_size_exact:
  "parse_size s = Inr b \<longleftrightarrow>
     (\<exists>ds suf m. (suf, m) \<in> set size_suffixes \<and> s = ds @ suf \<and> ds \<noteq> [] \<and> digits_ok 10 ds
        \<and> digits_value 10 0 ds * unat m < 2 ^ 64 \<and> unat b = digits_value 10 0 ds * unat m)"
  (is "_ \<longleftrightarrow> ?R")
proof -
  have "\<forall>p \<in> set size_suffixes. length (fst p) = 3 \<and> snd p \<noteq> 0" "distinct (map fst size_suffixes)"
    by (simp_all add: size_suffixes_def)
  then show ?thesis by (simp add: parse_size_def parse_size_with_iff)
qed

text \<open>
  The expected band is exact: with a total that leaves room for the upper slack, the lower
  bound is the cold part less one GiB (zero when it is smaller), the upper bound is everything
  that is not hot plus half a GiB, so that the cold part of the workload lies in the band.
\<close>

theorem band_bounds_exact:
  assumes "band_bounds alloc_bytes hot total_bytes = Inr (low, high)"
    and "unat total_bytes + 2 ^ 29 < 2 ^ 64"
  shows "hot \<le> alloc_bytes \<and> alloc_bytes \<le> total_bytes
    \<and> unat low = (unat alloc_bytes - unat hot) - 2 ^ 30
    \<and> unat high = (unat total_bytes - unat hot) + 2 ^ 29
    \<and> low \<le> alloc_bytes - hot \<and> alloc_bytes - hot \<le> high"
proof -
  from assms(1) have le: "hot \<le> alloc_bytes" "alloc_bytes \<le> total_bytes"
    and low: "low = (if band_low_slack_bytes < alloc_bytes - hot
      then alloc_bytes - hot - band_low_slack_bytes else 0)"
    and high: "high = alloc_bytes - hot + (total_bytes - alloc_bytes) + band_high_slack_bytes"
    by (auto simp: band_bounds_def Let_def split: if_splits)
  have cold: "unat (alloc_bytes - hot) = unat alloc_bytes - unat hot"
    using le(1) by (simp add: unat_sub)
  have amb: "unat (total_bytes - alloc_bytes) = unat total_bytes - unat alloc_bytes"
    using le(2) by (simp add: unat_sub)
  have nle: "unat hot \<le> unat alloc_bytes" "unat alloc_bytes \<le> unat total_bytes"
    using le by (simp_all add: word_le_nat_alt)
  have sum: "unat (alloc_bytes - hot + (total_bytes - alloc_bytes)) = unat total_bytes - unat hot"
    using le by (simp add: unat_sub)
  have h: "unat high = unat total_bytes - unat hot + 2 ^ 29"
    unfolding high using sum nle assms(2)
    by (simp add: unat_plus_if' band_high_slack_bytes_def gib_def)
  have l: "unat low = (unat alloc_bytes - unat hot) - 2 ^ 30"
    unfolding low using cold
    by (simp add: unat_sub band_low_slack_bytes_def gib_def word_less_nat_alt word_le_nat_alt)
  show ?thesis
    using le h l cold nle unfolding word_le_nat_alt by auto
qed

theorem band_bounds_exact_witness:
  "unat (5 * gib) = 5 * 2 ^ 30 \<and> unat (8 * gib + gib div 2) = 8 * 2 ^ 30 + 2 ^ 29"
  using band_bounds_exact [of "8 * gib" "2 * gib" "10 * gib" "5 * gib" "8 * gib + gib div 2"]
  by (simp add: band_bounds_def gib_def band_low_slack_bytes_def band_high_slack_bytes_def)

text \<open>
  For a size that the command line accepts, the preflight check passes exactly on the machines
  whose memory is at least the allocation plus one GiB and at most twice the allocation.
\<close>

theorem check_preflight_exact:
  assumes "alloc_bytes \<le> max_int"
  shows "check_preflight total_bytes alloc_bytes = None \<longleftrightarrow>
    unat alloc_bytes + 2 ^ 30 \<le> unat total_bytes \<and> unat total_bytes \<le> 2 * unat alloc_bytes"
proof -
  have a: "unat alloc_bytes < 2 ^ 63"
    using assms by (simp add: max_int_def max_int64_def word_le_nat_alt)
  then have add: "unat (alloc_bytes + min_headroom_bytes) = unat alloc_bytes + 2 ^ 30"
    by (simp add: unat_plus_if' min_headroom_bytes_def gib_def)
  show ?thesis
  proof (cases "unat alloc_bytes + 2 ^ 30 \<le> unat total_bytes")
    case True
    then have "unat (total_bytes - alloc_bytes) = unat total_bytes - unat alloc_bytes"
      by (simp add: unat_sub word_le_nat_alt)
    with True add show ?thesis
      by (auto simp: check_preflight_def max_ambient_ratio_def word_less_nat_alt)
  next
    case False
    with add show ?thesis by (auto simp: check_preflight_def word_less_nat_alt)
  qed
qed

theorem check_preflight_exact_witness:
  "check_preflight (16 * gib) (8 * gib) = None \<and> check_preflight (16 * gib + 1) (8 * gib) \<noteq> None"
  using check_preflight_exact [of "8 * gib" "16 * gib"] check_preflight_exact [of "8 * gib" "16 * gib + 1"]
  by (simp add: max_int_def max_int64_def gib_def)

section \<open>The session of a run\<close>

lemma region_writes_no_state: "(p, v) \<in> set (region_writes c i r) \<Longrightarrow> last p \<noteq> ''state''"
  by (auto simp: region_writes_def Let_def)

lemma start_writes_no_state: "(p, v) \<in> set (start_writes cfg) \<Longrightarrow> last p \<noteq> ''state''"
proof -
  assume a: "(p, v) \<in> set (start_writes cfg)"
  show ?thesis
  proof (cases "\<exists>i r. (p, v) \<in> set (region_writes (kdamond0 @ [''contexts'', ''0'']) i r)")
    case True
    then show ?thesis using region_writes_no_state by blast
  next
    case False
    with a show ?thesis by (auto simp: start_writes_def Let_def kdamond0_def)
  qed
qed

abbreviation kstate :: path where
  "kstate \<equiv> kdamond0 @ [''state'']"

lemma damon_start_session: "damon_start wr cfg w = (Inr sess, w') \<Longrightarrow> kdamond sess = kdamond0"
  by (auto simp: damon_start_def split: prod.splits option.splits)

lemma damon_start_failed_off:
  assumes "damon_start (logged wr) cfg (w, []) = (Inl e, (w', log))"
  shows "(kstate, ''on'', None) \<notin> set log"
proof -
  obtain o1 w1 where w1: "wr w kstate ''off'' = (o1, w1)" by (cases "wr w kstate ''off''")
  obtain r w2 log2 where d: "do_writes (logged wr) (w1, [(kstate, ''off'', o1)]) (start_writes cfg) = (r, (w2, log2))"
    by (metis prod.exhaust)
  from do_writes_logged [OF d] obtain new where new: "log2 = [(kstate, ''off'', o1)] @ new"
    "case r of None \<Rightarrow> attempted new = start_writes cfg \<and> outcomes new = replicate (length (start_writes cfg)) None
       | Some e \<Rightarrow> (\<exists>rest. start_writes cfg = attempted new @ rest)
           \<and> outcomes new = replicate (length new - 1) None @ [Some e]"
    by blast
  have "\<exists>rest. start_writes cfg = attempted new @ rest"
  proof (cases r)
    case None
    with new(2) show ?thesis by (intro exI [of _ "[]"]) simp
  qed (use new(2) in simp)
  then obtain rest where "start_writes cfg = attempted new @ rest" by blast
  then have "set (attempted new) \<subseteq> set (start_writes cfg)" by (simp only: set_append Un_upper1)
  then have n: "(kstate, v, x) \<notin> set new" for v x
    using start_writes_no_state [of kstate v cfg] by force
  from assms w1 d show ?thesis
    by (auto simp: damon_start_def new(1) n split: option.splits prod.splits)
qed

text \<open>
  C35: The tool never leaves the monitor running. In every run that ends, on whatever path, the
  write \<open>on\<close> to the monitor's state is either never accepted or is followed by the final write
  \<open>off\<close>, for every behaviour of the kernel, the clock and the cancellation.
\<close>

theorem synth_run_stops:
  assumes "synth_run (E \<lparr>sy_write := logged wr\<rparr>) alloc_str hot_str duration force (w, []) = (Some r, (w', log))"
    and "(kstate, ''on'', None) \<in> set log"
  shows "\<exists>out. last log = (kstate, ''off'', out)"
proof -
  let ?E = "E \<lparr>sy_write := logged wr\<rparr>"
  obtain rs sess w1 w2 where st:
    "damon_start (logged wr) (synth_damon_config rs) (w, []) = (Inr sess, w1)"
    "snd (damon_stop (logged wr) sess w2) = (w', log)"
    using assms
    by (auto simp: synth_run_def split: sum.splits prod.splits dest!: damon_start_failed_off)
  then have "kdamond sess = kdamond0" by (blast dest: damon_start_session)
  with st(2) show ?thesis
    by (cases w2) (auto simp: damon_stop_def split: prod.splits)
qed

definition small_regions :: "region list" where
  "small_regions =
     [\<lparr>r_start = 0, r_end = gib, nr_accesses = 0, r_age = 4000\<rparr>,
      \<lparr>r_start = gib, r_end = 2 * gib, nr_accesses = 9, r_age = 3\<rparr>]"

definition small_sysfs :: node where
  "small_sysfs =
     fold (\<lambda>name t. Dir [(name, t)])
       (rev (tried_regions_dir kdamond0)) (render_regions [] small_regions)"

definition small_meminfo :: host_mem where
  "small_meminfo =
     \<lparr>hm_MemTotal = 3221225472, hm_MemFree = 0, hm_MemAvailable = 0, hm_Buffers = 0,
      hm_Cached = 0, hm_SwapCached = 0, hm_SwapTotal = 0, hm_SwapFree = 0, hm_Active = 0,
      hm_Inactive = 0, hm_ActiveAnon = 0, hm_InactiveAnon = 0, hm_ActiveFile = 0,
      hm_InactiveFile = 0, hm_Unevictable = 0, hm_Dirty = 0, hm_Writeback = 0,
      hm_AnonPages = 0, hm_Mapped = 0, hm_Shmem = 0, hm_KReclaimable = 0, hm_Slab = 0,
      hm_SReclaimable = 0, hm_SUnreclaim = 0, hm_KernelStack = 0, hm_PageTables = 0,
      hm_CommitLimit = 0, hm_CommittedAS = 0, hm_DirectMap4k = 0, hm_DirectMap2M = 0,
      hm_DirectMap1G = 0\<rparr>"

definition small_ranges :: "addr_range list" where
  "small_ranges = [\<lparr>ar_start = 0, ar_end = 2147483647\<rparr>]"

definition small_proc :: node where
  "small_proc =
     Dir [(''iomem'', File (unlines (map (\<lambda>r. render_iomem_line (Ram 0 r)) small_ranges))),
          (''sys'', Dir [(''kernel'', Dir [(''osrelease'', File ''6.8.0'')])])]"

definition small_env :: "'w writer \<Rightarrow> 'w synth_env" where
  "small_env wr =
     \<lparr>sy_meminfo = Inr small_meminfo, sy_proc = small_proc,
      sy_sys = Dir [(''kernel'', Dir [(''mm'', Dir [(''damon'', Dir [(''admin'', Dir [(''kdamonds'',
        Dir [(''nr_kdamonds'', File ''0'')])])])])])], sy_mmap = None,
      sy_write = wr, sy_sysfs = (\<lambda>_. small_sysfs),
      sy_polls = [Some 30000000000, Some 400000000000]\<rparr>"

lemma small_args: "synth_args ''2GiB'' ''1GiB'' min_duration = Inr (2 * gib, gib)"
  by (simp add: synth_args_def parse_size_def size_suffixes_def cut_suffix_def has_suffix_def
      parse_u64_def parse_uint_def digit_val_def max_int_def max_int64_def gib_def)

lemma small_caps: "\<exists>c. detect_at (sy_proc (small_env wr)) (sy_sys (small_env wr)) = Inr c \<and> sysfs c"
  by (simp add: detect_at_def small_env_def small_proc_def sysfs_admin_root_def read_kernel_release_def os_stat_def
      os_read_file_def)

lemma small_iomem: "parse_iomem (sy_proc (small_env wr)) = Inr small_ranges"
proof -
  have "parse_iomem (sy_proc (small_env wr)) =
      parse_iomem_reader (unlines (map render_iomem_line (map (Ram 0) small_ranges)))"
    by (simp add: parse_iomem_def parse_iomem_file_def small_env_def small_proc_def os_read_file_def o_def)
  also have "\<dots> = Inr (List.map_filter ram_of (map (Ram 0) small_ranges))"
    by (rule parse_iomem_rendered) (simp add: small_ranges_def)
  finally show ?thesis by (simp add: small_ranges_def map_filter_simps)
qed

lemma small_machine: "synth_machine (small_env wr) (2 * gib) False = Inr ()"
proof -
  obtain c where c: "detect_at (sy_proc (small_env wr)) (sy_sys (small_env wr)) = Inr c" "sysfs c"
    using small_caps by blast
  have "sy_meminfo (small_env wr) = Inr small_meminfo" "sy_mmap (small_env wr) = None"
    by (simp_all add: small_env_def)
  moreover have "kdamond_already_running (sy_sys (small_env wr)) = Inr False"
    by (simp add: small_env_def kdamond_already_running_def kdamond_state_rel_path_def os_read_file_def)
  moreover have "check_preflight (hm_MemTotal small_meminfo) (2 * gib) = None"
    by (simp add: small_meminfo_def check_preflight_def min_headroom_bytes_def gib_def max_ambient_ratio_def)
  ultimately show ?thesis using c by (simp add: synth_machine_def)
qed

definition accepts :: "unit writer" where
  "accepts w p v = (None, w)"

lemma do_writes_accepts: "do_writes accepts w ws = (None, w)"
  by (induction ws) (auto simp: accepts_def)

lemma start_accepts: "damon_start accepts cfg w = (Inr \<lparr>kdamond = kdamond0\<rparr>, w)"
  by (simp add: damon_start_def do_writes_accepts) (simp add: accepts_def)


lemma snapshot_small: "snapshot accepts (\<lambda>_. small_sysfs) \<lparr>kdamond = kdamond0\<rparr> w = (Inr small_regions, w)"
proof -
  have "lookup_node small_sysfs (tried_regions_dir kdamond0) = Inr (render_regions [] small_regions)"
    by (simp add: small_sysfs_def tried_regions_dir_def kdamond0_def sysfs_admin_root_def)
  from read_tried_regions_render [OF this] show ?thesis
    by (simp add: snapshot_def accepts_def small_regions_def)
qed

lemma small_bucket:
  "bucket_regions small_regions synth_aggr_us =
     \<lparr>monitored_bytes = 2 * gib, hot_bytes = gib, cold_60s = gib, cold_300s = gib, cold_1h = 0,
      cold_6h = 0, cold_24h = 0\<rparr>"
  by (simp add: bucket_regions_def small_regions_def synth_aggr_us_def gib_def bucket_region_def cold_thresholds_us_def Let_def)

lemma collect_small:
  "damon_collect accepts (\<lambda>_. small_sysfs) \<lparr>kdamond = kdamond0\<rparr> synth_aggr_us w =
     (Inr (bucket_regions small_regions synth_aggr_us), w)"
  by (simp add: damon_collect_def snapshot_small)

lemma small_run: "synth_run (small_env accepts) ''2GiB'' ''1GiB'' min_duration False w = (Some (Inr ()), w)"
  apply (simp add: synth_run_def small_args small_machine small_iomem)
  apply (simp add: small_env_def start_accepts synth_measure_def snapshot_small collect_small small_bucket
     synth_poll.simps band_bounds_def in_band_def min_duration_def gib_def band_low_slack_bytes_def
     band_high_slack_bytes_def damon_stop_def accepts_def)
  done

text \<open>
  The loop returns the last collection, taken at a time at which the duration was over.
\<close>

lemma synth_poll_result:
  "synth_poll E sess aggr duration elapsed lst polls w = (Some (Inr h), w') \<Longrightarrow>
     elapsed < duration \<Longrightarrow>
     (\<exists>t w1. Some t \<in> set polls \<and> duration \<le> t
        \<and> damon_collect (sy_write E) (sy_sysfs E) sess aggr w1 = (Inr h, w'))"
proof (induction E sess aggr duration elapsed lst polls w rule: synth_poll.induct)
  case (1 E sess aggr duration elapsed lst polls w)
  from "1.prems" obtain t ps h1 w1 where p: "polls = Some t # ps"
    "damon_collect (sy_write E) (sy_sysfs E) sess aggr w = (Inr h1, w1)"
    "synth_poll E sess aggr duration t h1 ps w1 = (Some (Inr h), w')"
    by (subst (asm) synth_poll.simps) (auto split: list.splits option.splits prod.splits sum.splits)
  show ?case
  proof (cases "t < duration")
    case True
    with "1.IH" "1.prems" p show ?thesis
      by (metis leD list.set_intros(2))
  next
    case False
    then have "h1 = h \<and> w1 = w'" using p(3) by (simp add: synth_poll.simps)
    with False p show ?thesis by (auto simp: not_less)
  qed
qed



text \<open>A run on a kernel that accepts every write but shows no regions.\<close>

lemma do_writes_logged_accepts:
  "do_writes (logged accepts) (w, log) ws = (None, (w, log @ map (\<lambda>(p, v). (p, v, None)) ws))"
  by (induction ws arbitrary: log) (auto simp: accepts_def)

theorem synth_run_stops_witness:
  "\<exists>r log out. synth_run (small_env (logged accepts) \<lparr>sy_sysfs := \<lambda>_. Dir [], sy_write := logged accepts\<rparr>)
       ''2GiB'' ''1GiB'' min_duration False ((), []) = (Some r, ((), log))
     \<and> (kstate, ''on'', None) \<in> set log \<and> last log = (kstate, ''off'', out)"
proof -
  let ?wr = "logged accepts"
  have no_regions: "\<exists>e. read_tried_regions (Dir []) (tried_regions_dir kdamond0) = Inl e"
    by (simp add: read_tried_regions_def os_read_dir_def tried_regions_dir_def kdamond0_def sysfs_admin_root_def)
  then obtain e where no_regions: "read_tried_regions (Dir []) (tried_regions_dir kdamond0) = Inl e" by blast
  let ?E = "small_env ?wr \<lparr>sy_sysfs := \<lambda>_. Dir [], sy_write := ?wr\<rparr>"
  have "synth_machine ?E (2 * gib) False = Inr ()"
    using small_machine [of ?wr] by (simp add: synth_machine_def cong del: if_weak_cong)
  then have "\<exists>r log. synth_run ?E
       ''2GiB'' ''1GiB'' min_duration False ((), []) = (Some r, ((), log)) \<and> (kstate, ''on'', None) \<in> set log"
    by (simp add: synth_run_def small_args small_iomem) (simp add: small_env_def no_regions synth_measure_def snapshot_def damon_start_def
        do_writes_logged_accepts accepts_def damon_stop_def)
  then obtain r log where run: "synth_run ?E
       ''2GiB'' ''1GiB'' min_duration False ((), []) = (Some r, ((), log))"
    and on: "(kstate, ''on'', None) \<in> set log" by blast
  from synth_run_stops [OF run on] obtain out where "last log = (kstate, ''off'', out)" by blast
  with run on show ?thesis by (intro exI conjI)
qed

end
