(* ===== verification/Glob.thy ===== *)
theory Glob
  imports HostTree
begin

text \<open>
  The selection of cgroups by glob: the matching part of \<open>internal/collector/cgroup.go\<close>, over
  \<open>filepath.Match\<close> of the standard library, and the interface between the two.
\<close>

section \<open>\<open>filepath.Match\<close>\<close>

definition rune_error :: nat where
  "rune_error = 65533"

definition separator :: char where
  "separator = CHR ''/''"

definition escape :: char where
  "escape = CHR 0x5C"

text \<open>
  \<open>scanChunk\<close>: whether the pattern starts with stars, the pattern up to the next star outside
  brackets, and the rest.
\<close>

fun split_chunk :: "bool \<Rightarrow> string \<Rightarrow> string \<times> string" where
  "split_chunk inrange [] = ([], [])"
| "split_chunk inrange (c # cs) =
     (if c = escape then
        (case cs of [] \<Rightarrow> ([c], [])
         | d # ds \<Rightarrow> (case split_chunk inrange ds of (a, b) \<Rightarrow> (c # d # a, b)))
      else if c = CHR ''*'' \<and> \<not> inrange then ([], c # cs)
      else (case split_chunk (if c = CHR ''['' then True else if c = CHR '']'' then False else inrange) cs of
              (a, b) \<Rightarrow> (c # a, b)))"

definition scan_chunk :: "string \<Rightarrow> bool \<times> string \<times> string" where
  "scan_chunk pattern =
     (case split_chunk False (dropWhile (\<lambda>c. c = CHR ''*'') pattern) of
        (chunk, rest) \<Rightarrow> (pattern \<noteq> [] \<and> hd pattern = CHR ''*'', chunk, rest))"

text \<open>\<open>getEsc\<close>: one character of a bracket expression; \<open>None\<close> is \<open>ErrBadPattern\<close>.\<close>

definition get_esc :: "string \<Rightarrow> (nat \<times> string) option" where
  "get_esc chunk =
     (if chunk = [] \<or> hd chunk = CHR ''-'' \<or> hd chunk = CHR '']'' then None
      else (let chunk' = (if hd chunk = escape then tl chunk else chunk)
            in if chunk' = [] then None
               else (case decode_rune chunk' of (r, n) \<Rightarrow>
                  if r = rune_error \<and> n = 1 then None
                  else if drop n chunk' = [] then None
                  else Some (r, drop n chunk'))))"

lemma get_esc_shorter: "get_esc chunk = Some (r, rest) \<Longrightarrow> length rest < length chunk \<and> rest \<noteq> []"
proof -
  assume a: "get_esc chunk = Some (r, rest)"
  have "0 < snd (decode_rune u)" if "u \<noteq> []" for u using decode_rune_pos that by blast
  with a show ?thesis
    by (fastforce simp: get_esc_def Let_def split: if_splits prod.splits)
qed

text \<open>The ranges of a bracket expression; the result is what follows it and whether \<open>r\<close> is in one.\<close>

function class_ranges :: "nat \<Rightarrow> bool \<Rightarrow> bool \<Rightarrow> string \<Rightarrow> (string \<times> bool) option" where
  "class_ranges r first found chunk =
     (if chunk \<noteq> [] \<and> hd chunk = CHR '']'' \<and> \<not> first then Some (tl chunk, found)
      else case get_esc chunk of
        None \<Rightarrow> None
      | Some (lo, c1) \<Rightarrow>
          if hd c1 = CHR ''-'' then
            (case get_esc (tl c1) of
               None \<Rightarrow> None
             | Some (hi, c2) \<Rightarrow> class_ranges r False (found \<or> lo \<le> r \<and> r \<le> hi) c2)
          else class_ranges r False (found \<or> r = lo) c1)"
  by pat_completeness auto
termination
  by (relation "measure (\<lambda>(r, f, m, chunk). length chunk)")
    (auto dest!: get_esc_shorter simp: length_tl)

declare class_ranges.simps [simp del]

lemma class_ranges_shorter:
  "class_ranges r first found chunk = Some (rest, m) \<Longrightarrow> length rest < length chunk"
proof (induction r first found chunk rule: class_ranges.induct)
  case (1 r first found chunk)
  show ?case
  proof (cases "chunk \<noteq> [] \<and> hd chunk = CHR '']'' \<and> \<not> first")
    case True
    with 1(3) show ?thesis by (auto simp: class_ranges.simps [of r False found chunk] length_tl)
  next
    case no_end: False
    with 1(3) obtain lo c1 where lo: "get_esc chunk = Some (lo, c1)"
      by (auto simp: class_ranges.simps [of r first found chunk] split: if_splits option.splits)
    note l1 = get_esc_shorter [OF lo]
    show ?thesis
    proof (cases "hd c1 = CHR ''-''")
      case True
      with 1(3) no_end lo obtain hi c2 where hi: "get_esc (tl c1) = Some (hi, c2)"
        and rec: "class_ranges r False (found \<or> lo \<le> r \<and> r \<le> hi) c2 = Some (rest, m)"
        by (auto simp: class_ranges.simps [of r first found chunk] split: if_splits option.splits)
      from 1(1) [OF no_end lo refl True hi refl rec] get_esc_shorter [OF hi] l1 show ?thesis
        by (auto simp: length_tl)
    next
      case False
      with 1(3) no_end lo have rec: "class_ranges r False (found \<or> r = lo) c1 = Some (rest, m)"
        by (auto simp: class_ranges.simps [of r first found chunk] split: if_splits)
      from 1(2) [OF no_end lo refl False rec] l1 show ?thesis by simp
    qed
  qed
qed

text \<open>
  \<open>matchChunk\<close>. The string is \<open>None\<close> once the match has failed: the rest of the chunk is then
  only checked. The outer \<open>None\<close> is \<open>ErrBadPattern\<close>.
\<close>

function match_chunk :: "string \<Rightarrow> string option \<Rightarrow> string option option" where
  "match_chunk [] s = Some s"
| "match_chunk (c # cs) s =
     (let s = (if s = Some [] then None else s) in
      if c = CHR ''['' then
        (let r = (case s of None \<Rightarrow> 0 | Some u \<Rightarrow> fst (decode_rune u));
             s1 = (case s of None \<Rightarrow> None | Some u \<Rightarrow> Some (drop (snd (decode_rune u)) u));
             neg = (cs \<noteq> [] \<and> hd cs = CHR ''^'')
         in case class_ranges r True False (if neg then tl cs else cs) of
              None \<Rightarrow> None
            | Some (rest, m) \<Rightarrow> match_chunk rest (if m = neg then None else s1))
      else if c = CHR ''?'' then
        match_chunk cs (case s of None \<Rightarrow> None
          | Some u \<Rightarrow> if hd u = separator then None else Some (drop (snd (decode_rune u)) u))
      else if c = escape then
        (case cs of
           [] \<Rightarrow> None
         | d # ds \<Rightarrow> match_chunk ds (case s of None \<Rightarrow> None | Some u \<Rightarrow> if hd u = d then Some (tl u) else None))
      else match_chunk cs (case s of None \<Rightarrow> None | Some u \<Rightarrow> if hd u = c then Some (tl u) else None))"
  by pat_completeness auto
termination
  by (relation "measure (\<lambda>(chunk, s). length chunk)")
    (auto dest!: class_ranges_shorter simp: length_tl split: if_splits)

text \<open>
  \<open>Match\<close>, for the code's \<open>err != nil || !ok\<close>: whether it matches without error. After a star
  the chunk is tried at every later position up to the next separator.
\<close>

fun try_after :: "string \<Rightarrow> bool \<Rightarrow> string \<Rightarrow> string option option" where
  "try_after chunk lastc [] = Some None"
| "try_after chunk lastc (c # cs) =
     (if c = separator then Some None
      else case match_chunk chunk (Some cs) of
        None \<Rightarrow> None
      | Some (Some t) \<Rightarrow> if lastc \<and> t \<noteq> [] then try_after chunk lastc cs else Some (Some t)
      | Some None \<Rightarrow> try_after chunk lastc cs)"

lemma split_chunk_length: "split_chunk b p = (a, r) \<Longrightarrow> length a + length r = length p"
  by (induction b p arbitrary: a r rule: split_chunk.induct)
    (auto split: if_splits list.splits prod.splits)

lemma split_chunk_empty: "split_chunk False p = ([], r) \<Longrightarrow> p = [] \<or> hd p = CHR ''*''"
  by (cases p) (auto split: if_splits list.splits prod.splits)

lemma scan_chunk_shorter:
  assumes "scan_chunk pattern = (star, chunk, rest)" and "pattern \<noteq> []"
  shows "length rest < length pattern"
proof -
  let ?p = "dropWhile (\<lambda>c. c = CHR ''*'') pattern"
  have sp: "split_chunk False ?p = (chunk, rest)" and star: "star = (hd pattern = CHR ''*'')"
    using assms by (auto simp: scan_chunk_def split: prod.splits)
  have le: "length ?p \<le> length pattern" by (rule length_dropWhile_le)
  show ?thesis
  proof (cases "chunk = []")
    case False
    then show ?thesis using split_chunk_length [OF sp] le by (cases chunk) auto
  next
    case True
    with split_chunk_empty [of ?p rest] sp have "?p = [] \<or> hd ?p = CHR ''*''" by simp
    then have "?p = []" by (metis (mono_tags, lifting) hd_dropWhile)
    then have "length chunk + length rest = 0"
      using split_chunk_length [OF sp] by (simp only: list.size)
    then show ?thesis using assms(2) by simp
  qed
qed

function filepath_match :: "string \<Rightarrow> string \<Rightarrow> bool" where
  "filepath_match pattern name =
     (if pattern = [] then name = []
      else case scan_chunk pattern of (star, chunk, rest) \<Rightarrow>
        if star \<and> chunk = [] then separator \<notin> set name
        else case match_chunk chunk (Some name) of
          None \<Rightarrow> False
        | Some q \<Rightarrow>
            if q \<noteq> None \<and> (the q = [] \<or> rest \<noteq> []) then filepath_match rest (the q)
            else if star then
              (case try_after chunk (rest = []) name of
                 Some (Some t) \<Rightarrow> filepath_match rest t
               | _ \<Rightarrow> False)
            else False)"
  by pat_completeness auto
termination
  by (relation "measure (\<lambda>(pattern, name). length pattern)") (auto dest: scan_chunk_shorter [OF sym])

declare filepath_match.simps [simp del]

section \<open>Globs over cgroup paths\<close>

definition double_star :: string where
  "double_star = ''**''"

fun match_glob :: "string list \<Rightarrow> string list \<Rightarrow> bool" where
  "match_glob [] segs = (segs = [])"
| "match_glob (p # ps) segs =
     (if p = double_star then
        match_glob ps segs \<or> (case segs of [] \<Rightarrow> False | s # ss \<Rightarrow> match_glob (p # ps) ss)
      else (case segs of [] \<Rightarrow> False | s # ss \<Rightarrow> filepath_match p s \<and> match_glob ps ss))"

definition matches_any :: "string list \<Rightarrow> string list list \<Rightarrow> bool" where
  "matches_any segs globs \<longleftrightarrow> (\<exists>g \<in> set globs. match_glob g segs)"

fun is_possible_prefix :: "string list \<Rightarrow> string list \<Rightarrow> bool" where
  "is_possible_prefix [] pattern = True"
| "is_possible_prefix (s # ss) [] = False"
| "is_possible_prefix (s # ss) (p # ps) =
     (if p = double_star then True else filepath_match p s \<and> is_possible_prefix ss ps)"

definition is_possible_prefix_for_any :: "string list \<Rightarrow> string list list \<Rightarrow> bool" where
  "is_possible_prefix_for_any segs globs \<longleftrightarrow> (\<exists>g \<in> set globs. is_possible_prefix segs g)"

text \<open>
  What the walk needs of a selection: descending below a path may only be refused if nothing
  below it is selected.
\<close>

locale path_selection =
  fixes selects :: "string list \<Rightarrow> bool" and promising :: "string list \<Rightarrow> bool"
  assumes sound: "selects (segs @ ext) \<Longrightarrow> promising segs"
begin

lemma refused_below: "\<not> promising segs \<Longrightarrow> filter selects (map (\<lambda>ext. segs @ ext) exts) = []"
  using sound by (auto simp: filter_empty_conv)

end

lemma match_prefix: "match_glob p (segs @ ext) \<Longrightarrow> is_possible_prefix segs p"
proof (induction segs arbitrary: p)
  case (Cons s ss)
  then show ?case by (cases p) (auto split: if_splits)
qed simp

interpretation globs: path_selection "\<lambda>segs. matches_any segs gs" "\<lambda>segs. is_possible_prefix_for_any segs gs"
  for gs
  by unfold_locales (auto simp: matches_any_def is_possible_prefix_for_any_def intro: match_prefix)

end
