(* ===== verification/K8s.thy ===== *)
theory K8s
  imports Effects GoStrings "HOL-Library.AList"
begin

text \<open>
  \<open>internal/k8s\<close>: the pod UID and container id in a cgroup path (\<open>paths.go\<close>) and the kubelet
  client with its cache (\<open>kubelet.go\<close>). The two regular expressions are modelled by functions
  on the segment and proved equal to what the expressions say. The kubelet's answers are a
  sequence of fetch results; TLS set-up and JSON decoding of \<open>/pods\<close> are not modelled. A Go map
  is an association list, read with \<open>map_of\<close>.
\<close>

section \<open>Paths\<close>

definition is_lower :: "char \<Rightarrow> bool" where
  "is_lower c \<longleftrightarrow> 97 \<le> (of_char c :: nat) \<and> (of_char c :: nat) \<le> 122"

definition is_hex :: "char \<Rightarrow> bool" where
  "is_hex c \<longleftrightarrow> 48 \<le> (of_char c :: nat) \<and> (of_char c :: nat) \<le> 57
     \<or> 97 \<le> (of_char c :: nat) \<and> (of_char c :: nat) \<le> 102"

definition is_uid_char :: "char \<Rightarrow> bool" where
  "is_uid_char c \<longleftrightarrow> is_hex c \<or> c = CHR ''_''"

text \<open>The text between a fixed start and end, if it is a non-empty run of the given characters.\<close>

definition enclosed :: "string \<Rightarrow> string \<Rightarrow> (char \<Rightarrow> bool) \<Rightarrow> string \<Rightarrow> string option" where
  "enclosed pre post ok s =
     (if \<not> has_prefix s pre then None
      else let r = trim_prefix s pre
           in if \<not> has_suffix r post then None
              else let u = trim_suffix r post in if u \<noteq> [] \<and> list_all ok u then Some u else None)"

text \<open>\<open>podSliceRE\<close>: \<open>^kubepods-(?:[a-z]+-)?pod([0-9a-f_]+)\.slice$\<close>.\<close>

definition pod_slice :: "string \<Rightarrow> string option" where
  "pod_slice seg =
     (if \<not> has_prefix seg ''kubepods-'' then None
      else let body = trim_prefix seg ''kubepods-''
           in case cut body ''-'' of
                None \<Rightarrow> enclosed ''pod'' ''.slice'' is_uid_char body
              | Some (qos, r) \<Rightarrow>
                  if qos \<noteq> [] \<and> list_all is_lower qos then enclosed ''pod'' ''.slice'' is_uid_char r
                  else None)"

text \<open>\<open>containerScopeRE\<close>: \<open>^(?:cri-containerd|crio|docker)-([0-9a-f]+)\.scope$\<close>.\<close>

definition container_scope :: "string \<Rightarrow> string option" where
  "container_scope seg =
     (case enclosed ''cri-containerd-'' ''.scope'' is_hex seg of
        Some u \<Rightarrow> Some u
      | None \<Rightarrow>
          (case enclosed ''crio-'' ''.scope'' is_hex seg of
             Some u \<Rightarrow> Some u
           | None \<Rightarrow> enclosed ''docker-'' ''.scope'' is_hex seg))"

fun first_match :: "(string \<Rightarrow> string option) \<Rightarrow> string list \<Rightarrow> string option" where
  "first_match m [] = None"
| "first_match m (s # ss) = (case m s of None \<Rightarrow> first_match m ss | Some u \<Rightarrow> Some u)"

definition unescape_uid :: "string \<Rightarrow> string" where
  "unescape_uid u = map (\<lambda>c. if c = CHR ''_'' then CHR ''-'' else c) u"

definition pod_uid :: "string \<Rightarrow> string option" where
  "pod_uid cgroup_path = map_option unescape_uid (first_match pod_slice (split_on CHR ''/'' cgroup_path))"

definition container_id :: "string \<Rightarrow> string option" where
  "container_id cgroup_path = first_match container_scope (split_on CHR ''/'' cgroup_path)"

section \<open>The kubelet client\<close>

type_synonym labels = "(string \<times> string) list"

record pod_meta =
  pod_Namespace :: string
  pod_Name :: string
  pod_Labels :: labels

record pod_item =
  item_UID :: string
  item_Namespace :: string
  item_Name :: string
  item_Labels :: labels

text \<open>
  The client with its environment: the clock, what the next requests will be answered with (a
  transport error, or a status code and the decoded body), and the requests made so far, each
  with its URL and \<open>Authorization\<close> header.
\<close>

datatype pods_reply =
    NoReply err
  | Reply int "err + pod_item list"

record kubelet =
  base_url :: string
  token :: string
  label_keys :: "string list"
  cache_ttl :: int
  pod_cache :: "(string \<times> pod_meta) list option"
  cached_at :: int
  k_now :: int
  replies :: "pods_reply list"
  requests :: "(string \<times> string option) list"

definition default_cache_ttl :: int where
  "default_cache_ttl = 60 * 1000000000"

definition new_kubelet ::
  "string \<Rightarrow> string \<Rightarrow> string list \<Rightarrow> int \<Rightarrow> int \<Rightarrow> pods_reply list \<Rightarrow> kubelet" where
  "new_kubelet url tok keys ttl t rs =
     \<lparr>base_url = trim_suffix url ''/'', token = tok, label_keys = remdups keys,
      cache_ttl = (if ttl \<le> 0 then default_cache_ttl else ttl),
      pod_cache = None, cached_at = 0, k_now = t, replies = rs, requests = []\<rparr>"

definition filter_labels :: "labels \<Rightarrow> string list \<Rightarrow> labels" where
  "filter_labels ls allow =
     (if ls = [] \<or> allow = [] then []
      else List.map_filter (\<lambda>k. case map_of ls k of None \<Rightarrow> None | Some v \<Rightarrow> Some (k, v)) allow)"

definition http_get :: "string \<Rightarrow> string option \<Rightarrow> (kubelet, int \<times> (err + pod_item list)) act" where
  "http_get url auth c =
     (let c' = c\<lparr>requests := requests c @ [(url, auth)], replies := tl (replies c)\<rparr>
      in case replies c of
           [] \<Rightarrow> (Inl ErrNet, c')
         | NoReply e # _ \<Rightarrow> (Inl e, c')
         | Reply st body # _ \<Rightarrow> (Inr (st, body), c'))"

definition fetch_pods :: "(kubelet, pod_item list) act" where
  "fetch_pods =
     bind_act (get_act (\<lambda>c. (base_url c, token c))) (\<lambda>(url, tok).
     bind_act (http_get (url @ ''/pods'') (if tok \<noteq> [] then Some (''Bearer '' @ tok) else None)) (\<lambda>(st, body).
       if st \<noteq> 200 then fail (ErrStatus (nat st))
       else case body of Inl e \<Rightarrow> fail e | Inr items \<Rightarrow> ret items))"

definition meta_of :: "string list \<Rightarrow> pod_item \<Rightarrow> pod_meta" where
  "meta_of keys it =
     \<lparr>pod_Namespace = item_Namespace it, pod_Name = item_Name it,
      pod_Labels = filter_labels (item_Labels it) keys\<rparr>"

definition build_cache :: "string list \<Rightarrow> pod_item list \<Rightarrow> (string \<times> pod_meta) list" where
  "build_cache keys items = foldl (\<lambda>m it. AList.update (item_UID it) (meta_of keys it) m) [] items"

definition stale :: "kubelet \<Rightarrow> bool" where
  "stale c \<longleftrightarrow> pod_cache c = None \<or> cache_ttl c \<le> k_now c - cached_at c"

definition refresh_if_stale :: "(kubelet, unit) act" where
  "refresh_if_stale =
     bind_act (get_act stale) (\<lambda>st.
       if \<not> st then ret ()
       else bind_act fetch_pods (\<lambda>items.
         upd_act (\<lambda>c. c\<lparr>pod_cache := Some (build_cache (label_keys c) items), cached_at := k_now c\<rparr>)))"

definition lookup_pod :: "string \<Rightarrow> (kubelet, pod_meta option) act" where
  "lookup_pod uid =
     bind_act refresh_if_stale (\<lambda>_.
       get_act (\<lambda>c. case pod_cache c of None \<Rightarrow> None | Some m \<Rightarrow> map_of m uid))"

section \<open>Lemmas\<close>

lemma has_prefix_iff: "has_prefix s p \<longleftrightarrow> (\<exists>t. s = p @ t)"
  by (auto dest: has_prefixD simp: has_prefix_append)

lemma has_suffix_iff: "has_suffix s p \<longleftrightarrow> (\<exists>t. s = t @ p)"
  by (auto dest: has_suffixD simp: has_suffix_append)

lemma enclosed_iff:
  "enclosed pre post ok s = Some u \<longleftrightarrow> s = pre @ u @ post \<and> u \<noteq> [] \<and> list_all ok u"
proof
  assume "enclosed pre post ok s = Some u"
  then show "s = pre @ u @ post \<and> u \<noteq> [] \<and> list_all ok u"
    by (auto simp: enclosed_def Let_def has_prefix_iff has_suffix_iff split: if_splits)
next
  assume "s = pre @ u @ post \<and> u \<noteq> [] \<and> list_all ok u"
  then show "enclosed pre post ok s = Some u"
    by (auto simp: enclosed_def Let_def has_prefix_append has_suffix_append)
qed

text \<open>What the two expressions say.\<close>

lemma lower_no_dash: "list_all is_lower q \<Longrightarrow> CHR ''-'' \<notin> set q"
  by (auto simp: list_all_iff is_lower_def)

lemma uid_no_dash: "list_all is_uid_char u \<Longrightarrow> CHR ''-'' \<notin> set u"
  by (auto simp: list_all_iff is_uid_char_def is_hex_def)

text \<open>The slice of a pod, read through the two branches of the optional class segment.\<close>

lemma pod_slice_body:
  "pod_slice (''kubepods-'' @ body) =
     (case cut body ''-'' of
        None \<Rightarrow> enclosed ''pod'' ''.slice'' is_uid_char body
      | Some (qos, r) \<Rightarrow>
          if qos \<noteq> [] \<and> list_all is_lower qos then enclosed ''pod'' ''.slice'' is_uid_char r
          else None)"
  by (simp only: pod_slice_def Let_def has_prefix_append trim_prefix_append not_True_eq_False if_False)

definition pod_shape :: "string \<Rightarrow> string \<Rightarrow> string \<Rightarrow> bool" where
  "pod_shape seg opt u \<longleftrightarrow>
     seg = ''kubepods-'' @ opt @ ''pod'' @ u @ ''.slice'' \<and> u \<noteq> [] \<and> list_all is_uid_char u
     \<and> (opt = [] \<or> (\<exists>q. opt = q @ ''-'' \<and> q \<noteq> [] \<and> list_all is_lower q))"

lemma pod_slice_shape: "pod_slice seg = Some u \<Longrightarrow> \<exists>opt. pod_shape seg opt u"
proof -
  assume a: "pod_slice seg = Some u"
  have "has_prefix seg ''kubepods-''"
    using a by (simp add: pod_slice_def split: if_splits)
  then obtain body where seg: "seg = ''kubepods-'' @ body" unfolding has_prefix_iff ..
  show "\<exists>opt. pod_shape seg opt u"
  proof (cases "cut body ''-''")
    case None
    with a have "enclosed ''pod'' ''.slice'' is_uid_char body = Some u"
      unfolding seg pod_slice_body by simp
    then have "pod_shape seg [] u" unfolding seg pod_shape_def enclosed_iff by simp
    then show ?thesis ..
  next
    case (Some qr)
    then obtain q r where qr: "cut body ''-'' = Some (q, r)" by (cases qr) auto
    have e: "enclosed ''pod'' ''.slice'' is_uid_char r = Some u" and q: "q \<noteq> []" "list_all is_lower q"
      using a unfolding seg pod_slice_body by (auto simp: qr split: if_splits)
    have "body = q @ ''-'' @ r" by (rule cut_Some [OF qr])
    then have "pod_shape seg (q @ ''-'') u" using e q unfolding seg pod_shape_def enclosed_iff by auto
    then show ?thesis ..
  qed
qed

lemma shape_pod_slice: "pod_shape seg opt u \<Longrightarrow> pod_slice seg = Some u"
proof -
  assume R: "pod_shape seg opt u"
  define tl where "tl = ''pod'' @ u @ ''.slice''"
  have e: "enclosed ''pod'' ''.slice'' is_uid_char tl = Some u"
    using R by (simp only: pod_shape_def enclosed_iff tl_def) simp
  have seg: "seg = ''kubepods-'' @ opt @ tl" using R by (simp add: pod_shape_def tl_def)
  show "pod_slice seg = Some u"
  proof (cases "opt = []")
    case True
    have "CHR ''-'' \<notin> set tl" using R uid_no_dash [of u] by (simp add: pod_shape_def tl_def)
    then have "cut tl ''-'' = None" by (rule cut_char_None)
    with e True show ?thesis unfolding seg pod_slice_body by simp
  next
    case False
    with R obtain q where q: "opt = q @ ''-''" "q \<noteq> []" "list_all is_lower q"
      unfolding pod_shape_def by auto
    have "cut (q @ ''-'' @ tl) ''-'' = Some (q, tl)"
      by (rule cut_fresh) (use lower_no_dash [OF q(3)] in simp_all)
    with e q show ?thesis unfolding seg pod_slice_body by simp
  qed
qed

lemma pod_slice_iff: "pod_slice seg = Some u \<longleftrightarrow> (\<exists>opt. pod_shape seg opt u)"
  using pod_slice_shape shape_pod_slice by blast

lemma container_scope_shape:
  "container_scope seg = Some u \<Longrightarrow>
     list_ex (\<lambda>rt. seg = rt @ u @ ''.scope'') [''cri-containerd-'', ''crio-'', ''docker-'']
     \<and> u \<noteq> [] \<and> list_all is_hex u"
  by (simp add: container_scope_def enclosed_iff split: option.splits)

lemma not_in_class: "list_all P u \<Longrightarrow> \<not> P c \<Longrightarrow> c \<notin> set u"
  by (auto simp: list_all_iff)

lemma first_match_skip:
  "list_all (\<lambda>s. m s = None) xs \<Longrightarrow> m y = Some u \<Longrightarrow> first_match m (xs @ y # ys) = Some u"
  by (induction xs) auto

definition escape_uid :: "string \<Rightarrow> string" where
  "escape_uid u = map (\<lambda>c. if c = CHR ''-'' then CHR ''_'' else c) u"

lemma unescape_escape: "CHR ''_'' \<notin> set u \<Longrightarrow> unescape_uid (escape_uid u) = u"
  by (induction u) (auto simp: unescape_uid_def escape_uid_def)

text \<open>The label filter and the cache, as maps.\<close>

lemma map_of_filter_labels:
  "map_of (filter_labels ls allow) k = (if k \<in> set allow then map_of ls k else None)"
proof -
  have "map_of (List.map_filter (\<lambda>k. case map_of ls k of None \<Rightarrow> None | Some v \<Rightarrow> Some (k, v)) xs) k =
      (if k \<in> set xs then map_of ls k else None)" for xs
    by (induction xs) (auto simp: List.map_filter_simps split: option.splits)
  then show ?thesis by (auto simp: filter_labels_def)
qed

definition pod_of :: "string list \<Rightarrow> pod_item list \<Rightarrow> string \<Rightarrow> pod_meta option" where
  "pod_of keys items uid = map_option (meta_of keys) (find (\<lambda>it. item_UID it = uid) (rev items))"

lemma map_of_build_cache: "map_of (build_cache keys items) uid = pod_of keys items uid"
proof (induction items rule: rev_induct)
  case (snoc it items)
  then show ?case by (auto simp: build_cache_def pod_of_def update_conv')
qed (simp add: build_cache_def pod_of_def)

text \<open>Lookups at the given times.\<close>

fun lookups_at :: "(int \<times> string) list \<Rightarrow> kubelet \<Rightarrow> (err + pod_meta option) list \<times> kubelet" where
  "lookups_at [] c = ([], c)"
| "lookups_at ((t, u) # qs) c =
     (let (r, c1) = lookup_pod u (c\<lparr>k_now := t\<rparr>); (rs, c2) = lookups_at qs c1 in (r # rs, c2))"

lemma lookup_stale:
  assumes "stale c" and "replies c = Reply 200 (Inr items) # rs"
  shows "lookup_pod uid c =
    (Inr (pod_of (label_keys c) items uid),
     c\<lparr>pod_cache := Some (build_cache (label_keys c) items), cached_at := k_now c, replies := rs,
       requests := requests c @ [(base_url c @ ''/pods'', if token c \<noteq> [] then Some (''Bearer '' @ token c) else None)]\<rparr>)"
  using assms
  by (simp add: lookup_pod_def refresh_if_stale_def fetch_pods_def http_get_def bind_act_def act_defs
      map_of_build_cache)

lemma lookup_fresh:
  assumes "\<not> stale c"
  shows "lookup_pod uid c = (Inr (map_of (the (pod_cache c)) uid), c)"
  using assms
  by (auto simp: lookup_pod_def refresh_if_stale_def bind_act_def act_defs stale_def)

lemma lookups_fresh:
  assumes "pod_cache c = Some (build_cache keys items)"
    and "list_all (\<lambda>(t, u). t < cached_at c + cache_ttl c) qs"
  shows "fst (lookups_at qs c) = map (\<lambda>(t, u). Inr (pod_of keys items u)) qs
    \<and> requests (snd (lookups_at qs c)) = requests c"
  using assms
proof (induction qs arbitrary: c)
  case (Cons q qs)
  obtain t u where q: "q = (t, u)" by (cases q)
  have "\<not> stale (c\<lparr>k_now := t\<rparr>)" using Cons.prems by (simp add: stale_def q)
  then have "lookup_pod u (c\<lparr>k_now := t\<rparr>) = (Inr (pod_of keys items u), c\<lparr>k_now := t\<rparr>)"
    using Cons.prems by (simp add: lookup_fresh map_of_build_cache)
  moreover have "list_all (\<lambda>(t', u). t' < cached_at (c\<lparr>k_now := t\<rparr>) + cache_ttl (c\<lparr>k_now := t\<rparr>)) qs"
    using Cons.prems by simp
  ultimately show ?case
    using Cons.IH [of "c\<lparr>k_now := t\<rparr>"] Cons.prems by (simp add: q case_prod_beta)
qed simp

text \<open>A refresh that fails leaves the old cache in place, unused: the lookup fails too.\<close>

lemma lookup_refresh_error:
  assumes "stale c" and "fetch_pods c = (Inl e, c1)"
  shows "fst (lookup_pod uid c) = Inl e \<and> snd (lookup_pod uid c) = c1"
  using assms by (simp add: lookup_pod_def refresh_if_stale_def bind_act_def act_defs)

section \<open>Properties\<close>

text \<open>
  A pod's UID is recovered from its cgroup path: for a UID of hexadecimal digits and dashes,
  written with underscores into a \<open>kubepods\<close> slice with or without a class segment, \<open>PodUID\<close> of any
  path whose first matching segment is that slice returns the UID.
\<close>
theorem pod_uid_recovered:
  assumes "uid \<noteq> []" and "list_all (\<lambda>c. is_hex c \<or> c = CHR ''-'') uid"
    and "opt = [] \<or> last opt = CHR ''-'' \<and> butlast opt \<noteq> [] \<and> list_all is_lower (butlast opt)"
    and "list_all (\<lambda>s. CHR ''/'' \<notin> set s \<and> pod_slice s = None) pre"
    and "list_all (\<lambda>s. CHR ''/'' \<notin> set s) post"
  shows "pod_uid (join ''/'' (pre @ (''kubepods-'' @ opt @ ''pod'' @ escape_uid uid @ ''.slice'') # post))
    = Some uid"
proof -
  define seg where "seg = ''kubepods-'' @ opt @ ''pod'' @ escape_uid uid @ ''.slice''"
  have esc: "list_all is_uid_char (escape_uid uid)"
    using assms(2) by (auto simp: list_all_iff escape_uid_def is_uid_char_def)
  have opt: "opt = [] \<or> (\<exists>q. opt = q @ ''-'' \<and> q \<noteq> [] \<and> list_all is_lower q)"
    using assms(3) by (metis append_butlast_last_id)
  then have "pod_shape seg opt (escape_uid uid)"
    using assms(1) esc by (simp add: seg_def pod_shape_def escape_uid_def)
  then have slice: "pod_slice seg = Some (escape_uid uid)" by (rule shape_pod_slice)
  have "CHR ''/'' \<notin> set (escape_uid uid)"
    by (rule not_in_class [OF esc]) (simp add: is_uid_char_def is_hex_def)
  moreover have "CHR ''/'' \<notin> set opt"
    using opt not_in_class [of is_lower _ "CHR ''/''"] by (auto simp: is_lower_def)
  ultimately have "CHR ''/'' \<notin> set seg" by (simp add: seg_def)
  then have "split_on CHR ''/'' (join ''/'' (pre @ seg # post)) = pre @ seg # post"
    using assms(4,5) by (intro split_on_join) (auto simp: list_all_iff)
  moreover have "list_all (\<lambda>s. pod_slice s = None) pre" using assms(4) by (simp add: list_all_iff)
  moreover have "CHR ''_'' \<notin> set uid"
    using assms(2) by (auto simp: list_all_iff is_hex_def)
  ultimately show ?thesis
    by (simp only: pod_uid_def seg_def [symmetric] first_match_skip slice unescape_escape option.map simp_thms)
qed

theorem pod_uid_recovered_witness:
  "pod_uid ''kubepods.slice/kubepods-burstable.slice/kubepods-burstable-pod12ab_5678.slice/x.scope''
    = Some ''12ab-5678''"
  using pod_uid_recovered [of "''12ab-5678''" "''burstable-''"
      "[''kubepods.slice'', ''kubepods-burstable.slice'']" "[''x.scope'']"]
  by code_simp

text \<open>
  C39: One request per cache period. After a successful refresh every lookup within \<open>CacheTTL\<close> is
  answered from that pod list (the last pod with the UID, its labels filtered by the allow list) and
  sends nothing; the one request went to \<open>/pods\<close> with the bearer token, if there is one.
\<close>
theorem kubelet_one_fetch_per_ttl:
  assumes "stale c" and "replies c = Reply 200 (Inr items) # rs" and "0 < cache_ttl c"
    and "list_all (\<lambda>(t, u). k_now c \<le> t \<and> t < k_now c + cache_ttl c) qs"
  shows "fst (lookups_at ((k_now c, uid) # qs) c) =
      map (\<lambda>(t, u). Inr (pod_of (label_keys c) items u)) ((k_now c, uid) # qs)
    \<and> requests (snd (lookups_at ((k_now c, uid) # qs) c)) =
      requests c @ [(base_url c @ ''/pods'', if token c \<noteq> [] then Some (''Bearer '' @ token c) else None)]"
proof -
  let ?c = "snd (lookup_pod uid c)"
  have l: "fst (lookup_pod uid c) = Inr (pod_of (label_keys c) items uid)"
    and c: "pod_cache ?c = Some (build_cache (label_keys c) items)"
      "cached_at ?c = k_now c" "cache_ttl ?c = cache_ttl c"
      "requests ?c = requests c @ [(base_url c @ ''/pods'', if token c \<noteq> [] then Some (''Bearer '' @ token c) else None)]"
    by (simp_all add: lookup_stale [OF assms(1,2)])
  have "list_all (\<lambda>(t, u). t < cached_at ?c + cache_ttl ?c) qs"
    using assms(4) by (auto simp: list_all_iff c)
  then show ?thesis using lookups_fresh [OF c(1), of qs] l c(4) by (simp add: case_prod_beta)
qed

theorem kubelet_one_fetch_per_ttl_witness:
  "requests (snd (lookups_at [(5, ''u''), (6, ''v'')]
      (new_kubelet ''https://k/'' ''t'' [''app''] 10 5
        [Reply 200 (Inr [\<lparr>item_UID = ''u'', item_Namespace = ''n'', item_Name = ''p'', item_Labels = []\<rparr>])])))
    = [(''https://k/pods'', Some ''Bearer t'')]"
  using kubelet_one_fetch_per_ttl [of "new_kubelet ''https://k/'' ''t'' [''app''] 10 5
        [Reply 200 (Inr [\<lparr>item_UID = ''u'', item_Namespace = ''n'', item_Name = ''p'', item_Labels = []\<rparr>])]"
      "[\<lparr>item_UID = ''u'', item_Namespace = ''n'', item_Name = ''p'', item_Labels = []\<rparr>]" "[]" "[(6, ''v'')]" "''u''"]
  by code_simp

end
