(* ===== verification/Cgroup.thy ===== *)
theory Cgroup
  imports NodeFiles ProcFiles GoFloat Glob K8s
begin

text \<open>
  \<open>internal/collector/cgroup.go\<close>: the files of one cgroup, the enrichment with pod metadata and
  the walk of the hierarchy that selects cgroups by globs, with its bound on the number selected.
  The tree is the one the collector is rooted at and stands still during one \<open>Collect\<close>; \<open>CgroupLive\<close> lets it change.
\<close>

section \<open>The record\<close>

record cgroup_mem =
  cg_Cgroup :: string
  cg_Current :: u64
  cg_Max :: "u64 option"
  cg_Min :: "u64 option"
  cg_Low :: "u64 option"
  cg_High :: "u64 option"
  cg_Peak :: "u64 option"
  cg_SwapCurrent :: u64
  cg_PSI :: "psi option"
  cg_Anon :: u64
  cg_File :: u64
  cg_Kernel :: u64
  cg_SlabReclaimable :: u64
  cg_SlabUnreclaimable :: u64
  cg_FileMapped :: u64
  cg_FileDirty :: u64
  cg_InactiveAnon :: u64
  cg_ActiveAnon :: u64
  cg_InactiveFile :: u64
  cg_ActiveFile :: u64
  cg_WorkingsetRefaultAnon :: u64
  cg_WorkingsetRefaultFile :: u64
  cg_WorkingsetActivateAnon :: u64
  cg_WorkingsetActivateFile :: u64
  cg_Pgscan :: u64
  cg_Pgsteal :: u64
  cg_K8sNamespace :: string
  cg_K8sPod :: string
  cg_K8sContainerID :: string
  cg_K8sLabels :: labels

definition zero_cgroup :: "string \<Rightarrow> cgroup_mem" where
  "zero_cgroup path =
     \<lparr>cg_Cgroup = path, cg_Current = 0, cg_Max = None, cg_Min = None, cg_Low = None, cg_High = None,
      cg_Peak = None, cg_SwapCurrent = 0, cg_PSI = None,
      cg_Anon = 0, cg_File = 0, cg_Kernel = 0, cg_SlabReclaimable = 0, cg_SlabUnreclaimable =
      0, cg_FileMapped = 0, cg_FileDirty = 0, cg_InactiveAnon = 0, cg_ActiveAnon = 0,
      cg_InactiveFile = 0, cg_ActiveFile = 0, cg_WorkingsetRefaultAnon = 0,
      cg_WorkingsetRefaultFile = 0, cg_WorkingsetActivateAnon = 0, cg_WorkingsetActivateFile =
      0, cg_Pgscan = 0, cg_Pgsteal = 0,
      cg_K8sNamespace = [], cg_K8sPod = [], cg_K8sContainerID = [], cg_K8sLabels = []\<rparr>"

section \<open>Files\<close>

definition parse_nullable_uint :: "string \<Rightarrow> err + u64 option" where
  "parse_nullable_uint b =
     (let s = trim_space b
      in if s = [] \<or> s = ''max'' then Inr None
         else (case parse_u64 s of Inl e \<Rightarrow> Inl e | Inr n \<Rightarrow> Inr (Some n)))"

definition read_nullable_uint :: "node \<Rightarrow> path \<Rightarrow> err + u64 option" where
  "read_nullable_uint t p =
     (case os_read_file t p of
        Inl e \<Rightarrow> if e = ErrNotExist then Inr None else Inl e
      | Inr b \<Rightarrow> parse_nullable_uint b)"

text \<open>The named results of \<open>parsePSIKV\<close> are a \<open>psi_line\<close>.\<close>

definition zero_line :: psi_line where
  "zero_line = \<lparr>avg10 = 0, avg60 = 0, avg300 = 0, total = 0\<rparr>"

definition psi_field :: "psi_line \<Rightarrow> string \<Rightarrow> err + psi_line" where
  "psi_field l f =
     (case cut f ''='' of
        None \<Rightarrow> Inr l
      | Some (k, v) \<Rightarrow>
          if k = ''avg10'' then bind_res (parse_float v) (\<lambda>x. Inr (l\<lparr>avg10 := x\<rparr>))
          else if k = ''avg60'' then bind_res (parse_float v) (\<lambda>x. Inr (l\<lparr>avg60 := x\<rparr>))
          else if k = ''avg300'' then bind_res (parse_float v) (\<lambda>x. Inr (l\<lparr>avg300 := x\<rparr>))
          else if k = ''total'' then bind_res (parse_u64 v) (\<lambda>n. Inr (l\<lparr>total := n\<rparr>))
          else Inr l)"

definition parse_psi_kv :: "string list \<Rightarrow> err + psi_line" where
  "parse_psi_kv fs = fold_res psi_field zero_line fs"

definition zero_psi :: psi where
  "zero_psi = \<lparr>some_avg10 = 0, some_avg60 = 0, some_avg300 = 0, some_total = 0,
               full_avg10 = 0, full_avg60 = 0, full_avg300 = 0, full_total = 0\<rparr>"

definition set_some :: "psi \<Rightarrow> psi_line \<Rightarrow> psi" where
  "set_some p l = p\<lparr>some_avg10 := avg10 l, some_avg60 := avg60 l, some_avg300 := avg300 l,
                    some_total := total l\<rparr>"

definition set_full :: "psi \<Rightarrow> psi_line \<Rightarrow> psi" where
  "set_full p l = p\<lparr>full_avg10 := avg10 l, full_avg60 := avg60 l, full_avg300 := avg300 l,
                    full_total := total l\<rparr>"

definition psi_step :: "psi \<Rightarrow> string \<Rightarrow> err + psi" where
  "psi_step p line =
     (let fs = str_fields line
      in if length fs \<noteq> 5 then Inr p
         else bind_res (parse_psi_kv (tl fs)) (\<lambda>l.
           Inr (if hd fs = ''some'' then set_some p l
                else if hd fs = ''full'' then set_full p l else p)))"

definition parse_cgroup_psi :: "string \<Rightarrow> err + psi" where
  "parse_cgroup_psi b = fold_res psi_step zero_psi (split_on newline (trim_space b))"

definition read_cgroup_psi :: "node \<Rightarrow> path \<Rightarrow> err + psi option" where
  "read_cgroup_psi t p =
     (case os_read_file t p of
        Inl e \<Rightarrow> if e = ErrNotExist then Inr None else Inl e
      | Inr b \<Rightarrow> bind_res (parse_cgroup_psi b) (\<lambda>x. Inr (Some x)))"

definition cgroup_stat_fields :: "cgroup_mem setters" where
  "cgroup_stat_fields =
     [(''anon'', \<lambda>r n. r\<lparr>cg_Anon := n\<rparr>),
      (''file'', \<lambda>r n. r\<lparr>cg_File := n\<rparr>),
      (''kernel'', \<lambda>r n. r\<lparr>cg_Kernel := n\<rparr>),
      (''slab_reclaimable'', \<lambda>r n. r\<lparr>cg_SlabReclaimable := n\<rparr>),
      (''slab_unreclaimable'', \<lambda>r n. r\<lparr>cg_SlabUnreclaimable := n\<rparr>),
      (''file_mapped'', \<lambda>r n. r\<lparr>cg_FileMapped := n\<rparr>),
      (''file_dirty'', \<lambda>r n. r\<lparr>cg_FileDirty := n\<rparr>),
      (''inactive_anon'', \<lambda>r n. r\<lparr>cg_InactiveAnon := n\<rparr>),
      (''active_anon'', \<lambda>r n. r\<lparr>cg_ActiveAnon := n\<rparr>),
      (''inactive_file'', \<lambda>r n. r\<lparr>cg_InactiveFile := n\<rparr>),
      (''active_file'', \<lambda>r n. r\<lparr>cg_ActiveFile := n\<rparr>),
      (''workingset_refault_anon'', \<lambda>r n. r\<lparr>cg_WorkingsetRefaultAnon := n\<rparr>),
      (''workingset_refault_file'', \<lambda>r n. r\<lparr>cg_WorkingsetRefaultFile := n\<rparr>),
      (''workingset_activate_anon'', \<lambda>r n. r\<lparr>cg_WorkingsetActivateAnon := n\<rparr>),
      (''workingset_activate_file'', \<lambda>r n. r\<lparr>cg_WorkingsetActivateFile := n\<rparr>),
      (''pgscan'', \<lambda>r n. r\<lparr>cg_Pgscan := n\<rparr>),
      (''pgsteal'', \<lambda>r n. r\<lparr>cg_Pgsteal := n\<rparr>)]"

definition cgroup_stat_getters :: "(string \<times> (cgroup_mem \<Rightarrow> u64)) list" where
  "cgroup_stat_getters =
     [(''anon'', cg_Anon),
      (''file'', cg_File),
      (''kernel'', cg_Kernel),
      (''slab_reclaimable'', cg_SlabReclaimable),
      (''slab_unreclaimable'', cg_SlabUnreclaimable),
      (''file_mapped'', cg_FileMapped),
      (''file_dirty'', cg_FileDirty),
      (''inactive_anon'', cg_InactiveAnon),
      (''active_anon'', cg_ActiveAnon),
      (''inactive_file'', cg_InactiveFile),
      (''active_file'', cg_ActiveFile),
      (''workingset_refault_anon'', cg_WorkingsetRefaultAnon),
      (''workingset_refault_file'', cg_WorkingsetRefaultFile),
      (''workingset_activate_anon'', cg_WorkingsetActivateAnon),
      (''workingset_activate_file'', cg_WorkingsetActivateFile),
      (''pgscan'', cg_Pgscan),
      (''pgsteal'', cg_Pgsteal)]"

definition read_memory_stat :: "node \<Rightarrow> cgroup_mem \<Rightarrow> path \<Rightarrow> err + cgroup_mem" where
  "read_memory_stat t rec dir =
     (case scan_kv t (dir @ [''memory.stat'']) (apply_kv cgroup_stat_fields) rec of
        Inl e \<Rightarrow> if e = ErrNotExist then Inr rec else Inl e
      | Inr rec' \<Rightarrow> Inr rec')"

section \<open>Enrichment\<close>

text \<open>
  A \<open>k8s.Client\<close> is its \<open>LookupPod\<close>, an operation on a state of its own; \<open>None\<close> is the nil
  client. A failed lookup is logged and leaves the record without metadata.
\<close>

type_synonym 'c pod_lookup = "string \<Rightarrow> ('c, pod_meta option) act"

definition enrich :: "'c pod_lookup option \<Rightarrow> cgroup_mem \<Rightarrow> ('c, cgroup_mem) act" where
  "enrich client rec =
     (case client of
        None \<Rightarrow> ret rec
      | Some look \<Rightarrow>
          let rec = (case container_id (cg_Cgroup rec) of
                       None \<Rightarrow> rec | Some cid \<Rightarrow> rec\<lparr>cg_K8sContainerID := cid\<rparr>)
          in case pod_uid (cg_Cgroup rec) of
               None \<Rightarrow> ret rec
             | Some uid \<Rightarrow> bind_act (try_act (look uid)) (\<lambda>r.
                 case r of
                   Inl e \<Rightarrow> ret rec
                 | Inr None \<Rightarrow> ret rec
                 | Inr (Some meta) \<Rightarrow>
                     ret (rec\<lparr>cg_K8sNamespace := pod_Namespace meta, cg_K8sPod := pod_Name meta,
                              cg_K8sLabels := pod_Labels meta\<rparr>)))"

section \<open>One cgroup\<close>

definition cgroup_files :: "node \<Rightarrow> path \<Rightarrow> string \<Rightarrow> err + cgroup_mem" where
  "cgroup_files t dir rel_path =
     bind_res (read_uint_file t (dir @ [''memory.current''])) (\<lambda>current.
     bind_res (read_uint_file t (dir @ [''memory.swap.current''])) (\<lambda>swap.
     bind_res (read_nullable_uint t (dir @ [''memory.max''])) (\<lambda>mx.
     bind_res (read_nullable_uint t (dir @ [''memory.min''])) (\<lambda>mn.
     bind_res (read_nullable_uint t (dir @ [''memory.low''])) (\<lambda>low.
     bind_res (read_nullable_uint t (dir @ [''memory.high''])) (\<lambda>high.
     bind_res (read_nullable_uint t (dir @ [''memory.peak''])) (\<lambda>peak.
     bind_res (read_cgroup_psi t (dir @ [''memory.pressure''])) (\<lambda>p.
       read_memory_stat t
         ((zero_cgroup rel_path)\<lparr>cg_Current := current, cg_SwapCurrent := swap, cg_Max := mx,
            cg_Min := mn, cg_Low := low, cg_High := high, cg_Peak := peak, cg_PSI := p\<rparr>) dir))))))))"

definition read_cgroup ::
  "'c pod_lookup option \<Rightarrow> node \<Rightarrow> path \<Rightarrow> string \<Rightarrow> ('c, cgroup_mem) act" where
  "read_cgroup client t dir rel_path =
     (case cgroup_files t dir rel_path of Inl e \<Rightarrow> fail e | Inr rec \<Rightarrow> enrich client rec)"

section \<open>The walk\<close>

record 'c cgroup_collector =
  sys_root :: node
  glob_segs :: "string list list"
  max_selected :: int
  k8s_client :: "'c pod_lookup option"

record 'c walk_state =
  w_out :: "cgroup_mem list"
  w_truncated :: bool
  w_client :: 'c

definition max_cgroup_depth :: nat where
  "max_cgroup_depth = 5"

definition new_cgroup ::
  "node \<Rightarrow> string list \<Rightarrow> int \<Rightarrow> 'c pod_lookup option \<Rightarrow> 'c cgroup_collector" where
  "new_cgroup t globs mx client =
     \<lparr>sys_root = t, glob_segs = map (split_on CHR ''/'') globs, max_selected = mx, k8s_client = client\<rparr>"

text \<open>An operation on the client's state, as one on the state of the walk.\<close>

definition on_client :: "('c, 'a) act \<Rightarrow> ('c walk_state, 'a) act" where
  "on_client m w = (case m (w_client w) of (r, c) \<Rightarrow> (r, w\<lparr>w_client := c\<rparr>))"

text \<open>\<open>walk\<close>, and its loop over the entries of the directory.\<close>

function walk ::
    "'c cgroup_collector \<Rightarrow> path \<Rightarrow> string list \<Rightarrow> nat \<Rightarrow> ('c walk_state, unit) act"
  and walk_entries ::
    "'c cgroup_collector \<Rightarrow> path \<Rightarrow> string list \<Rightarrow> nat \<Rightarrow> (string \<times> bool) list
      \<Rightarrow> ('c walk_state, unit) act" where
  "walk c dir segs depth =
     (case os_read_dir (sys_root c) dir of
        Inl e \<Rightarrow> fail e
      | Inr entries \<Rightarrow> walk_entries c dir segs depth entries)"
| "walk_entries c dir segs depth [] = ret ()"
| "walk_entries c dir segs depth (e # es) =
     bind_act (get_act (\<lambda>w. max_selected c \<le> int (length (w_out w)))) (\<lambda>full.
       if full then upd_act (\<lambda>w. w\<lparr>w_truncated := True\<rparr>)
       else if \<not> snd e then walk_entries c dir segs depth es
       else
         let child_segs = segs @ [fst e]; child_dir = dir @ [fst e] in
         bind_act
           (if matches_any child_segs (glob_segs c)
            then bind_act (on_client (read_cgroup (k8s_client c) (sys_root c) child_dir (join ''/'' child_segs)))
                   (\<lambda>rec. upd_act (\<lambda>w. w\<lparr>w_out := w_out w @ [rec]\<rparr>))
            else ret ())
           (\<lambda>_. bind_act
             (if depth + 1 < max_cgroup_depth \<and> is_possible_prefix_for_any child_segs (glob_segs c)
              then walk c child_dir child_segs (depth + 1)
              else ret ())
             (\<lambda>_. walk_entries c dir segs depth es)))"
  by pat_completeness auto
termination
  by (relation "(\<lambda>x. case x of Inl (c, dir, segs, depth) \<Rightarrow> max_cgroup_depth - depth
        | Inr (c, dir, segs, depth, es) \<Rightarrow> max_cgroup_depth - depth)
      <*mlex*> (\<lambda>x. case x of Inl _ \<Rightarrow> 1 | Inr _ \<Rightarrow> 0)
      <*mlex*> measure (\<lambda>x. case x of Inl _ \<Rightarrow> 0 | Inr (c, dir, segs, depth, es) \<Rightarrow> length es)")
    (auto intro: wf_mlex simp: mlex_prod_def)

declare walk.simps [simp del] walk_entries.simps [simp del]

text \<open>\<open>Collect\<close>: the records, the warning, and the client's state.\<close>

definition cgroup_collect ::
  "'c cgroup_collector \<Rightarrow> 'c \<Rightarrow> (err + cgroup_mem list \<times> bool) \<times> 'c" where
  "cgroup_collect c client_state =
     (let root = [''fs'', ''cgroup''] in
      case os_stat (sys_root c) (root @ [''cgroup.controllers'']) of
        Inl e \<Rightarrow> (if e = ErrNotExist then Inr ([], False) else Inl e, client_state)
      | Inr _ \<Rightarrow>
          (case walk c root [] 0 \<lparr>w_out = [], w_truncated = False, w_client = client_state\<rparr> of
             (Inl e, w) \<Rightarrow> (Inl e, w_client w)
           | (Inr _, w) \<Rightarrow> (Inr (w_out w, w_truncated w), w_client w)))"

section \<open>What the walk selects\<close>

text \<open>The directories below a tree to a depth, each before its own children, in name order.\<close>

fun dir_paths :: "nat \<Rightarrow> node \<Rightarrow> string list list" where
  "dir_paths 0 t = []"
| "dir_paths (Suc k) (Dir es) =
     concat (map (\<lambda>(n, c). if is_dir c then [n] # map (\<lambda>p. n # p) (dir_paths k c) else [])
       (sort_key fst es))"
| "dir_paths (Suc k) t = []"

definition strip_k8s :: "cgroup_mem \<Rightarrow> cgroup_mem" where
  "strip_k8s r = r\<lparr>cg_K8sNamespace := [], cg_K8sPod := [], cg_K8sContainerID := [], cg_K8sLabels := []\<rparr>"

text \<open>The record of the files of the cgroup with the given segments, below the collector's root.\<close>

definition path_files :: "'c cgroup_collector \<Rightarrow> path \<Rightarrow> string list \<Rightarrow> err + cgroup_mem" where
  "path_files c root p = cgroup_files (sys_root c) (root @ p) (join ''/'' p)"

text \<open>From \<open>w\<close> to \<open>w'\<close> the walk has handled the selected paths \<open>sel\<close>, as many as there was room for.\<close>

definition walked ::
  "'c cgroup_collector \<Rightarrow> path \<Rightarrow> 'c walk_state \<Rightarrow> 'c walk_state \<Rightarrow> string list list \<Rightarrow> bool" where
  "walked c root w w' sel \<longleftrightarrow>
     (let room = nat (max_selected c) - length (w_out w) in
      (\<exists>recs. w_out w' = w_out w @ recs
        \<and> map (\<lambda>r. Inr (strip_k8s r)) recs = map (path_files c root) (take room sel))
      \<and> (w_truncated w \<longrightarrow> w_truncated w')
      \<and> (\<not> w_truncated w' \<longrightarrow> length sel \<le> room))"

lemma walked_refl: "walked c root w w []"
  by (simp add: walked_def Let_def)

lemma walked_full:
  "max_selected c \<le> int (length (w_out w)) \<Longrightarrow> walked c root w (w\<lparr>w_truncated := True\<rparr>) sel"
  by (simp add: walked_def Let_def)

lemma walked_trans:
  assumes "walked c root w w1 s1" and "walked c root w1 w2 s2"
  shows "walked c root w w2 (s1 @ s2)"
proof -
  let ?room = "nat (max_selected c) - length (w_out w)"
  obtain r1 where r1: "w_out w1 = w_out w @ r1"
    and m1: "map (\<lambda>r. Inr (strip_k8s r)) r1 = map (path_files c root) (take ?room s1)"
    using assms(1) unfolding walked_def Let_def by blast
  have l1: "length r1 = min ?room (length s1)"
    using arg_cong [OF m1, of length] by (simp add: min.commute)
  have room: "nat (max_selected c) - length (w_out w1) = ?room - length s1"
    using l1 by (simp add: r1 min_def)
  obtain r2 where r2: "w_out w2 = w_out w1 @ r2"
    and m2: "map (\<lambda>r. Inr (strip_k8s r)) r2 = map (path_files c root) (take (?room - length s1) s2)"
    using assms(2) unfolding walked_def Let_def room by blast
  have "w_out w2 = w_out w @ (r1 @ r2)" by (simp add: r1 r2)
  moreover have "map (\<lambda>r. Inr (strip_k8s r)) (r1 @ r2) = map (path_files c root) (take ?room (s1 @ s2))"
    by (simp add: m1 m2)
  moreover have "(w_truncated w \<longrightarrow> w_truncated w2) \<and> (\<not> w_truncated w2 \<longrightarrow> length (s1 @ s2) \<le> ?room)"
    using assms unfolding walked_def Let_def room by auto
  ultimately show ?thesis unfolding walked_def Let_def by blast
qed

lemma cgroup_files_plain:
  assumes "cgroup_files t dir p = Inr r"
  shows "strip_k8s r = r"
proof -
  have table: "list_all (\<lambda>(k, f). \<forall>r n. strip_k8s (f r n) = f (strip_k8s r) n) cgroup_stat_fields"
    by (simp add: cgroup_stat_fields_def strip_k8s_def)
  have keep: "strip_k8s r' = r'" if a: "apply_kv cgroup_stat_fields r0 k v = Inr r'" "strip_k8s r0 = r0" for r0 k v r'
  proof (cases "map_of cgroup_stat_fields k")
    case (Some f)
    then have "strip_k8s (f r0 n) = f (strip_k8s r0) n" for n
      using bspec [OF table [unfolded list_all_iff] map_of_SomeD [OF Some]] by simp
    then show ?thesis using a Some by (auto simp: apply_kv_def split: sum.splits)
  qed (use a in \<open>simp add: apply_kv_def\<close>)
  have fold: "strip_k8s r' = r'"
    if "fold_res (\<lambda>s (k, v). apply_kv cgroup_stat_fields s k v) r0 kvs = Inr r'" "strip_k8s r0 = r0" for r0 kvs r'
    using that(1) by (rule fold_res_inv) (use that(2) keep in \<open>auto split: prod.splits\<close>)
  have stat: "strip_k8s r' = r'" if "read_memory_stat t r0 dir = Inr r'" "strip_k8s r0 = r0" for r0 r'
    using that by (auto simp: read_memory_stat_def scan_kv_Inr fold split: sum.splits if_splits)
  from assms show ?thesis
    unfolding cgroup_files_def bind_res_eq_Inr
    by (elim exE conjE) (erule stat, simp add: zero_cgroup_def strip_k8s_def)
qed

lemma enrich_strip: "enrich client r s = (Inr r', s') \<Longrightarrow> strip_k8s r' = strip_k8s r"
  by (auto simp: enrich_def strip_k8s_def Let_def bind_try split: option.splits sum.splits prod.splits)

lemma enrich_total: "\<exists>r' s'. enrich client r s = (Inr r', s')"
  by (auto simp: enrich_def Let_def bind_try split: option.splits sum.splits prod.splits)

lemma walked_select:
  assumes "on_client (read_cgroup cl (sys_root c) (root @ p) (join ''/'' p)) w = (Inr r, w1)"
    and "int (length (w_out w)) < max_selected c"
  shows "walked c root w (w1\<lparr>w_out := w_out w1 @ [r]\<rparr>) [p]"
proof -
  from assms(1) obtain r0 s where f: "path_files c root p = Inr r0"
    and e: "enrich cl r0 (w_client w) = (Inr r, s)" and w1: "w1 = w\<lparr>w_client := s\<rparr>"
    by (auto simp: on_client_def read_cgroup_def path_files_def act_defs split: sum.splits prod.splits)
  have "path_files c root p = Inr (strip_k8s r)"
    using f enrich_strip [OF e] cgroup_files_plain [of "sys_root c"] by (simp add: path_files_def)
  moreover obtain k where "nat (max_selected c) - length (w_out w) = Suc k"
    using assms(2) by (metis Suc_diff_Suc zless_nat_eq_int_zless)
  ultimately show ?thesis by (auto simp: walked_def Let_def w1)
qed

definition selected :: "'c cgroup_collector \<Rightarrow> string list list \<Rightarrow> string list list" where
  "selected c ps = filter (\<lambda>p. matches_any p (glob_segs c)) ps"

abbreviation below :: "nat \<Rightarrow> string list \<Rightarrow> string \<times> node \<Rightarrow> string list list" where
  "below k segs e \<equiv> (if is_dir (snd e)
     then (segs @ [fst e]) # map (\<lambda>p. segs @ fst e # p) (dir_paths k (snd e)) else [])"

lemma selected_refused:
  "\<not> is_possible_prefix_for_any q (glob_segs c) \<Longrightarrow> selected c (map (\<lambda>p. q @ p) ps) = []"
  unfolding selected_def by (rule globs.refused_below)

lemma walk_entries_walked:
  assumes rec: "\<And>w w' n t. depth + 1 < max_cgroup_depth \<Longrightarrow>
      lookup_node (sys_root c) (root @ segs @ [n]) = Inr t \<Longrightarrow>
      walk c (root @ segs @ [n]) (segs @ [n]) (depth + 1) w = (Inr (), w') \<Longrightarrow>
      walked c root w w' (selected c (map (\<lambda>p. (segs @ [n]) @ p) (dir_paths (max_cgroup_depth - 1 - depth) t)))"
    and "walk_entries c (root @ segs) segs depth (map (\<lambda>(n, t). (n, is_dir t)) ns) w = (Inr (), w')"
    and "\<And>n t. (n, t) \<in> set ns \<Longrightarrow> lookup_node (sys_root c) (root @ segs @ [n]) = Inr t"
  shows "walked c root w w' (selected c (concat (map (below (max_cgroup_depth - 1 - depth) segs) ns)))"
  using assms(2,3)
proof (induction ns arbitrary: w)
  case Nil
  then show ?case by (simp add: walk_entries.simps selected_def walked_refl)
next
  case (Cons e ns)
  obtain n t where e: "e = (n, t)" by (cases e)
  let ?k = "max_cgroup_depth - 1 - depth" and ?q = "segs @ [n]"
  have child: "lookup_node (sys_root c) (root @ segs @ [n]) = Inr t" using Cons.prems(2) e by simp
  note IH = Cons.IH [OF _ Cons.prems(2) [OF list.set_intros(2)]]
  show ?case
  proof (cases "max_selected c \<le> int (length (w_out w))")
    case True
    then have "w' = w\<lparr>w_truncated := True\<rparr>"
      using Cons.prems(1) by (simp add: e walk_entries.simps upd_act_def)
    with True show ?thesis by (simp add: walked_full)
  next
    case False
    note room = this
    show ?thesis
    proof (cases "is_dir t")
      case False
      with room Cons.prems(1) have "walk_entries c (root @ segs) segs depth (map (\<lambda>(n, t). (n, is_dir t)) ns) w = (Inr (), w')"
        by (simp add: e walk_entries.simps)
      from IH [OF this] False show ?thesis by (simp add: e selected_def)
    next
      case dir: True
      from Cons.prems(1) room dir obtain w1 w2 where
        m: "(if matches_any ?q (glob_segs c)
            then bind_act (on_client (read_cgroup (k8s_client c) (sys_root c) (root @ ?q) (join ''/'' ?q)))
                   (\<lambda>rec. upd_act (\<lambda>w. w\<lparr>w_out := w_out w @ [rec]\<rparr>))
            else ret ()) w = (Inr (), w1)"
        and d: "(if depth + 1 < max_cgroup_depth \<and> is_possible_prefix_for_any ?q (glob_segs c)
              then walk c (root @ ?q) ?q (depth + 1) else ret ()) w1 = (Inr (), w2)"
        and r: "walk_entries c (root @ segs) segs depth (map (\<lambda>(n, t). (n, is_dir t)) ns) w2 = (Inr (), w')"
        by (auto simp: e walk_entries.simps(2) Let_def bind_act_Inr)
      have "walked c root w w1 (selected c [?q])"
      proof (cases "matches_any ?q (glob_segs c)")
        case True
        with m obtain r w0 where
          "on_client (read_cgroup (k8s_client c) (sys_root c) (root @ ?q) (join ''/'' ?q)) w = (Inr r, w0)"
          "w1 = w0\<lparr>w_out := w_out w0 @ [r]\<rparr>"
          by (auto simp: bind_act_Inr upd_act_def)
        with walked_select [OF this(1)] room True show ?thesis by (simp add: selected_def)
      next
        case False
        with m show ?thesis by (simp add: selected_def walked_refl)
      qed
      moreover have "walked c root w1 w2 (selected c (map (\<lambda>p. ?q @ p) (dir_paths ?k t)))"
      proof (cases "depth + 1 < max_cgroup_depth \<and> is_possible_prefix_for_any ?q (glob_segs c)")
        case True
        with d show ?thesis using rec [OF _ child] by simp
      next
        case False
        then have "selected c (map (\<lambda>p. ?q @ p) (dir_paths ?k t)) = []"
        proof (cases "depth + 1 < max_cgroup_depth")
          case False
          then have "?k = 0" by (simp add: max_cgroup_depth_def)
          then show ?thesis by (simp add: selected_def)
        qed (use selected_refused in blast)
        moreover have "w2 = w1" using d unfolding if_not_P [OF False] by simp
        ultimately show ?thesis by (simp add: walked_refl)
      qed
      ultimately have pre: "walked c root w w2 (selected c [?q] @ selected c (map (\<lambda>p. ?q @ p) (dir_paths ?k t)))"
        by (rule walked_trans)
      have eq: "selected c (concat (map (below ?k segs) (e # ns))) =
          (selected c [?q] @ selected c (map (\<lambda>p. ?q @ p) (dir_paths ?k t)))
          @ selected c (concat (map (below ?k segs) ns))"
        using dir by (simp add: e selected_def)
      show ?thesis unfolding eq by (rule walked_trans [OF pre IH [OF r]])
    qed
  qed
qed


lemma sorted_entries:
  fixes es :: "(string \<times> node) list"
  shows "map (\<lambda>(n, t). (n, is_dir t)) (sort_key fst es) = sort_key fst (map (\<lambda>(n, t). (n, is_dir t)) es)"
proof -
  have "map g (insort_key fst x xs) = insort_key fst (g x) (map g xs)"
    if "\<And>y. fst (g y) = fst y" for g :: "string \<times> node \<Rightarrow> string \<times> bool" and x xs
    by (induction xs) (simp_all add: that)
  then have "map g (sort_key fst es) = sort_key fst (map g es)"
    if "\<And>y. fst (g y) = fst y" for g :: "string \<times> node \<Rightarrow> string \<times> bool" and es
    by (induction es) (simp_all add: that sort_key_def)
  from this [of "\<lambda>(n, t). (n, is_dir t)" es] show ?thesis by (simp add: case_prod_beta)
qed

lemma dir_paths_Dir:
  "map (\<lambda>p. segs @ p) (dir_paths (Suc k) (Dir es)) = concat (map (below k segs) (sort_key fst es))"
  by (auto simp: map_concat o_def case_prod_beta intro!: arg_cong [where f = concat])

lemma walk_walked:
  assumes "wf_node (sys_root c)"
  shows "lookup_node (sys_root c) (root @ segs) = Inr t \<Longrightarrow>
    walk c (root @ segs) segs depth w = (Inr (), w') \<Longrightarrow>
    walked c root w w' (selected c (map (\<lambda>p. segs @ p) (dir_paths (Suc (max_cgroup_depth - 1 - depth)) t)))"
proof (induction "max_cgroup_depth - depth" arbitrary: depth segs t w w' rule: less_induct)
  case less
  from less.prems obtain es where t: "t = Dir es"
    and w: "walk_entries c (root @ segs) segs depth (map (\<lambda>(n, t). (n, is_dir t)) (sort_key fst es)) w = (Inr (), w')"
    by (cases t) (auto simp: walk.simps os_read_dir_def sorted_entries)
  have d: "distinct (map fst es)"
    using lookup_node_wf [OF assms less.prems(1)] by (simp add: t)
  have nodes: "lookup_node (sys_root c) (root @ segs @ [n]) = Inr s" if "(n, s) \<in> set (sort_key fst es)" for n s
  proof -
    have "map_of es n = Some s" using that d by simp
    then show ?thesis using less.prems(1)
      unfolding append_assoc [symmetric] lookup_node_append t by simp
  qed
  have "walked c root w w' (selected c (concat (map (below (max_cgroup_depth - 1 - depth) segs) (sort_key fst es))))"
  proof (rule walk_entries_walked [OF _ w nodes])
    fix w w' n s
    assume dep: "depth + 1 < max_cgroup_depth"
      and a: "lookup_node (sys_root c) (root @ segs @ [n]) = Inr s"
        "walk c (root @ segs @ [n]) (segs @ [n]) (depth + 1) w = (Inr (), w')"
    have k: "Suc (max_cgroup_depth - 1 - (depth + 1)) = max_cgroup_depth - 1 - depth"
      using dep by simp
    have "max_cgroup_depth - (depth + 1) < max_cgroup_depth - depth" using dep by simp
    from less.hyps [OF this a(1,2)]
    show "walked c root w w' (selected c (map (\<lambda>p. (segs @ [n]) @ p) (dir_paths (max_cgroup_depth - 1 - depth) s)))"
      unfolding k .
  qed
  then show ?case unfolding t dir_paths_Dir .
qed


section \<open>Properties\<close>

definition cgroup_root :: path where
  "cgroup_root = [''fs'', ''cgroup'']"

text \<open>
  C17: What a collection returns. On a cgroup v2 host the records are those of the directories at
  most five levels below the root whose path matches a glob, in the order of a walk that visits
  each directory before its children, cut off at \<open>max\<close>: pruning by glob prefixes loses nothing.
  Apart from the pod metadata each record is what the files of its directory say; and if the
  warning was not raised, no match was left out.
\<close>
theorem cgroup_collect_selects:
  assumes "wf_node (sys_root c)" and "lookup_node (sys_root c) cgroup_root = Inr t"
    and "os_stat (sys_root c) (cgroup_root @ [''cgroup.controllers'']) = Inr ()"
    and "cgroup_collect c s = (Inr (out, warned), s')"
  shows "map (\<lambda>r. Inr (strip_k8s r)) out =
      map (path_files c cgroup_root) (take (nat (max_selected c)) (selected c (dir_paths max_cgroup_depth t)))
    \<and> (\<not> warned \<longrightarrow> length out = length (selected c (dir_paths max_cgroup_depth t)))"
proof -
  let ?w = "\<lparr>w_out = [], w_truncated = False, w_client = s\<rparr>"
  from assms(3,4) obtain w' where w: "walk c cgroup_root [] 0 ?w = (Inr (), w')"
    and out: "out = w_out w'" "warned = w_truncated w'"
    by (auto simp: cgroup_collect_def cgroup_root_def Let_def split: prod.splits sum.splits)
  have k: "Suc (max_cgroup_depth - 1 - 0) = max_cgroup_depth" by (simp add: max_cgroup_depth_def)
  have "walked c cgroup_root ?w w' (selected c (dir_paths max_cgroup_depth t))"
    using walk_walked [OF assms(1), of cgroup_root "[]" t 0 ?w w'] assms(2) w unfolding k by simp
  then have m: "map (\<lambda>r. Inr (strip_k8s r)) out =
      map (path_files c cgroup_root) (take (nat (max_selected c)) (selected c (dir_paths max_cgroup_depth t)))"
    and l: "\<not> warned \<longrightarrow> length (selected c (dir_paths max_cgroup_depth t)) \<le> nat (max_selected c)"
    by (auto simp: walked_def out Let_def)
  have "length out = min (nat (max_selected c)) (length (selected c (dir_paths max_cgroup_depth t)))"
    using arg_cong [OF m, of length] by (simp add: min.commute)
  with l m show ?thesis by auto
qed


text \<open>A host on which the bound cuts off the second of two selected cgroups.\<close>

definition sample_cgroups :: node where
  "sample_cgroups = Dir [(''cgroup.controllers'', File ''memory''),
      (''b'', Dir [(''memory.current'', File (counter_file 7))]),
      (''a'', Dir [(''memory.current'', File (counter_file 9)), (''c'', Dir [])])]"

definition sample_collector :: "unit cgroup_collector" where
  "sample_collector = new_cgroup (Dir [(''fs'', Dir [(''cgroup'', sample_cgroups)])]) [''*''] 1 None"

lemma match_star: "filepath_match ''*'' s \<longleftrightarrow> separator \<notin> set s"
  by (simp add: filepath_match.simps scan_chunk_def)

lemma sample_a_files:
  "cgroup_files (Dir [(''fs'', Dir [(''cgroup'', sample_cgroups)])]) [''fs'', ''cgroup'', ''a''] ''a'' =
    Inr ((zero_cgroup ''a'')\<lparr>cg_Current := 9\<rparr>)"
  by (simp add: cgroup_files_def read_uint_file_def read_nullable_uint_def read_cgroup_psi_def
      read_memory_stat_def scan_kv_def scan_file_def host_defs sample_cgroups_def zero_cgroup_def)

lemma sample_lookup:
  "lookup_node sample_cgroups [''cgroup.controllers''] = Inr (File ''memory'')"
  "os_read_dir (Dir [(''fs'', Dir [(''cgroup'', sample_cgroups)])]) [''fs'', ''cgroup''] =
    Inr [(''a'', True), (''b'', True), (''cgroup.controllers'', False)]"
  "os_read_dir (Dir [(''fs'', Dir [(''cgroup'', sample_cgroups)])]) [''fs'', ''cgroup'', ''a''] =
    Inr [(''c'', True), (''memory.current'', False)]"
  by (simp_all add: sample_cgroups_def os_read_dir_def)

lemma sample_collect:
  "cgroup_collect sample_collector () =
    (Inr ([(zero_cgroup ''a'')\<lparr>cg_Current := 9\<rparr>], True), ())"
  by (simp add: cgroup_collect_def sample_collector_def new_cgroup_def sample_lookup os_stat_def walk.simps
      walk_entries.simps bind_act_def act_defs on_client_def read_cgroup_def enrich_def
      matches_any_def match_star double_star_def is_possible_prefix_for_any_def sample_a_files
      max_cgroup_depth_def separator_def Let_def)

theorem cgroup_collect_selects_witness:
  "[zero_cgroup ''a''\<lparr>cg_Current := 9\<rparr>] = map strip_k8s [zero_cgroup ''a''\<lparr>cg_Current := 9\<rparr>]
    \<and> map Inr [zero_cgroup ''a''\<lparr>cg_Current := 9\<rparr>] =
      map (path_files sample_collector cgroup_root)
        (take 1 (selected sample_collector (dir_paths 5 sample_cgroups)))"
proof -
  have "wf_node (sys_root sample_collector)"
    and "lookup_node (sys_root sample_collector) cgroup_root = Inr sample_cgroups"
    and "os_stat (sys_root sample_collector) (cgroup_root @ [''cgroup.controllers'']) = Inr ()"
    by (simp_all add: sample_collector_def new_cgroup_def sample_cgroups_def cgroup_root_def os_stat_def)
  from cgroup_collect_selects [OF this sample_collect] show ?thesis
    by (simp add: strip_k8s_def zero_cgroup_def max_cgroup_depth_def sample_collector_def new_cgroup_def)
qed

section \<open>The values of a record\<close>

interpretation cst: field_table cgroup_stat_fields cgroup_stat_getters "\<lambda>n. n"
  by (rule field_tableI) (simp_all add: cgroup_stat_fields_def cgroup_stat_getters_def)

text \<open>Scanning an existing file fails with a bad number or an over-long line, never \<open>ErrNotExist\<close>.\<close>

lemma fold_apply_kv_err:
  "fold_res (\<lambda>r (k, v). apply_kv f r k v) r0 kvs = Inl e \<Longrightarrow> e \<noteq> ErrNotExist"
  by (induction kvs arbitrary: r0)
    (auto simp: apply_kv_def parse_u64_def split: option.splits sum.splits)

lemma scan_kv_err:
  "os_read_file t p = Inr content \<Longrightarrow> scan_kv t p (apply_kv f) r0 = Inl e \<Longrightarrow> e \<noteq> ErrNotExist"
  by (auto simp: scan_kv_def scan_file_def scan_reader_def scan_lines_def fold_kv bind_res_eq_Inl
      scanner_err_def dest: fold_apply_kv_err split: option.splits if_splits)

lemma read_memory_stat_value:
  assumes "read_memory_stat t r0 dir = Inr r" and "(key, get) \<in> set cgroup_stat_getters"
  shows "get r = (case os_read_file t (dir @ [''memory.stat'']) of
      Inl _ \<Rightarrow> get r0
    | Inr content \<Rightarrow>
        (case last_value key (kv_pairs plain_kv content) of None \<Rightarrow> get r0 | Some n \<Rightarrow> n))"
proof (cases "os_read_file t (dir @ [''memory.stat''])")
  case (Inl e)
  with assms(1) show ?thesis
    by (simp add: read_memory_stat_def scan_kv_def scan_file_def split: if_splits)
next
  case (Inr content)
  with assms(1) have "scan_kv t (dir @ [''memory.stat'']) (apply_kv cgroup_stat_fields) r0 = Inr r"
    by (auto simp: read_memory_stat_def dest: scan_kv_err split: sum.splits if_splits)
  then have "fold_res (\<lambda>s (k, v). apply_kv cgroup_stat_fields s k v) r0 (kv_pairs plain_kv content) = Inr r"
    using Inr by (auto simp: scan_kv_Inr)
  from cst.fold_get [OF this assms(2)] Inr show ?thesis by simp
qed

lemma apply_cgroup_stat_keeps:
  "apply_kv cgroup_stat_fields r k v = Inr r' \<Longrightarrow>
     cg_Cgroup r' = cg_Cgroup r \<and> cg_Current r' = cg_Current r \<and> cg_SwapCurrent r' = cg_SwapCurrent r
     \<and> cg_Max r' = cg_Max r \<and> cg_PSI r' = cg_PSI r"
proof -
  have table: "list_all (\<lambda>(k, f). \<forall>r n. cg_Cgroup (f r n) = cg_Cgroup r \<and> cg_Current (f r n) = cg_Current r
     \<and> cg_SwapCurrent (f r n) = cg_SwapCurrent r \<and> cg_Max (f r n) = cg_Max r \<and> cg_PSI (f r n) = cg_PSI r)
      cgroup_stat_fields"
    by (simp add: cgroup_stat_fields_def)
  assume a: "apply_kv cgroup_stat_fields r k v = Inr r'"
  show ?thesis
  proof (cases "map_of cgroup_stat_fields k")
    case (Some f)
    from bspec [OF table [unfolded list_all_iff] map_of_SomeD [OF this]] a Some show ?thesis
      by (auto simp: apply_kv_def split: sum.splits)
  qed (use a in \<open>simp add: apply_kv_def\<close>)
qed

lemma read_memory_stat_keeps:
  assumes "read_memory_stat t r0 dir = Inr r"
  shows "cg_Cgroup r = cg_Cgroup r0 \<and> cg_Current r = cg_Current r0 \<and> cg_SwapCurrent r = cg_SwapCurrent r0
     \<and> cg_Max r = cg_Max r0 \<and> cg_PSI r = cg_PSI r0"
proof -
  have fold: "cg_Cgroup r = cg_Cgroup r0 \<and> cg_Current r = cg_Current r0 \<and> cg_SwapCurrent r = cg_SwapCurrent r0
     \<and> cg_Max r = cg_Max r0 \<and> cg_PSI r = cg_PSI r0"
    if "fold_res (\<lambda>s (k, v). apply_kv cgroup_stat_fields s k v) r0 kvs = Inr r" for kvs
    using that by (rule fold_res_inv) (auto dest: apply_cgroup_stat_keeps split: prod.splits)
  show ?thesis using assms
    by (auto simp: read_memory_stat_def scan_kv_Inr split: sum.splits if_splits dest: fold)
qed

lemma trim_space_ends:
  assumes "w \<noteq> []" and "is_word_char (hd w)" and "is_word_char (last w)"
  shows "trim_space (w @ [newline]) = w"
proof -
  have "trim_right (w @ [newline]) = trim_right w"
    by (subst trim_right.simps) (simp add: last_space_len_ascii is_ascii_def newline_def is_space_def)
  then show ?thesis using assms by (simp add: trim_space_def trim_left_word trim_right_word)
qed

section \<open>Pressure\<close>

text \<open>The lines of \<open>memory.pressure\<close> as the kernel prints them.\<close>

definition psi_words :: "string \<Rightarrow> string \<Rightarrow> string \<Rightarrow> string \<Rightarrow> u64 \<Rightarrow> string list" where
  "psi_words key a b c n =
     [key, ''avg10='' @ a, ''avg60='' @ b, ''avg300='' @ c, ''total='' @ format_uint (unat n)]"

lemma psi_words_kv:
  assumes "parse_float a = Inr x" and "parse_float b = Inr y" and "parse_float c = Inr z"
  shows "parse_psi_kv (tl (psi_words key a b c n)) = Inr \<lparr>avg10 = x, avg60 = y, avg300 = z, total = n\<rparr>"
  using assms
  by (simp add: psi_words_def parse_psi_kv_def psi_field_def has_prefix_def zero_line_def)


definition psi_text :: "string list \<Rightarrow> string list \<Rightarrow> string" where
  "psi_text ws vs = join '' '' ws @ [newline] @ join '' '' vs @ [newline]"

lemma psi_words_ok:
  assumes "word_str a" and "word_str b" and "word_str c" and "word_str key"
  shows "\<forall>w \<in> set (psi_words key a b c n). word_str w"
  using assms word_str_format_uint [of "unat n"]
  by (auto simp: psi_words_def word_str_def is_word_char_def is_ascii_def is_space_def)

lemma word_no_newline: "word_str w \<Longrightarrow> newline \<notin> set w"
  unfolding word_str_def by (rule not_in_class) (auto simp: is_word_char_def newline_def is_space_def)

lemma join_words_no_newline:
  "\<forall>w \<in> set ws. word_str w \<Longrightarrow> newline \<notin> set (join '' '' ws)"
proof (induction "'' ''" ws rule: join.induct)
  case (3 s t u)
  then show ?case using word_no_newline [of s] by (simp add: newline_def)
qed (simp_all add: word_no_newline)

lemma psi_text_lines:
  assumes "\<forall>w \<in> set ws. word_str w" and "\<forall>w \<in> set vs. word_str w" and "ws \<noteq> []" and "vs \<noteq> []"
  shows "split_on newline (trim_space (psi_text ws vs)) = [join '' '' ws, join '' '' vs]"
proof -
  have hd: "join '' '' xs \<noteq> [] \<and> is_word_char (hd (join '' '' xs)) \<and> is_word_char (last (join '' '' xs))"
    if "\<forall>w \<in> set xs. word_str w" "xs \<noteq> []" for xs
    using that by (induction "'' ''" xs rule: join.induct) (auto simp: word_str_def list_all_iff)
  have "trim_space (psi_text ws vs) = join '' '' ws @ newline # join '' '' vs"
    using trim_space_ends [of "join '' '' ws @ newline # join '' '' vs"] hd [OF assms(1,3)] hd [OF assms(2,4)]
    by (simp add: psi_text_def)
  then show ?thesis
    using assms(1,2) by (simp add: split_on_append_sep split_on_no_sep join_words_no_newline)
qed

lemma psi_step_words:
  assumes "\<forall>w \<in> set (psi_words key a b c n). word_str w"
    and "parse_float a = Inr x" and "parse_float b = Inr y" and "parse_float c = Inr z"
  shows "psi_step p (join '' '' (psi_words key a b c n)) =
    Inr (if key = ''some'' then set_some p \<lparr>avg10 = x, avg60 = y, avg300 = z, total = n\<rparr>
         else if key = ''full'' then set_full p \<lparr>avg10 = x, avg60 = y, avg300 = z, total = n\<rparr> else p)"
proof -
  have "length (psi_words key a b c n) = 5" "hd (psi_words key a b c n) = key"
    by (simp_all add: psi_words_def)
  then show ?thesis
    unfolding psi_step_def fields_join [OF assms(1)] Let_def psi_words_kv [OF assms(2-4)] by simp
qed

text \<open>
  A cgroup's \<open>memory.pressure\<close>, written the way the kernel does, parses back: both lines'
  averages are the correctly rounded float64 values of their decimals and the totals are exact.
\<close>
theorem parse_cgroup_psi_roundtrip:
  assumes "list_all word_str [a, b, c, a', b', c']"
    and "parse_float a = Inr x" and "parse_float b = Inr y" and "parse_float c = Inr z"
    and "parse_float a' = Inr x'" and "parse_float b' = Inr y'" and "parse_float c' = Inr z'"
  shows "parse_cgroup_psi (psi_text (psi_words ''some'' a b c n) (psi_words ''full'' a' b' c' n')) =
    Inr \<lparr>some_avg10 = x, some_avg60 = y, some_avg300 = z, some_total = n,
         full_avg10 = x', full_avg60 = y', full_avg300 = z', full_total = n'\<rparr>"
proof -
  have key: "word_str ''some''" "word_str ''full''"
    by (simp_all add: word_str_def is_word_char_def is_ascii_def is_space_def)
  have ws: "\<forall>w \<in> set (psi_words ''some'' a b c n). word_str w"
    and vs: "\<forall>w \<in> set (psi_words ''full'' a' b' c' n'). word_str w"
    by (rule psi_words_ok; use assms(1) key in \<open>simp\<close>)+
  have "psi_words ''some'' a b c n \<noteq> []" "psi_words ''full'' a' b' c' n' \<noteq> []"
    by (simp_all add: psi_words_def)
  from psi_text_lines [OF ws vs this] show ?thesis
    unfolding parse_cgroup_psi_def
    by (simp add: psi_step_words [OF ws assms(2-4)] psi_step_words [OF vs assms(5-7)]
        set_some_def set_full_def zero_psi_def)
qed

theorem parse_cgroup_psi_roundtrip_witness:
  "parse_cgroup_psi (psi_text (psi_words ''some'' ''1.50'' ''0.00'' ''0.00'' 9) (psi_words ''full'' ''0.00'' ''0.00'' ''1.50'' 3)) =
    Inr \<lparr>some_avg10 = 0x3FF8000000000000, some_avg60 = 0, some_avg300 = 0, some_total = 9,
         full_avg10 = 0, full_avg60 = 0, full_avg300 = 0x3FF8000000000000, full_total = 3\<rparr>"
  by (rule parse_cgroup_psi_roundtrip)
    (simp_all add: parse_float_half parse_float_zero word_str_def is_word_char_def is_ascii_def is_space_def)

section \<open>Values and failures\<close>



text \<open>
  Enrichment is a bonus: whether a cgroup is recorded, and everything in the record but the pod
  metadata, depends on its files alone, whatever the kubelet client does; when the lookup fails
  the pod's namespace, name and labels stay empty.
\<close>
theorem enrich_never_drops:
  "(case cgroup_files t dir p of
      Inl e \<Rightarrow> read_cgroup client t dir p s = (Inl e, s)
    | Inr r0 \<Rightarrow> (\<exists>r s'. read_cgroup client t dir p s = (Inr r, s') \<and> strip_k8s r = r0
        \<and> (case client of None \<Rightarrow> r = r0
           | Some look \<Rightarrow> (case pod_uid (cg_Cgroup r0) of
                 None \<Rightarrow> cg_K8sPod r = []
               | Some uid \<Rightarrow> (case look uid s of
                     (Inr (Some meta), _) \<Rightarrow> cg_K8sPod r = pod_Name meta \<and> cg_K8sNamespace r = pod_Namespace meta
                   | _ \<Rightarrow> cg_K8sPod r = [] \<and> cg_K8sNamespace r = [] \<and> cg_K8sLabels r = [])))))"
proof (cases "cgroup_files t dir p")
  case (Inr r0)
  have plain: "strip_k8s r0 = r0" by (rule cgroup_files_plain [OF Inr])
  have empty: "cg_K8sPod (strip_k8s r0) = [] \<and> cg_K8sNamespace (strip_k8s r0) = [] \<and> cg_K8sLabels (strip_k8s r0) = []"
    by (simp add: strip_k8s_def)
  obtain r s' where e: "enrich client r0 s = (Inr r, s')" using enrich_total [of client r0 s] by blast
  have "read_cgroup client t dir p s = (Inr r, s')" using Inr e by (simp add: read_cgroup_def)
  moreover have "strip_k8s r = r0" using enrich_strip [OF e] plain by simp
  moreover have "case client of None \<Rightarrow> r = r0
           | Some look \<Rightarrow> (case pod_uid (cg_Cgroup r0) of
                 None \<Rightarrow> cg_K8sPod r = []
               | Some uid \<Rightarrow> (case look uid s of
                     (Inr (Some meta), _) \<Rightarrow> cg_K8sPod r = pod_Name meta \<and> cg_K8sNamespace r = pod_Namespace meta
                   | _ \<Rightarrow> cg_K8sPod r = [] \<and> cg_K8sNamespace r = [] \<and> cg_K8sLabels r = []))"
    using e empty unfolding plain
    by (auto simp: enrich_def Let_def bind_try split: option.splits sum.splits prod.splits)
  ultimately show ?thesis using Inr by auto
qed (simp add: read_cgroup_def act_defs)

end
