(* ===== verification/Gpu.thy ===== *)
theory Gpu
  imports GoStrings
begin

text \<open>
  \<open>internal/collector/gpu.go\<close>: the records made of the CSV that \<open>nvidia-smi\<close> prints. Running
  it is a parameter: \<open>run args\<close> is what the program prints for these arguments, or an error.
\<close>

section \<open>Records\<close>

record gpu_process =
  gp_PID :: u32
  gp_UsedMemory :: u64

record gpu_mem =
  gm_Index :: int
  gm_UUID :: string
  gm_Name :: string
  gm_MemTotal :: u64
  gm_MemUsed :: u64
  gm_MemFree :: u64
  gm_UtilGPU :: u32
  gm_UtilMemory :: u32
  gm_MIG :: bool
  gm_Processes :: "gpu_process list"

section \<open>Fields\<close>

text \<open>A field that is no number (\<open>[N/A]\<close>) or too large reads as zero.\<close>

definition csv_uint :: "string \<Rightarrow> u64" where
  "csv_uint s = (case parse_u64 s of Inl _ \<Rightarrow> 0 | Inr n \<Rightarrow> n)"

definition csv_uint32 :: "string \<Rightarrow> u32" where
  "csv_uint32 s = (let n = csv_uint s in if 0xFFFFFFFF < n then 0 else ucast n)"

definition csv_int :: "string \<Rightarrow> int" where
  "csv_int s = (let n = csv_uint s in if word_of_nat max_int64 < n then 0 else sint n)"

definition csv_lines :: "string \<Rightarrow> string list" where
  "csv_lines data = filter (\<lambda>line. trim_space line \<noteq> []) (split_on newline data)"

definition split_csv_fields :: "string \<Rightarrow> nat \<Rightarrow> err + string list" where
  "split_csv_fields line want =
     (let fs = split_on CHR '','' line
      in if length fs \<noteq> want then Inl (ErrFieldCount (length fs) want) else Inr (map trim_space fs))"

section \<open>The two queries\<close>

definition gpu_row :: "string \<Rightarrow> err + gpu_mem" where
  "gpu_row line =
     bind_res (split_csv_fields line 9) (\<lambda>f. Inr
       \<lparr>gm_Index = csv_int (f ! 0), gm_UUID = f ! 1, gm_Name = f ! 2,
        gm_MemTotal = csv_uint (f ! 3), gm_MemUsed = csv_uint (f ! 4), gm_MemFree = csv_uint (f ! 5),
        gm_UtilGPU = csv_uint32 (f ! 6), gm_UtilMemory = csv_uint32 (f ! 7),
        gm_MIG = (f ! 8 = ''Enabled''), gm_Processes = []\<rparr>)"

definition parse_gpu_query_csv :: "string \<Rightarrow> err + gpu_mem list" where
  "parse_gpu_query_csv data = map_res gpu_row (csv_lines data)"

text \<open>A map from UUIDs to processes; a UUID that is not a key reads as the nil slice.\<close>

definition apps_row :: "(string \<Rightarrow> gpu_process list) \<Rightarrow> string \<Rightarrow> err + (string \<Rightarrow> gpu_process list)" where
  "apps_row out line =
     bind_res (split_csv_fields line 3) (\<lambda>f.
       let uuid = f ! 0
       in Inr (out(uuid := out uuid @ [\<lparr>gp_PID = csv_uint32 (f ! 1), gp_UsedMemory = csv_uint (f ! 2)\<rparr>])))"

definition parse_compute_apps_csv :: "string \<Rightarrow> err + (string \<Rightarrow> gpu_process list)" where
  "parse_compute_apps_csv data = fold_res apps_row (\<lambda>_. []) (csv_lines data)"

definition gpu_query_fields :: string where
  "gpu_query_fields = ''index,uuid,name,memory.total,memory.used,memory.free,utilization.gpu,utilization.memory,mig.mode.current''"

definition compute_apps_query_fields :: string where
  "compute_apps_query_fields = ''gpu_uuid,pid,used_memory''"

definition gpu_args :: "string list" where
  "gpu_args = [''--query-gpu='' @ gpu_query_fields, ''--format=csv,noheader,nounits'']"

definition apps_args :: "string list" where
  "apps_args = [''--query-compute-apps='' @ compute_apps_query_fields, ''--format=csv,noheader,nounits'']"

text \<open>\<open>on_path\<close> is whether \<open>exec.LookPath\<close> finds the program; \<open>None\<close> is the code's \<open>(nil, nil)\<close>.\<close>

definition gpu_collect :: "bool \<Rightarrow> (string list \<Rightarrow> err + string) \<Rightarrow> err + gpu_mem list" where
  "gpu_collect on_path run =
     (if \<not> on_path then Inr []
      else bind_res (run gpu_args) (\<lambda>gpu_out.
           bind_res (parse_gpu_query_csv gpu_out) (\<lambda>devices.
           bind_res (run apps_args) (\<lambda>procs_out.
           bind_res (parse_compute_apps_csv procs_out) (\<lambda>procs_by_uuid.
             Inr (map (\<lambda>d. d\<lparr>gm_Processes := procs_by_uuid (gm_UUID d)\<rparr>) devices))))))"

section \<open>What the rows say\<close>

lemma csv_uint_format [simp]: "csv_uint (format_uint (unat n)) = n"
  by (simp add: csv_uint_def)

lemma csv_uint32_format [simp]: "csv_uint32 (format_uint (unat (n :: u32))) = n"
proof -
  have u: "unat (ucast n :: u64) = unat n"
    using unat_u32_less [of n] by (simp add: unsigned_ucast_eq take_bit_eq_mod)
  then have "csv_uint (format_uint (unat n)) = ucast n" by (metis csv_uint_format)
  moreover have "\<not> 0xFFFFFFFF < (ucast n :: u64)"
    using u unat_u32_less [of n] by (simp add: word_less_nat_alt)
  moreover have "ucast (ucast n :: u64) = n"
    using u unat_u32_less [of n]
    by (simp add: word_unat_eq_iff unsigned_ucast_eq [of "ucast n :: u64"] take_bit_eq_mod)
  ultimately show ?thesis by (simp add: csv_uint32_def Let_def)
qed

text \<open>The processes a listing gives for a UUID: its rows, in order.\<close>

definition app_of :: "string list \<Rightarrow> string \<times> gpu_process" where
  "app_of f = (f ! 0, \<lparr>gp_PID = csv_uint32 (f ! 1), gp_UsedMemory = csv_uint (f ! 2)\<rparr>)"

definition csv_cells :: "string \<Rightarrow> string list" where
  "csv_cells line = map trim_space (split_on CHR '','' line)"

lemma split_csv_fields_Inr:
  "split_csv_fields line n = Inr f \<longleftrightarrow> length (csv_cells line) = n \<and> f = csv_cells line"
  by (auto simp: split_csv_fields_def csv_cells_def Let_def)

lemma fold_apps:
  "fold_res apps_row m0 ls = Inr m \<longleftrightarrow>
     list_all (\<lambda>l. length (csv_cells l) = 3) ls
     \<and> m = (\<lambda>u. m0 u @ map snd (filter (\<lambda>a. fst a = u) (map (\<lambda>l. app_of (csv_cells l)) ls)))"
proof (induction ls arbitrary: m0)
  case (Cons l ls)
  have row: "apps_row m0 l = (if length (csv_cells l) = 3
      then Inr (m0(fst (app_of (csv_cells l)) := m0 (fst (app_of (csv_cells l))) @ [snd (app_of (csv_cells l))]))
      else Inl (ErrFieldCount (length (csv_cells l)) 3))"
    by (simp add: apps_row_def split_csv_fields_def csv_cells_def app_of_def Let_def)
  show ?case
  proof (cases "length (csv_cells l) = 3")
    case True
    have "(\<lambda>u. (m0(fst (app_of (csv_cells l)) := m0 (fst (app_of (csv_cells l))) @ [snd (app_of (csv_cells l))])) u
          @ map snd (filter (\<lambda>a. fst a = u) (map (\<lambda>l. app_of (csv_cells l)) ls)))
        = (\<lambda>u. m0 u @ map snd (filter (\<lambda>a. fst a = u) (map (\<lambda>l. app_of (csv_cells l)) (l # ls))))"
      by (rule ext) simp
    with True show ?thesis by (simp add: row Cons.IH)
  qed (simp add: row)
qed auto


definition demo_smi :: "string list \<Rightarrow> err + string" where
  "demo_smi args = Inr (if hd args = ''--query-gpu='' @ gpu_query_fields
     then ''0,u,g,[N/A],5,1,1,1,Enabled'' else ''u,7,9'')"

lemma demo_smi_cells:
  "csv_lines ''0,u,g,[N/A],5,1,1,1,Enabled'' = [''0,u,g,[N/A],5,1,1,1,Enabled'']"
  "csv_lines ''u,7,9'' = [''u,7,9'']"
  "csv_cells ''0,u,g,[N/A],5,1,1,1,Enabled'' = [''0'', ''u'', ''g'', ''[N/A]'', ''5'', ''1'', ''1'', ''1'', ''Enabled'']"
  "csv_cells ''u,7,9'' = [''u'', ''7'', ''9'']"
  by (simp_all add: csv_lines_def csv_cells_def newline_def trim_space_word word_str_def is_word_char_def
      is_ascii_def is_space_def)


end
