(* ===== verification/Records.thy ===== *)
theory Records
  imports Json Cgroup Gpu Vllm DamonSession
begin

text \<open>
  The payloads of \<open>pkg/model/records.go\<close> on the wire: for each record type the JSON object that
  its struct tags give it. A field tagged \<open>omitempty\<close> is left out when it is nil or empty; a map
  is written with its keys sorted.
\<close>

definition omit_nil :: "string \<Rightarrow> ('a \<Rightarrow> json) \<Rightarrow> 'a option \<Rightarrow> (string \<times> json) list" where
  "omit_nil tag f x = (case x of None \<Rightarrow> [] | Some v \<Rightarrow> [(tag, f v)])"

definition omit_empty :: "string \<Rightarrow> ('a list \<Rightarrow> json) \<Rightarrow> 'a list \<Rightarrow> (string \<times> json) list" where
  "omit_empty tag f xs = (if xs = [] then [] else [(tag, f xs)])"

definition labels_json :: "labels \<Rightarrow> json" where
  "labels_json ls = JObject (map (\<lambda>(k, v). (k, JString v)) (sort_key fst ls))"

definition psi_json :: "psi \<Rightarrow> json" where
  "psi_json r = JObject (
     [(''some_avg10'', JFloat (some_avg10 r)), (''some_avg60'', JFloat (some_avg60 r)),
      (''some_avg300'', JFloat (some_avg300 r)), (''some_total'', JUint (some_total r)),
      (''full_avg10'', JFloat (full_avg10 r)), (''full_avg60'', JFloat (full_avg60 r)),
      (''full_avg300'', JFloat (full_avg300 r)), (''full_total'', JUint (full_total r))])"

definition gpu_process_json :: "gpu_process \<Rightarrow> json" where
  "gpu_process_json r = JObject (
     [(''pid'', JUint (ucast (gp_PID r))), (''used'', JUint (gp_UsedMemory r))])"

definition host_mem_json :: "host_mem \<Rightarrow> json" where
  "host_mem_json r = JObject (
     [(''mem_total'', JUint (hm_MemTotal r)), (''mem_free'', JUint (hm_MemFree r)),
      (''mem_available'', JUint (hm_MemAvailable r)),
      (''buffers'', JUint (hm_Buffers r)), (''cached'', JUint (hm_Cached r)),
      (''swap_cached'', JUint (hm_SwapCached r)),
      (''swap_total'', JUint (hm_SwapTotal r)), (''swap_free'', JUint (hm_SwapFree r)),
      (''active'', JUint (hm_Active r)), (''inactive'', JUint (hm_Inactive r)),
      (''active_anon'', JUint (hm_ActiveAnon r)),
      (''inactive_anon'', JUint (hm_InactiveAnon r)),
      (''active_file'', JUint (hm_ActiveFile r)),
      (''inactive_file'', JUint (hm_InactiveFile r)),
      (''unevictable'', JUint (hm_Unevictable r)), (''dirty'', JUint (hm_Dirty r)),
      (''writeback'', JUint (hm_Writeback r)), (''anon_pages'', JUint (hm_AnonPages r)),
      (''mapped'', JUint (hm_Mapped r)), (''shmem'', JUint (hm_Shmem r)),
      (''kreclaimable'', JUint (hm_KReclaimable r)), (''slab'', JUint (hm_Slab r)),
      (''slab_reclaimable'', JUint (hm_SReclaimable r)),
      (''slab_unreclaimable'', JUint (hm_SUnreclaim r)),
      (''kernel_stack'', JUint (hm_KernelStack r)),
      (''page_tables'', JUint (hm_PageTables r)),
      (''commit_limit'', JUint (hm_CommitLimit r)),
      (''committed_as'', JUint (hm_CommittedAS r)),
      (''direct_map4k'', JUint (hm_DirectMap4k r)),
      (''direct_map2m'', JUint (hm_DirectMap2M r)),
      (''direct_map1g'', JUint (hm_DirectMap1G r))])"

definition vmstat_json :: "vmstat \<Rightarrow> json" where
  "vmstat_json r = JObject (
     [(''pgscan_kswapd'', JUint (vm_PgscanKswapd r)),
      (''pgscan_direct'', JUint (vm_PgscanDirect r)),
      (''pgsteal_kswapd'', JUint (vm_PgstealKswapd r)),
      (''pgsteal_direct'', JUint (vm_PgstealDirect r)),
      (''pswpin'', JUint (vm_Pswpin r)), (''pswpout'', JUint (vm_Pswpout r)),
      (''workingset_refault_anon'', JUint (vm_WorkingsetRefaultAnon r)),
      (''workingset_refault_file'', JUint (vm_WorkingsetRefaultFile r)),
      (''workingset_activate_anon'', JUint (vm_WorkingsetActivateAnon r)),
      (''workingset_activate_file'', JUint (vm_WorkingsetActivateFile r)),
      (''oom_kill'', JUint (vm_OomKill r)), (''pgmajfault'', JUint (vm_PgmajFault r))])"

definition numa_mem_json :: "numa_mem \<Rightarrow> json" where
  "numa_mem_json r = JObject (
     [(''node'', JInt (nm_Node r)), (''mem_total'', JUint (nm_MemTotal r)),
      (''mem_free'', JUint (nm_MemFree r)), (''file_pages'', JUint (nm_FilePages r)),
      (''anon_pages'', JUint (nm_AnonPages r)), (''numa_hit'', JUint (nm_NumaHit r)),
      (''numa_miss'', JUint (nm_NumaMiss r)),
      (''numa_foreign'', JUint (nm_NumaForeign r))])"

definition hugepages_json :: "hugepages \<Rightarrow> json" where
  "hugepages_json r = JObject (
     [(''size_kb'', JUint (hp_SizeKB r)), (''node'', JInt (hp_Node r)),
      (''total'', JUint (hp_Total r)), (''free'', JUint (hp_Free r)),
      (''rsvd'', JUint (hp_Rsvd r)), (''surp'', JUint (hp_Surp r))])"

definition cgroup_mem_json :: "cgroup_mem \<Rightarrow> json" where
  "cgroup_mem_json r = JObject (
     [(''cgroup'', JString (cg_Cgroup r)), (''current'', JUint (cg_Current r))]
     @ omit_nil ''max'' JUint (cg_Max r)
     @ omit_nil ''min'' JUint (cg_Min r)
     @ omit_nil ''low'' JUint (cg_Low r)
     @ omit_nil ''high'' JUint (cg_High r)
     @ omit_nil ''peak'' JUint (cg_Peak r)
     @ [(''swap_current'', JUint (cg_SwapCurrent r))]
     @ omit_nil ''psi'' psi_json (cg_PSI r)
     @ [(''anon'', JUint (cg_Anon r)), (''file'', JUint (cg_File r)),
      (''kernel'', JUint (cg_Kernel r)),
      (''slab_reclaimable'', JUint (cg_SlabReclaimable r)),
      (''slab_unreclaimable'', JUint (cg_SlabUnreclaimable r)),
      (''file_mapped'', JUint (cg_FileMapped r)),
      (''file_dirty'', JUint (cg_FileDirty r)),
      (''inactive_anon'', JUint (cg_InactiveAnon r)),
      (''active_anon'', JUint (cg_ActiveAnon r)),
      (''inactive_file'', JUint (cg_InactiveFile r)),
      (''active_file'', JUint (cg_ActiveFile r)),
      (''workingset_refault_anon'', JUint (cg_WorkingsetRefaultAnon r)),
      (''workingset_refault_file'', JUint (cg_WorkingsetRefaultFile r)),
      (''workingset_activate_anon'', JUint (cg_WorkingsetActivateAnon r)),
      (''workingset_activate_file'', JUint (cg_WorkingsetActivateFile r)),
      (''pgscan'', JUint (cg_Pgscan r)), (''pgsteal'', JUint (cg_Pgsteal r))]
     @ omit_empty ''k8s_ns'' JString (cg_K8sNamespace r)
     @ omit_empty ''k8s_pod'' JString (cg_K8sPod r)
     @ omit_empty ''k8s_container_id'' JString (cg_K8sContainerID r)
     @ omit_empty ''k8s_labels'' labels_json (cg_K8sLabels r))"

definition gpu_mem_json :: "gpu_mem \<Rightarrow> json" where
  "gpu_mem_json r = JObject (
     [(''index'', JInt (gm_Index r)), (''uuid'', JString (gm_UUID r)),
      (''name'', JString (gm_Name r)), (''mem_total'', JUint (gm_MemTotal r)),
      (''mem_used'', JUint (gm_MemUsed r)), (''mem_free'', JUint (gm_MemFree r)),
      (''util_gpu'', JUint (ucast (gm_UtilGPU r))),
      (''util_mem'', JUint (ucast (gm_UtilMemory r))), (''mig'', JBool (gm_MIG r))]
     @ omit_empty ''procs'' (\<lambda>ps. JArray (map gpu_process_json ps)) (gm_Processes r))"

definition vllm_json :: "vllm \<Rightarrow> json" where
  "vllm_json r = JObject (
     [(''endpoint'', JString (vl_Endpoint r)),
      (''cache_usage'', JFloat (vl_CacheUsage r)),
      (''prefix_hits'', JFloat (vl_PrefixHits r)),
      (''prefix_queries'', JFloat (vl_PrefixQueries r)),
      (''preemptions'', JFloat (vl_Preemptions r)), (''running'', JFloat (vl_Running r)),
      (''waiting'', JFloat (vl_Waiting r)),
      (''prompt_tokens'', JFloat (vl_PromptTokens r)),
      (''gen_tokens'', JFloat (vl_GenTokens r))])"

definition damon_hist_json :: "damon_hist \<Rightarrow> json" where
  "damon_hist_json r = JObject (
     [(''monitored_bytes'', JUint (monitored_bytes r)),
      (''hot_bytes'', JUint (hot_bytes r)), (''cold_60s'', JUint (cold_60s r)),
      (''cold_300s'', JUint (cold_300s r)), (''cold_1h'', JUint (cold_1h r)),
      (''cold_6h'', JUint (cold_6h r)), (''cold_24h'', JUint (cold_24h r))])"

section \<open>What can fail to marshal\<close>

text \<open>Only a float that is not finite has no JSON form.\<close>

lemma json_ok_omit:
  "(\<forall>kv \<in> set (omit_nil tag f x). json_ok (snd kv)) \<longleftrightarrow> (case x of None \<Rightarrow> True | Some v \<Rightarrow> json_ok (f v))"
  "(\<forall>kv \<in> set (omit_empty tag g xs). json_ok (snd kv)) \<longleftrightarrow> xs = [] \<or> json_ok (g xs)"
  by (auto simp: omit_nil_def omit_empty_def split: option.splits)

lemma json_ok_plain [simp]:
  "json_ok (host_mem_json hm)" "json_ok (vmstat_json vm)" "json_ok (numa_mem_json nm)"
  "json_ok (hugepages_json hp)" "json_ok (damon_hist_json dh)" "json_ok (gpu_process_json gp)"
  "json_ok (labels_json ls)"
  by (auto simp: host_mem_json_def vmstat_json_def numa_mem_json_def hugepages_json_def
      damon_hist_json_def gpu_process_json_def labels_json_def)

lemma json_ok_gpu_mem [simp]: "json_ok (gpu_mem_json gm)"
  by (auto simp: gpu_mem_json_def omit_empty_def)

definition finite_psi :: "psi \<Rightarrow> bool" where
  "finite_psi p \<longleftrightarrow> list_all finite_float
     [some_avg10 p, some_avg60 p, some_avg300 p, full_avg10 p, full_avg60 p, full_avg300 p]"

lemma json_ok_psi: "json_ok (psi_json p) \<longleftrightarrow> finite_psi p"
  by (auto simp: psi_json_def finite_psi_def)

lemma json_ok_cgroup:
  "json_ok (cgroup_mem_json c) \<longleftrightarrow> (case cg_PSI c of None \<Rightarrow> True | Some p \<Rightarrow> finite_psi p)"
  by (simp add: cgroup_mem_json_def ball_Un json_ok_omit json_ok_psi split: option.split)

lemma json_ok_vllm:
  "json_ok (vllm_json v) \<longleftrightarrow> list_all (\<lambda>(key, get). finite_float (get v)) vllm_getters"
  by (auto simp: vllm_json_def vllm_getters_def)


definition plain_codec :: codec where
  "plain_codec = \<lparr>fmt_time = (\<lambda>t. Inr []), fmt_float = (\<lambda>f. ''1'')\<rparr>"

definition nan_psi :: psi where
  "nan_psi = \<lparr>some_avg10 = 9221120237041090561, some_avg60 = 0, some_avg300 = 0, some_total = 0,
     full_avg10 = 0, full_avg60 = 0, full_avg300 = 0, full_total = 0\<rparr>"


end
