(* ===== verification/Sources.thy ===== *)
theory Sources
  imports Records
begin

text \<open>
  \<open>internal/agent/sources.go\<close>: which sources an agent registers, and how a collector's records
  become envelopes. A source's \<open>collect\<close> and \<open>close\<close> act on the host: the trees under \<open>/proc\<close> and
  \<open>/sys\<close>, the DAMON interface, the kubelet and vLLM clients with what they will be answered,
  \<open>nvidia-smi\<close>, and the clock.
\<close>

section \<open>Configuration\<close>

text \<open>The part of \<open>internal/config\<close> that decides what is registered.\<close>

record cgroup_config =
  cgc_Enabled :: bool
  cgc_Globs :: "string list"
  cgc_Max :: int

record damon_cfg =
  dc_Enabled :: bool
  dc_SampleUS :: u64
  dc_AggrUS :: u64
  dc_MaxRegions :: u64

record vllm_config =
  vc_Endpoints :: "string list"
  vc_MetricMap :: "(string \<times> string) list"

record collectors_config =
  cc_Cgroup :: cgroup_config
  cc_Damon :: damon_cfg
  cc_NVML_Enabled :: string
  cc_VLLM :: vllm_config

section \<open>The host\<close>

record 'w host =
  proc_tree :: node
  sys_tree :: node
  real_sys :: 'w
  smi_on_path :: bool
  smi_run :: "string list \<Rightarrow> err + string"
  kube :: kubelet
  vllm_state :: vllm_collector
  wall_clock :: int

text \<open>
  The libraries and the orders in which Go ranges over maps. \<open>sysfs_write\<close> and \<open>sysfs_node\<close> are
  the kernel's \<open>/sys/kernel/mm/damon\<close>.
\<close>

record 'w collector_libs =
  sysfs_write :: "'w writer"
  sysfs_node :: "'w \<Rightarrow> node"
  procfs_mem :: "node \<Rightarrow> err + (string \<Rightarrow> u64 option)"
  procfs_pressure :: "node \<Rightarrow> err + psi_line option \<times> psi_line option"
  hugepages_order :: "path \<Rightarrow> hugepages setters"
  vllm_order :: "string \<Rightarrow> vllm_setters"

section \<open>Envelopes\<close>

text \<open>\<open>json.Marshal\<close> of a payload, kept as a tree.\<close>

definition marshal_payload :: "json \<Rightarrow> err + json" where
  "marshal_payload j = (if json_ok j then Inr j else Inl (ErrInvalid ''unsupported value''))"

definition envelopes ::
  "('a \<Rightarrow> json) \<Rightarrow> string \<Rightarrow> string \<Rightarrow> string \<Rightarrow> 'a list \<Rightarrow> ('w host, envelope list) act" where
  "envelopes enc site host typ recs =
     bind_act (get_act wall_clock) (\<lambda>ts.
       case map_res (\<lambda>r. bind_res (marshal_payload (enc r)) (\<lambda>b. Inr
              \<lparr>env_TS = ts, env_Site = site, env_Host = host, env_Type = typ, env_Schema = 1,
               env_Payload = b\<rparr>)) recs of
         Inl e \<Rightarrow> fail e
       | Inr out \<Rightarrow> ret out)"

definition single ::
  "('a \<Rightarrow> json) \<Rightarrow> string \<Rightarrow> string \<Rightarrow> string \<Rightarrow> ('w host, 'a option) act \<Rightarrow> ('w host, envelope list) act" where
  "single enc site host typ collect =
     bind_act collect (\<lambda>rec.
       case rec of None \<Rightarrow> ret [] | Some r \<Rightarrow> envelopes enc site host typ [r])"

definition multi ::
  "('a \<Rightarrow> json) \<Rightarrow> string \<Rightarrow> string \<Rightarrow> string \<Rightarrow> ('w host, 'a list) act \<Rightarrow> ('w host, envelope list) act" where
  "multi enc site host typ collect = bind_act collect (envelopes enc site host typ)"

section \<open>Collectors as operations on the host\<close>

text \<open>A collector that only reads the host, and one with a result that is always present.\<close>

definition reading :: "('w host \<Rightarrow> err + 'a) \<Rightarrow> ('w host, 'a) act" where
  "reading f s = (f s, s)"

definition present :: "err + 'a \<Rightarrow> err + 'a option" where
  "present r = (case r of Inl e \<Rightarrow> Inl e | Inr x \<Rightarrow> Inr (Some x))"

definition on_real_sys :: "('w \<Rightarrow> (err + 'a) \<times> 'w) \<Rightarrow> ('w host, 'a) act" where
  "on_real_sys m s = (case m (real_sys s) of (r, w) \<Rightarrow> (r, s\<lparr>real_sys := w\<rparr>))"

definition on_kube :: "(kubelet \<Rightarrow> (err + 'a) \<times> kubelet) \<Rightarrow> ('w host, 'a) act" where
  "on_kube m s = (case m (kube s) of (r, k) \<Rightarrow> (r, s\<lparr>kube := k\<rparr>))"

definition on_vllm :: "(vllm_collector \<Rightarrow> (err + 'a) \<times> vllm_collector) \<Rightarrow> ('w host, 'a) act" where
  "on_vllm m s = (case m (vllm_state s) of (r, v) \<Rightarrow> (r, s\<lparr>vllm_state := v\<rparr>))"

section \<open>Sources\<close>

definition tier_fast :: nat where "tier_fast = 1"
definition tier_medium :: nat where "tier_medium = 2"
definition tier_slow :: nat where "tier_slow = 4"

record 's source =
  src_typ :: string
  src_tier :: nat
  src_collect :: "('s, envelope list) act"
  src_close :: "('s, unit) act option"

definition cgroup_source ::
  "cgroup_config \<Rightarrow> string \<Rightarrow> string \<Rightarrow> bool \<Rightarrow> 'w host source" where
  "cgroup_source cfg site host k8s =
     \<lparr>src_typ = ''cgroup_mem'', src_tier = tier_medium,
      src_collect = (\<lambda>s.
        bind_act (on_kube (cgroup_collect (new_cgroup (sys_tree s) (cgc_Globs cfg) (cgc_Max cfg)
            (if k8s then Some lookup_pod else None))))
          (\<lambda>(recs, warned). envelopes cgroup_mem_json site host ''cgroup_mem'' recs) s),
      src_close = None\<rparr>"

definition gpu_source :: "string \<Rightarrow> string \<Rightarrow> string \<Rightarrow> 'w host source option" where
  "gpu_source enabled site host =
     (if enabled \<noteq> ''auto'' \<and> enabled \<noteq> ''true'' then None
      else Some
        \<lparr>src_typ = ''gpu_mem'', src_tier = tier_fast,
         src_collect = multi gpu_mem_json site host ''gpu_mem''
           (reading (\<lambda>s. gpu_collect (smi_on_path s) (smi_run s))),
         src_close = None\<rparr>)"

definition vllm_source :: "'w collector_libs \<Rightarrow> string \<Rightarrow> string \<Rightarrow> 'w host source" where
  "vllm_source L site host =
     \<lparr>src_typ = ''vllm'', src_tier = tier_fast,
      src_collect = multi vllm_json site host ''vllm'' (on_vllm (vllm_collect (vllm_order L))),
      src_close = None\<rparr>"

text \<open>\<open>Session.Stop\<close> as an operation that may fail.\<close>

definition stop_session :: "'w collector_libs \<Rightarrow> session \<Rightarrow> ('w host, unit) act" where
  "stop_session L sess =
     on_real_sys (\<lambda>w. case damon_stop (sysfs_write L) sess w of
       (None, w') \<Rightarrow> (Inr (), w') | (Some e, w') \<Rightarrow> (Inl e, w'))"

definition damon_source_config :: "damon_cfg \<Rightarrow> addr_range list \<Rightarrow> damon_config" where
  "damon_source_config cfg regions =
     \<lparr>ops = ''paddr'', sample_us = dc_SampleUS cfg, aggr_us = dc_AggrUS cfg, update_us = 1000000,
      min_regions = 10, max_regions = dc_MaxRegions cfg, cfg_regions = regions\<rparr>"

text \<open>\<open>damonSource\<close>: \<open>None\<close> where the code logs a warning and runs without DAMON.\<close>

definition damon_source ::
  "'w collector_libs \<Rightarrow> damon_cfg \<Rightarrow> string \<Rightarrow> string \<Rightarrow> ('w host, 'w host source option) act" where
  "damon_source L cfg site host =
     bind_act (get_act (\<lambda>s. detect_at (proc_tree s) (sys_tree s))) (\<lambda>caps.
     case caps of
       Inl e \<Rightarrow> ret None
     | Inr c \<Rightarrow>
       if \<not> sysfs c then ret None
       else bind_act (get_act (\<lambda>s. parse_iomem (proc_tree s))) (\<lambda>regions.
       case regions of
         Inl e \<Rightarrow> ret None
       | Inr rs \<Rightarrow>
         bind_act (try_act (on_real_sys (damon_start (sysfs_write L) (damon_source_config cfg rs)))) (\<lambda>started.
         case started of
           Inl e \<Rightarrow> ret None
         | Inr sess \<Rightarrow>
           bind_act (try_act (on_real_sys (snapshot (sysfs_write L) (sysfs_node L) sess))) (\<lambda>probe.
           case probe of
             Inl e \<Rightarrow> bind_act (try_act (stop_session L sess)) (\<lambda>_. ret None)
           | Inr _ \<Rightarrow> ret (Some
               \<lparr>src_typ = ''damon_hist'', src_tier = tier_slow,
                src_collect = single damon_hist_json site host ''damon_hist''
                  (bind_act (on_real_sys (damon_collect (sysfs_write L) (sysfs_node L) sess (dc_AggrUS cfg)))
                    (\<lambda>h. ret (Some h))),
                src_close = Some (stop_session L sess)\<rparr>)))))"

definition base_sources :: "'w collector_libs \<Rightarrow> string \<Rightarrow> string \<Rightarrow> 'w host source list" where
  "base_sources L site host =
     [\<lparr>src_typ = ''host_mem'', src_tier = tier_fast,
       src_collect = single host_mem_json site host ''host_mem''
         (reading (\<lambda>s. present (meminfo_collect (procfs_mem L) (proc_tree s)))), src_close = None\<rparr>,
      \<lparr>src_typ = ''vmstat'', src_tier = tier_fast,
       src_collect = single vmstat_json site host ''vmstat''
         (reading (\<lambda>s. present (vmstat_collect (proc_tree s)))), src_close = None\<rparr>,
      \<lparr>src_typ = ''psi'', src_tier = tier_fast,
       src_collect = single psi_json site host ''psi''
         (reading (\<lambda>s. psi_collect (procfs_pressure L) (proc_tree s))), src_close = None\<rparr>,
      \<lparr>src_typ = ''numa_mem'', src_tier = tier_medium,
       src_collect = multi numa_mem_json site host ''numa_mem''
         (reading (\<lambda>s. numa_collect (sys_tree s))), src_close = None\<rparr>,
      \<lparr>src_typ = ''hugepages'', src_tier = tier_slow,
       src_collect = multi hugepages_json site host ''hugepages''
         (reading (\<lambda>s. hugepages_collect (hugepages_order L) (sys_tree s))), src_close = None\<rparr>]"

text \<open>\<open>NewVLLM\<close> for the configured endpoints; the environment of the collector stays as it is.\<close>

definition init_vllm :: "vllm_config \<Rightarrow> 'w host \<Rightarrow> 'w host" where
  "init_vllm cfg s = s\<lparr>vllm_state := (vllm_state s)
     \<lparr>endpoints := vc_Endpoints cfg, metric_map := vc_MetricMap cfg, warned_names := []\<rparr>\<rparr>"

definition option_list :: "'a option \<Rightarrow> 'a list" where
  "option_list x = (case x of None \<Rightarrow> [] | Some v \<Rightarrow> [v])"

definition build_sources ::
  "'w collector_libs \<Rightarrow> collectors_config \<Rightarrow> string \<Rightarrow> string \<Rightarrow> bool
     \<Rightarrow> ('w host, 'w host source list) act" where
  "build_sources L cfg site host k8s =
     bind_act (if dc_Enabled (cc_Damon cfg) then damon_source L (cc_Damon cfg) site host else ret None) (\<lambda>dsrc.
     bind_act (if vc_Endpoints (cc_VLLM cfg) \<noteq> [] then upd_act (init_vllm (cc_VLLM cfg)) else ret ()) (\<lambda>_.
     ret (base_sources L site host
       @ (if cgc_Enabled (cc_Cgroup cfg) then [cgroup_source (cc_Cgroup cfg) site host k8s] else [])
       @ option_list dsrc
       @ option_list (gpu_source (cc_NVML_Enabled cfg) site host)
       @ (if vc_Endpoints (cc_VLLM cfg) \<noteq> [] then [vllm_source L site host] else []))))"


section \<open>Envelopes\<close>

definition envelope_of :: "string \<Rightarrow> string \<Rightarrow> string \<Rightarrow> int \<Rightarrow> json \<Rightarrow> envelope" where
  "envelope_of site host typ ts j =
     \<lparr>env_TS = ts, env_Site = site, env_Host = host, env_Type = typ, env_Schema = 1, env_Payload = j\<rparr>"

text \<open>
  A tick is all or nothing: when every record of a collection marshals, the envelopes are the
  records in order, with one time stamp, the source's type, site and host, and schema 1; when one
  does not, none of them is emitted. Nothing else of the host changes.
\<close>
theorem envelopes_all_or_nothing:
  "envelopes enc site host typ recs s =
     (if list_all (\<lambda>r. json_ok (enc r)) recs
      then Inr (map (\<lambda>r. envelope_of site host typ (wall_clock s) (enc r)) recs)
      else Inl (ErrInvalid ''unsupported value''), s)"
proof -
  let ?f = "\<lambda>r. bind_res (marshal_payload (enc r)) (\<lambda>b. Inr
              \<lparr>env_TS = wall_clock s, env_Site = site, env_Host = host, env_Type = typ, env_Schema = 1,
               env_Payload = b\<rparr>)"
  have "map_res ?f recs = (if list_all (\<lambda>r. json_ok (enc r)) recs
      then Inr (map (\<lambda>r. envelope_of site host typ (wall_clock s) (enc r)) recs)
      else Inl (ErrInvalid ''unsupported value''))"
    by (induction recs) (auto simp: marshal_payload_def envelope_of_def)
  then show ?thesis by (simp add: envelopes_def)
qed

definition stamped :: "string \<Rightarrow> string \<Rightarrow> string \<Rightarrow> envelope \<Rightarrow> bool" where
  "stamped site host typ e \<longleftrightarrow>
     env_Site e = site \<and> env_Host e = host \<and> env_Type e = typ \<and> env_Schema e = 1 \<and> json_ok (env_Payload e)"

lemma stamped_envelopes:
  "envelopes enc site host typ recs s = (Inr envs, s') \<Longrightarrow> list_all (stamped site host typ) envs"
  unfolding envelopes_all_or_nothing
  by (auto simp: list_all_iff stamped_def envelope_of_def split: if_splits)

lemma stamped_single:
  "single enc site host typ c s = (Inr envs, s') \<Longrightarrow> list_all (stamped site host typ) envs"
  by (auto simp: single_def bind_act_Inr split: option.splits dest: stamped_envelopes)

lemma stamped_multi:
  "multi enc site host typ c s = (Inr envs, s') \<Longrightarrow> list_all (stamped site host typ) envs"
  by (auto simp: multi_def bind_act_Inr dest: stamped_envelopes)

definition stamps :: "string \<Rightarrow> string \<Rightarrow> 'w host source \<Rightarrow> bool" where
  "stamps site host src \<longleftrightarrow> (\<forall>s envs s'. src_collect src s = (Inr envs, s') \<longrightarrow>
     list_all (stamped site host (src_typ src)) envs)"

lemma stamps_base: "list_all (stamps site host) (base_sources L site host)"
  by (simp add: base_sources_def stamps_def) (auto dest: stamped_single stamped_multi)

lemma stamps_others:
  "stamps site host (cgroup_source cg site host k)"
  "gpu_source en site host = Some g \<Longrightarrow> stamps site host g"
  "stamps site host (vllm_source L site host)"
  by (auto simp: stamps_def cgroup_source_def gpu_source_def vllm_source_def bind_act_Inr
      dest: stamped_envelopes stamped_multi split: if_splits prod.splits)

section \<open>DAMON\<close>

text \<open>What \<open>damonSource\<close> comes to once a session has been started.\<close>

lemma damon_source_cases:
  "\<exists>r s'. damon_source L cfg site host s = (Inr r, s')
     \<and> (case r of
          None \<Rightarrow> True
        | Some src \<Rightarrow> \<exists>sess. src =
               \<lparr>src_typ = ''damon_hist'', src_tier = tier_slow,
                src_collect = single damon_hist_json site host ''damon_hist''
                  (bind_act (on_real_sys (damon_collect (sysfs_write L) (sysfs_node L) sess (dc_AggrUS cfg)))
                    (\<lambda>h. ret (Some h))),
                src_close = Some (stop_session L sess)\<rparr>)"
  by (auto simp: damon_source_def bind_try split: sum.split prod.split)


lemma optional_damon_source:
  "\<exists>dsrc s1. (if dc_Enabled cfg then damon_source L cfg site host else ret None) s = (Inr dsrc, s1)
     \<and> (\<not> dc_Enabled cfg \<longrightarrow> dsrc = None)
     \<and> (\<forall>src. dsrc = Some src \<longrightarrow> src_typ src = ''damon_hist'' \<and> src_tier src = 4
          \<and> src_close src \<noteq> None \<and> stamps site host src)"
proof (cases "dc_Enabled cfg")
  case True
  obtain r t where r: "damon_source L cfg site host s = (Inr r, t)"
    and c: "case r of None \<Rightarrow> True
      | Some src \<Rightarrow> \<exists>sess. src =
             \<lparr>src_typ = ''damon_hist'', src_tier = tier_slow,
              src_collect = single damon_hist_json site host ''damon_hist''
                (bind_act (on_real_sys (damon_collect (sysfs_write L) (sysfs_node L) sess (dc_AggrUS cfg)))
                  (\<lambda>h. ret (Some h))),
              src_close = Some (stop_session L sess)\<rparr>"
    using damon_source_cases [of L cfg site host s] by blast
  have "src_typ src = ''damon_hist'' \<and> src_tier src = 4 \<and> src_close src \<noteq> None \<and> stamps site host src"
    if "r = Some src" for src
    using c that by (auto simp: tier_slow_def stamps_def dest: stamped_single)
  with r True show ?thesis by (intro exI [of _ r] exI [of _ t]) simp
qed (simp add: ret_def)


text \<open>
  A DAMON session is never leaked: if a session has been started but its probe fails, the
  agent runs without DAMON and the last thing done to the kernel interface was to switch the
  session off; if the source is registered, its \<open>close\<close> is what switches this session off.
\<close>
theorem damon_source_releases:
  assumes "damon_source L cfg site host s = (Inr r, s')"
    and "parse_iomem (proc_tree s) = Inr rs"
    and "damon_start (sysfs_write L) (damon_source_config cfg rs) (real_sys s) = (Inr sess, w)"
    and "detect_at (proc_tree s) (sys_tree s) = Inr c" and "sysfs c"
  shows "(case r of
      None \<Rightarrow> (\<exists>e. fst (snapshot (sysfs_write L) (sysfs_node L) sess w) = Inl e)
        \<and> real_sys s' = snd (sysfs_write L (snd (snapshot (sysfs_write L) (sysfs_node L) sess w))
                              (kdamond sess @ [''state'']) ''off'')
    | Some src \<Rightarrow> src_close src = Some (stop_session L sess)
        \<and> real_sys s' = snd (snapshot (sysfs_write L) (sysfs_node L) sess w))"
  using assms
  by (auto simp: damon_source_def bind_try on_real_sys_def stop_session_def damon_stop_def
      split: prod.splits sum.splits option.splits)

text \<open>A kernel that accepts every write, remembered as the last one, but has no tried regions.\<close>

definition demo_libs_of :: "(path \<times> string) collector_libs" where
  "demo_libs_of =
     \<lparr>sysfs_write = (\<lambda>w p v. (None, (p, v))), sysfs_node = (\<lambda>w. Dir []),
      procfs_mem = (\<lambda>t. Inl ErrIO), procfs_pressure = (\<lambda>t. Inl ErrIO),
      hugepages_order = (\<lambda>p. hugepages_fields), vllm_order = (\<lambda>e. vllm_fields)\<rparr>"

definition demo_host :: "(path \<times> string) host" where
  "demo_host =
     \<lparr>proc_tree = Dir [(''sys'', Dir [(''kernel'', Dir [(''osrelease'', File ''6.8.0'')])]),
        (''iomem'', File [])],
      sys_tree = Dir [(''kernel'', Dir [(''mm'', Dir [(''damon'', Dir [(''admin'', Dir [(''kdamonds'',
        Dir [(''nr_kdamonds'', File ''0'')])])])])])],
      real_sys = ([], []), smi_on_path = False, smi_run = (\<lambda>a. Inl ErrIO),
      kube = new_kubelet [] [] [] 0 0 [], vllm_state = new_vllm [] [] (\<lambda>u. True) [], wall_clock = 7\<rparr>"

definition demo_damon_cfg :: damon_cfg where
  "demo_damon_cfg = \<lparr>dc_Enabled = True, dc_SampleUS = 5000, dc_AggrUS = 100000, dc_MaxRegions = 1000\<rparr>"

lemma demo_writes:
  "\<exists>v. do_writes (\<lambda>w p v. (None, (p, v))) w ws = (None, v)"
  by (induction ws arbitrary: w) auto

theorem damon_source_releases_witness:
  "\<exists>s'. damon_source demo_libs_of demo_damon_cfg [] [] demo_host = (Inr None, s')
     \<and> real_sys s' = (kdamond0 @ [''state''], ''off'')"
proof -
  let ?cfg = "damon_source_config demo_damon_cfg []"
  obtain w where st: "damon_start (sysfs_write demo_libs_of) ?cfg (real_sys demo_host) = (Inr \<lparr>kdamond = kdamond0\<rparr>, w)"
    using demo_writes [of "(kdamond0 @ [''state''], ''off'')" "start_writes ?cfg"]
    by (auto simp: damon_start_def demo_libs_of_def)
  have det: "detect_at (proc_tree demo_host) (sys_tree demo_host) =
      Inr \<lparr>sysfs = True, paddr = True, tried_regions = kernel_at_least (trim_space ''6.8.0'') 6 2\<rparr>"
    by (simp add: detect_at_def demo_host_def sysfs_admin_root_def os_stat_def read_kernel_release_def os_read_file_def)
  have snap: "fst (snapshot (sysfs_write demo_libs_of) (sysfs_node demo_libs_of) \<lparr>kdamond = kdamond0\<rparr> w) = Inl ErrNotExist"
    by (simp add: snapshot_def demo_libs_of_def read_tried_regions_def os_read_dir_def
        tried_regions_dir_def kdamond0_def sysfs_admin_root_def)
  have io: "parse_iomem (proc_tree demo_host) = Inr []"
    by (simp add: demo_host_def parse_iomem_def parse_iomem_file_def os_read_file_def parse_iomem_reader_def
        scan_lines_unlines [of "[]", simplified])
  obtain r s' where d: "damon_source demo_libs_of demo_damon_cfg [] [] demo_host = (Inr r, s')"
    using damon_source_cases [of demo_libs_of demo_damon_cfg "[]" "[]" demo_host] by blast
  have "r = None"
    using d snap st det io
    by (auto simp: damon_source_def bind_try on_real_sys_def split: prod.splits sum.splits option.splits)
  with damon_source_releases [OF d io st det] d show ?thesis
    by (simp add: demo_libs_of_def)
qed

end
