(* ===== verification/Disk.thy ===== *)
theory Disk
  imports Effects GoStrings "HOL-Library.AList"
begin

text \<open>
  The spool directory as \<open>internal/spool\<close>, \<open>internal/ship\<close> and the operating system see it:
  its files, the calls the code makes on them, and what other processes and failures do
  between and during these calls.
\<close>

section \<open>The world: a directory, a clock, and what happens around the process\<close>

text \<open>
  The spool directory is an association list from names to contents. \<open>handle_open\<close> is the
  state of the \<open>*os.File\<close> of the active file. Each system call first takes the next event of
  \<open>script\<close>: segments that the concurrent shipper removes and time that passes before the call,
  and whether the call fails; a failing write writes \<open>n\<close> bytes first. When the script is
  used up nothing happens and every call succeeds. A theorem about every script is one about
  every interleaving with the shipper and every pattern of failures; since a failing call ends
  the operation, it also covers a process that is killed at that call.
\<close>

record event =
  ev_fail :: "nat option"
  ev_shipped :: "string list"
  ev_tick :: nat

record world =
  dir :: "(string \<times> string) list"
  handle_open :: bool
  mtime :: int
  clock :: int
  minted :: nat
  script :: "event list"

definition quiet_event :: event where
  "quiet_event = \<lparr>ev_fail = None, ev_shipped = [], ev_tick = 0\<rparr>"

definition active_name :: string where
  "active_name = ''active.jsonl''"

definition seg_suffix :: string where
  "seg_suffix = ''.jsonl.zst''"

definition tmp_suffix :: string where
  "tmp_suffix = ''.jsonl.zst.tmp''"

definition is_seg :: "string \<Rightarrow> bool" where
  "is_seg n \<longleftrightarrow> has_suffix n seg_suffix"

definition seg_names :: "(string \<times> string) list \<Rightarrow> string list" where
  "seg_names d = sort (filter is_seg (map fst d))"

definition env_step :: "'z world_scheme \<Rightarrow> event \<times> 'z world_scheme" where
  "env_step s =
     (case script s of
        [] \<Rightarrow> (quiet_event, s)
      | ev # evs \<Rightarrow>
          (ev, s\<lparr>script := evs,
                 dir := filter (\<lambda>(n, c). \<not> (is_seg n \<and> n \<in> set (ev_shipped ev))) (dir s),
                 clock := clock s + int (ev_tick ev)\<rparr>))"

text \<open>A system call: \<open>ok\<close> is what it does, \<open>bad n\<close> what a failing one leaves behind.\<close>

definition syscall ::
  "('z world_scheme, 'a) act \<Rightarrow> (nat \<Rightarrow> 'z world_scheme \<Rightarrow> 'z world_scheme) \<Rightarrow> ('z world_scheme, 'a) act" where
  "syscall ok bad s =
     (case env_step s of (ev, s1) \<Rightarrow>
       (case ev_fail ev of None \<Rightarrow> ok s1 | Some n \<Rightarrow> (Inl ErrIO, bad n s1)))"

definition file_of :: "'z world_scheme \<Rightarrow> string \<Rightarrow> string option" where
  "file_of s n = map_of (dir s) n"

definition content_of :: "'z world_scheme \<Rightarrow> string \<Rightarrow> string" where
  "content_of s n = (case file_of s n of None \<Rightarrow> [] | Some c \<Rightarrow> c)"

abbreviation active_of :: "'z world_scheme \<Rightarrow> string" where
  "active_of s \<equiv> content_of s active_name"

definition put_file :: "string \<Rightarrow> string \<Rightarrow> 'z world_scheme \<Rightarrow> 'z world_scheme" where
  "put_file n c s = s\<lparr>dir := AList.update n c (dir s)\<rparr>"

definition del_file :: "string \<Rightarrow> 'z world_scheme \<Rightarrow> 'z world_scheme" where
  "del_file n s = s\<lparr>dir := AList.delete n (dir s)\<rparr>"

text \<open>The \<open>*os.File\<close> of the active file; on a closed one every call fails with \<open>os.ErrClosed\<close>.\<close>

definition append_active :: "string \<Rightarrow> 'z world_scheme \<Rightarrow> 'z world_scheme" where
  "append_active b s = (put_file active_name (active_of s @ b) s)\<lparr>mtime := clock s\<rparr>"

definition handle_sync :: "('z world_scheme, unit) act" where
  "handle_sync = syscall (\<lambda>s. if handle_open s then ret () s else fail ErrIO s) (\<lambda>n s. s)"

definition handle_close :: "('z world_scheme, unit) act" where
  "handle_close =
     syscall (\<lambda>s. if handle_open s then (Inr (), s\<lparr>handle_open := False\<rparr>) else fail ErrIO s)
       (\<lambda>n s. s\<lparr>handle_open := False\<rparr>)"

definition handle_write :: "string \<Rightarrow> ('z world_scheme, int) act" where
  "handle_write b =
     syscall (\<lambda>s. if handle_open s then (Inr (int (length b)), append_active b s) else fail ErrIO s)
       (\<lambda>n s. if handle_open s then append_active (take n b) s else s)"

definition open_append :: "('z world_scheme, unit) act" where
  "open_append =
     syscall (\<lambda>s. (Inr (),
         (if file_of s active_name = None then (put_file active_name [] s)\<lparr>mtime := clock s\<rparr> else s)
           \<lparr>handle_open := True\<rparr>))
       (\<lambda>n s. s)"

definition open_trunc :: "('z world_scheme, unit) act" where
  "open_trunc =
     syscall (\<lambda>s. (Inr (), (put_file active_name [] s)\<lparr>handle_open := True, mtime := clock s\<rparr>))
       (\<lambda>n s. s)"

text \<open>Files by name.\<close>

definition read_file :: "string \<Rightarrow> ('z world_scheme, string) act" where
  "read_file n =
     syscall (\<lambda>s. case file_of s n of None \<Rightarrow> fail ErrNotExist s | Some c \<Rightarrow> ret c s) (\<lambda>n s. s)"

definition create_file :: "string \<Rightarrow> ('z world_scheme, unit) act" where
  "create_file n = syscall (\<lambda>s. (Inr (), put_file n [] s)) (\<lambda>n s. s)"

definition append_file :: "string \<Rightarrow> string \<Rightarrow> ('z world_scheme, unit) act" where
  "append_file n b =
     syscall (\<lambda>s. (Inr (), put_file n (content_of s n @ b) s))
       (\<lambda>k s. put_file n (content_of s n @ take k b) s)"

definition sync_file :: "('z world_scheme, unit) act" where
  "sync_file = syscall (ret ()) (\<lambda>n s. s)"

definition rename_file :: "string \<Rightarrow> string \<Rightarrow> ('z world_scheme, unit) act" where
  "rename_file a b =
     syscall (\<lambda>s. case file_of s a of
                    None \<Rightarrow> fail ErrNotExist s
                  | Some c \<Rightarrow> (Inr (), put_file b c (del_file a s)))
       (\<lambda>n s. s)"

definition stat_file :: "string \<Rightarrow> ('z world_scheme, int) act" where
  "stat_file n =
     syscall (\<lambda>s. case file_of s n of
                    None \<Rightarrow> fail ErrNotExist s
                  | Some c \<Rightarrow> ret (int (length c)) s)
       (\<lambda>n s. s)"

definition remove_file :: "string \<Rightarrow> ('z world_scheme, unit) act" where
  "remove_file n =
     syscall (\<lambda>s. case file_of s n of
                    None \<Rightarrow> fail ErrNotExist s
                  | Some _ \<Rightarrow> (Inr (), del_file n s))
       (\<lambda>n s. s)"

text \<open>\<open>Segments\<close>: the names with the segment suffix, sorted.\<close>

definition segments :: "('z world_scheme, string list) act" where
  "segments = syscall (\<lambda>s. ret (seg_names (dir s)) s) (\<lambda>n s. s)"

section \<open>Lemmas\<close>

lemma is_seg_active [simp]: "\<not> is_seg active_name"
  by (simp add: is_seg_def active_name_def seg_suffix_def has_suffix_def)

definition seg_files :: "(string \<times> string) list \<Rightarrow> (string \<times> string) list" where
  "seg_files d = filter (\<lambda>f. is_seg (fst f)) d"

lemma seg_names_files: "seg_names d = sort (map fst (seg_files d))"
  by (simp add: seg_names_def seg_files_def filter_map o_def)

lemma set_seg_names: "set (seg_names d) = {n \<in> fst ` set d. is_seg n}"
  by (auto simp: seg_names_def)

lemma seg_files_update [simp]:
  "\<not> is_seg n \<Longrightarrow> seg_files (AList.update n c d) = seg_files d"
  by (induction d) (auto simp: seg_files_def)

lemma seg_files_delete:
  "seg_files (AList.delete n d) = AList.delete n (seg_files d)"
  by (induction d) (auto simp: seg_files_def)

lemma delete_absent: "n \<notin> fst ` set d \<Longrightarrow> AList.delete n d = d"
  by (induction d) auto

lemma seg_files_delete_other [simp]: "\<not> is_seg n \<Longrightarrow> seg_files (AList.delete n d) = seg_files d"
  unfolding seg_files_delete by (rule delete_absent) (auto simp: seg_files_def)

lemma env_step_dir:
  "dir (snd (env_step s)) = dir s \<or>
     (\<exists>gone. dir (snd (env_step s)) = filter (\<lambda>(n, c). \<not> (is_seg n \<and> n \<in> gone)) (dir s))"
  by (auto simp: env_step_def split: list.split)

lemma env_step_same [simp]:
  "handle_open (snd (env_step s)) = handle_open s"
  "minted (snd (env_step s)) = minted s"
  "mtime (snd (env_step s)) = mtime s"
  by (auto simp: env_step_def split: list.split)

lemma env_step_nonseg: "\<not> is_seg n \<Longrightarrow> file_of (snd (env_step s)) n = file_of s n"
proof -
  assume "\<not> is_seg n"
  then have "map_of (filter (\<lambda>(n, c). \<not> (is_seg n \<and> n \<in> gone)) d) n = map_of d n" for gone d
    by (induction d) auto
  then show ?thesis using env_step_dir [of s] by (auto simp: file_of_def)
qed

lemma keeps_syscall:
  assumes "\<And>s. P s \<Longrightarrow> P (snd (env_step s))" and "keeps P ok" and "\<And>n s. P s \<Longrightarrow> P (bad n s)"
  shows "keeps P (syscall ok bad)"
  using assms unfolding keeps_def syscall_def
  by (auto split: prod.split option.split) (metis snd_conv)+

lemma put_file_simps [simp]:
  "dir (put_file n c s) = AList.update n c (dir s)"
  "handle_open (put_file n c s) = handle_open s"
  "minted (put_file n c s) = minted s"
  "script (put_file n c s) = script s"
  "clock (put_file n c s) = clock s"
  "mtime (put_file n c s) = mtime s"
  by (simp_all add: put_file_def)

lemma del_file_simps [simp]:
  "dir (del_file n s) = AList.delete n (dir s)"
  "handle_open (del_file n s) = handle_open s"
  "minted (del_file n s) = minted s"
  "script (del_file n s) = script s"
  "clock (del_file n s) = clock s"
  "mtime (del_file n s) = mtime s"
  by (simp_all add: del_file_def)

lemma append_active_simps [simp]:
  "dir (append_active b s) = AList.update active_name (active_of s @ b) (dir s)"
  "handle_open (append_active b s) = handle_open s"
  "minted (append_active b s) = minted s"
  "script (append_active b s) = script s"
  "clock (append_active b s) = clock s"
  by (simp_all add: append_active_def)

subsection \<open>Fewer and fewer segments\<close>

text \<open>All calls but a publishing rename leave at most the segments there were.\<close>

definition within :: "(string \<times> string) list \<Rightarrow> 'z world_scheme \<Rightarrow> bool" where
  "within d0 s \<longleftrightarrow> mset (seg_files (dir s)) \<subseteq># mset d0"

lemma within_refl: "within (seg_files (dir s)) s"
  by (simp add: within_def)

lemma within_env: "within d0 s \<Longrightarrow> within d0 (snd (env_step s))"
proof -
  have "mset (seg_files (filter P (dir s))) \<subseteq># mset (seg_files (dir s))" for P
  proof -
    have "seg_files (filter P (dir s)) = filter P (seg_files (dir s))"
      by (simp add: seg_files_def conj_commute)
    then show ?thesis by simp
  qed
  then show "within d0 s \<Longrightarrow> ?thesis"
    using env_step_dir [of s] unfolding within_def by (metis subset_mset.order_trans)
qed

lemma within_delete: "mset (seg_files d) \<subseteq># D \<Longrightarrow> mset (seg_files (AList.delete n d)) \<subseteq># D"
  by (metis AList.delete_eq multiset_filter_subset mset_filter seg_files_delete subset_mset.order_trans)

lemma keeps_within:
  "keeps (within d0) segments" "keeps (within d0) (stat_file n)" "keeps (within d0) (remove_file n)"
  "keeps (within d0) (read_file n)" "keeps (within d0) sync_file" "keeps (within d0) handle_sync"
  "keeps (within d0) handle_close" "keeps (within d0) (handle_write b)"
  unfolding segments_def stat_file_def remove_file_def read_file_def sync_file_def handle_sync_def
    handle_close_def handle_write_def
  by (rule keeps_syscall; (erule within_env)?;
      auto simp: keeps_def act_defs within_def within_delete split: option.split)+

text \<open>How a call that returns a value came to it.\<close>

lemma syscall_Inr:
  "syscall ok bad s = (Inr a, s') \<longleftrightarrow>
     ev_fail (fst (env_step s)) = None \<and> ok (snd (env_step s)) = (Inr a, s')"
  by (auto simp: syscall_def split: prod.split option.split)

lemma segments_Inr:
  "segments s = (Inr segs, s') \<Longrightarrow> segs = seg_names (dir s') \<and> s' = snd (env_step s)"
  by (auto simp: segments_def syscall_Inr ret_def)

end
