(* ===== verification/Spool.thy ===== *)
theory Spool
  imports Disk Json
begin

text \<open>
  \<open>internal/spool/spool.go\<close>: the on-disk queue of envelopes. Envelopes are appended as JSON
  lines to \<open>active.jsonl\<close>; a full or old active file is compressed to \<open><ulid>.jsonl.zst\<close>,
  published by a rename, and the oldest such segments are dropped when they exceed a cap.
\<close>

section \<open>The spool\<close>

record spool = world +
  rotate_bytes :: int
  rotate_age :: int
  max_bytes :: int
  site :: string
  host :: string
  active_size :: int
  active_start :: int

record options =
  opt_RotateBytes :: int
  opt_RotateAge :: int
  opt_MaxBytes :: int
  opt_Site :: string
  opt_Host :: string

text \<open>
  The libraries: \<open>new_ulid n\<close> is the \<open>n\<close>-th id that \<open>NewULID\<close> returns; \<open>zwrite raw\<close> and
  \<open>zclose raw\<close> are the bytes the zstd encoder emits on \<open>Write\<close> and on \<open>Close\<close>.
\<close>

record libs =
  new_ulid :: "nat \<Rightarrow> string"
  zwrite :: "string \<Rightarrow> string"
  zclose :: "string \<Rightarrow> string"
  json_codec :: codec

definition zenc :: "libs \<Rightarrow> string \<Rightarrow> string" where
  "zenc X raw = zwrite X raw @ zclose X raw"

definition default_rotate_bytes :: int where
  "default_rotate_bytes = 8 * 1024 * 1024"

definition default_rotate_age :: int where
  "default_rotate_age = 60 * 1000000000"

definition default_max_bytes :: int where
  "default_max_bytes = 2 * 1024 * 1024 * 1024"

definition write_warning :: "libs \<Rightarrow> string \<Rightarrow> (spool, unit) act" where
  "write_warning X dropped =
     bind_act (get_act (\<lambda>s. marshal_envelope (json_codec X)
         \<lparr>env_TS = clock s, env_Site = site s, env_Host = host s, env_Type = ''spool_warning'',
          env_Schema = 1,
          env_Payload = JObject [(''dropped_segment'', JString dropped),
                                 (''reason'', JString ''spool cap exceeded'')]\<rparr>)) (\<lambda>r.
     case r of
       Inl e \<Rightarrow> fail e
     | Inr b \<Rightarrow>
         bind_act (handle_write (b @ [newline])) (\<lambda>n.
         upd_act (\<lambda>s. s\<lparr>active_size := active_size s + n\<rparr>)))"

text \<open>The size loop of \<open>enforceCap\<close>: a segment that vanished since the listing counts nothing.\<close>

fun stat_total :: "string list \<Rightarrow> int \<Rightarrow> ('z world_scheme, int) act" where
  "stat_total [] tot = ret tot"
| "stat_total (p # ps) tot =
     bind_act (try_act (stat_file p)) (\<lambda>r.
       case r of
         Inl e \<Rightarrow> if e = ErrNotExist then stat_total ps tot else fail e
       | Inr n \<Rightarrow> stat_total ps (tot + n))"

text \<open>One iteration of the loop of \<open>enforceCap\<close>; its value says whether the loop is left.\<close>

definition cap_iter :: "libs \<Rightarrow> (spool, bool) act" where
  "cap_iter X =
     bind_act segments (\<lambda>segs.
       if segs = [] then ret True
       else bind_act (stat_total segs 0) (\<lambda>tot.
         bind_act (get_act max_bytes) (\<lambda>cap.
           if tot \<le> cap then ret True
           else bind_act (try_act (remove_file (hd segs))) (\<lambda>r.
             case r of
               Inl e \<Rightarrow> if e = ErrNotExist then ret False else fail e
             | Inr _ \<Rightarrow> bind_act (write_warning X (hd segs)) (\<lambda>_. ret False)))))"

subsection \<open>The loop of \<open>enforceCap\<close> ends\<close>

lemma keeps_within_stat_total [keeps_intros]: "keeps (within d0) (stat_total ps tot)"
  by (induction ps arbitrary: tot) (auto intro!: keeps_intros keeps_within)

lemma keeps_within_warning: "keeps (within d0) (write_warning X n)"
  unfolding write_warning_def
  by (intro keeps_intros keeps_within keeps_upd) (simp add: within_def)

lemma within_length: "within d0 s \<Longrightarrow> length (seg_files (dir s)) \<le> length d0"
  by (metis within_def size_mset size_mset_mono)

lemma within_gone:
  assumes "within d0 s" and "n \<in> fst ` set d0" and "n \<notin> fst ` set (seg_files (dir s))"
  shows "length (seg_files (dir s)) < length d0"
proof -
  have "mset (seg_files (dir s)) \<noteq> mset d0"
    using assms(2,3) by (metis image_eqI set_mset_mset imageE)
  then show ?thesis using assms(1) unfolding within_def
    by (metis mset_subset_size size_mset subset_mset.le_imp_less_or_eq)
qed

lemma cap_iter_decreases:
  assumes "cap_iter X s = (Inr False, s')"
  shows "length (seg_files (dir s')) < length (seg_files (dir s))"
proof -
  from assms obtain segs s1 tot s2 r s3 where
    list: "segments s = (Inr segs, s1)" and ne: "segs \<noteq> []"
    and stat: "stat_total segs 0 s1 = (Inr tot, s2)"
    and rm: "remove_file (hd segs) s2 = (r, s3)"
    and rest0: "(case r of Inl e \<Rightarrow> if e = ErrNotExist then ret False else fail e
      | Inr _ \<Rightarrow> bind_act (write_warning X (hd segs)) (\<lambda>_. ret False)) s3 = (Inr False, s')"
    unfolding cap_iter_def
    by (auto simp: bind_act_Inr split: if_splits)
  have rest: "(r = Inl ErrNotExist \<and> s' = s3) \<or> (r = Inr () \<and> write_warning X (hd segs) s3 = (Inr (), s'))"
    using rest0 by (cases r) (auto simp: bind_act_Inr split: if_splits)
  have segs: "segs = seg_names (dir s1)" and s1: "s1 = snd (env_step s)"
    using segments_Inr [OF list] by simp_all
  let ?d = "seg_files (dir s1)"
  have hd: "hd segs \<in> fst ` set ?d"
    using ne segs hd_in_set [OF ne] by (auto simp: seg_names_files)
  have "within (seg_files (dir s)) s1" unfolding s1 by (rule within_env) (rule within_refl)
  then have len1: "length ?d \<le> length (seg_files (dir s))" by (rule within_length)
  have w2: "within ?d s2" by (rule keeps_run [OF keeps_within_stat_total stat within_refl])
  then have w3: "within ?d s3" by (rule keeps_run [OF keeps_within(3) rm])
  have gone: "hd segs \<notin> fst ` set (seg_files (dir s3))"
    using rm rest unfolding remove_file_def syscall_def
    by (auto simp: file_of_def fail_def seg_files_def AList.delete_eq map_of_eq_None_iff split: prod.splits option.splits)
  have "length (seg_files (dir s3)) < length ?d" by (rule within_gone [OF w3 hd gone])
  moreover have "length (seg_files (dir s')) \<le> length (seg_files (dir s3))"
    using rest within_length [OF keeps_run [OF keeps_within_warning _ within_refl]] by auto
  ultimately show ?thesis using len1 by simp
qed

text \<open>\<open>enforceCap\<close>: an iteration that does not leave the loop has fewer segments to look at.\<close>

function enforce_cap :: "libs \<Rightarrow> (spool, unit) act" where
  "enforce_cap X s =
     (case cap_iter X s of
        (Inl e, s') \<Rightarrow> (Inl e, s')
      | (Inr finished, s') \<Rightarrow> if finished then (Inr (), s') else enforce_cap X s')"
  by pat_completeness auto
termination
  by (relation "measure (\<lambda>(X, s). length (seg_files (dir s)))") (auto dest: cap_iter_decreases [OF sym])

declare enforce_cap.simps [simp del]

section \<open>Rotation, writing, opening and closing\<close>

text \<open>
  \<open>compress\<close> is the part of \<open>rotate\<close> that fills the temporary file (its deferred \<open>Close\<close> has no
  effect on the directory); \<open>prepare\<close> is \<open>rotate\<close> up to the synced temporary file, \<open>publish\<close>
  renames it and opens a fresh active file. The test hook \<open>beforePublish\<close>, called between the
  two, is nil in the program.
\<close>

definition compress :: "libs \<Rightarrow> string \<Rightarrow> string \<Rightarrow> (spool, unit) act" where
  "compress X tmp raw =
     bind_act (create_file tmp) (\<lambda>_.
     bind_act (try_act (append_file tmp (zwrite X raw))) (\<lambda>w.
       case w of
         Inl e \<Rightarrow> bind_act (try_act (append_file tmp (zclose X raw))) (\<lambda>_. fail e)
       | Inr _ \<Rightarrow>
           bind_act (append_file tmp (zclose X raw)) (\<lambda>_.
           sync_file)))"

definition next_seg :: "libs \<Rightarrow> spool \<Rightarrow> string" where
  "next_seg X s = new_ulid X (minted s) @ seg_suffix"

definition prepare :: "libs \<Rightarrow> (spool, string) act" where
  "prepare X =
     bind_act handle_sync (\<lambda>_.
     bind_act handle_close (\<lambda>_.
     bind_act (read_file active_name) (\<lambda>raw.
     bind_act (get_act (next_seg X)) (\<lambda>seg.
     bind_act (upd_act (\<lambda>s. s\<lparr>minted := minted s + 1\<rparr>)) (\<lambda>_.
     bind_act (compress X (seg @ ''.tmp'') raw) (\<lambda>_.
     ret seg))))))"

definition publish :: "string \<Rightarrow> (spool, unit) act" where
  "publish seg =
     bind_act (rename_file (seg @ ''.tmp'') seg) (\<lambda>_.
     bind_act open_trunc (\<lambda>_.
     upd_act (\<lambda>s. s\<lparr>active_size := 0, active_start := clock s\<rparr>)))"

definition seal :: "libs \<Rightarrow> (spool, unit) act" where
  "seal X = bind_act (prepare X) publish"

definition rotate_spool :: "libs \<Rightarrow> (spool, unit) act" where
  "rotate_spool X = bind_act (seal X) (\<lambda>_. enforce_cap X)"

definition too_old :: "spool \<Rightarrow> bool" where
  "too_old s \<longleftrightarrow> 0 < active_size s \<and> rotate_age s \<le> clock s - active_start s"

definition too_big :: "spool \<Rightarrow> bool" where
  "too_big s \<longleftrightarrow> rotate_bytes s \<le> active_size s"

text \<open>The append in the middle of \<open>Write\<close>: one JSON line.\<close>

definition write_line :: "libs \<Rightarrow> envelope \<Rightarrow> (spool, unit) act" where
  "write_line X e =
     (case marshal_envelope (json_codec X) e of
        Inl err \<Rightarrow> fail err
      | Inr b \<Rightarrow>
          bind_act (handle_write (b @ [newline])) (\<lambda>n.
          upd_act (\<lambda>s. s\<lparr>active_size := active_size s + n\<rparr>)))"

definition spool_write :: "libs \<Rightarrow> envelope \<Rightarrow> (spool, unit) act" where
  "spool_write X e =
     bind_act (get_act too_old) (\<lambda>old.
     bind_act (if old then rotate_spool X else ret ()) (\<lambda>_.
     bind_act (write_line X e) (\<lambda>_.
     bind_act (get_act too_big) (\<lambda>big.
       if big then rotate_spool X else ret ()))))"

definition spool_close :: "libs \<Rightarrow> (spool, unit) act" where
  "spool_close X =
     bind_act (get_act (\<lambda>s. 0 < active_size s)) (\<lambda>flush.
     bind_act (if flush then rotate_spool X else ret ()) (\<lambda>_.
     handle_close))"

text \<open>
  \<open>Open\<close>. The state it starts from carries the directory; the fields of the struct are set at
  the end. \<open>filepath.Glob\<close> ignores a directory it cannot read.
\<close>

definition make_dir :: "(spool, unit) act" where
  "make_dir = syscall (ret ()) (\<lambda>n s. s)"

definition glob_tmp :: "(spool, string list) act" where
  "glob_tmp =
     bind_act (try_act (syscall (\<lambda>s. ret (sort (filter (\<lambda>n. has_suffix n tmp_suffix) (map fst (dir s)))) s)
         (\<lambda>n s. s))) (\<lambda>r.
       case r of Inl _ \<Rightarrow> ret [] | Inr names \<Rightarrow> ret names)"

definition or_default :: "int \<Rightarrow> int \<Rightarrow> int" where
  "or_default x d = (if x \<le> 0 then d else x)"

definition spool_open :: "options \<Rightarrow> (spool, unit) act" where
  "spool_open opts =
     bind_act make_dir (\<lambda>_.
     bind_act glob_tmp (\<lambda>tmps.
     bind_act (iter_act remove_file tmps) (\<lambda>_.
     bind_act open_append (\<lambda>_.
     bind_act (stat_file active_name) (\<lambda>sz.
     upd_act (\<lambda>s. s\<lparr>
       rotate_bytes := or_default (opt_RotateBytes opts) default_rotate_bytes,
       rotate_age := or_default (opt_RotateAge opts) default_rotate_age,
       max_bytes := or_default (opt_MaxBytes opts) default_max_bytes,
       site := opt_Site opts,
       host := opt_Host opts,
       active_size := sz,
       active_start := (if 0 < sz then mtime s else clock s)\<rparr>))))))"

end
