(* ===== verification/SpoolSafety.thy ===== *)
theory SpoolSafety
  imports Spool
begin

text \<open>
  What the spool guarantees whatever happens around it: theorems about every script, that is
  every interleaving with the shipper and every failing system call.
\<close>

section \<open>Files across calls\<close>

definition env_gone :: "'z world_scheme \<Rightarrow> string set" where
  "env_gone s = (case script s of [] \<Rightarrow> {} | ev # _ \<Rightarrow> set (ev_shipped ev))"

lemma map_of_filter_keys:
  "map_of (filter (\<lambda>(n, c). P n \<longrightarrow> n \<notin> G) d) n = (if P n \<and> n \<in> G then None else map_of d n)"
  by (induction d) auto

lemma file_of_env:
  "file_of (snd (env_step s)) n = (if is_seg n \<and> n \<in> env_gone s then None else file_of s n)"
  by (auto simp: env_step_def env_gone_def file_of_def map_of_filter_keys split: list.split)

lemma file_of_put [simp]: "file_of (put_file n c s) m = (if m = n then Some c else file_of s m)"
  by (simp add: file_of_def update_conv')

lemma file_of_del [simp]: "file_of (del_file n s) m = (if m = n then None else file_of s m)"
  by (simp add: file_of_def delete_conv')

lemma file_of_append_active [simp]:
  "file_of (append_active b s) m = (if m = active_name then Some (active_of s @ b) else file_of s m)"
  by (simp add: append_active_def file_of_def update_conv')

lemma file_of_same_dir: "dir s = dir t \<Longrightarrow> file_of s = file_of t"
  by (simp add: file_of_def fun_eq_iff)

lemma file_of_updates [simp]:
  "file_of (s\<lparr>handle_open := a\<rparr>) = file_of s"
  "file_of (s\<lparr>mtime := b\<rparr>) = file_of s"
  "file_of (s\<lparr>minted := m\<rparr>) = file_of s"
  "file_of (s\<lparr>clock := t\<rparr>) = file_of s"
  by (rule file_of_same_dir, simp)+

lemma file_of_spool_updates [simp]:
  "file_of (s\<lparr>active_size := a\<rparr>) = file_of s"
  "file_of (s\<lparr>active_start := t\<rparr>) = file_of s"
  by (rule file_of_same_dir, simp)+

lemma content_of_simps [simp]:
  "content_of (put_file n c s) m = (if m = n then c else content_of s m)"
  "content_of (append_active b s) m = (if m = active_name then active_of s @ b else content_of s m)"
  "content_of (s\<lparr>handle_open := a\<rparr>) = content_of s"
  "content_of (s\<lparr>mtime := i\<rparr>) = content_of s"
  "content_of (s\<lparr>minted := k\<rparr>) = content_of s"
  by (simp_all add: content_of_def fun_eq_iff)

lemma content_of_spool_updates [simp]:
  "content_of (s\<lparr>active_size := a\<rparr>) = content_of s"
  "content_of (s\<lparr>active_start := t\<rparr>) = content_of s"
  by (simp_all add: content_of_def fun_eq_iff)

lemma content_of_env: "\<not> is_seg n \<Longrightarrow> content_of (snd (env_step s)) n = content_of s n"
  by (simp add: content_of_def env_step_nonseg)

lemma is_seg_tmp [simp]: "\<not> is_seg (n @ ''.tmp'')"
proof
  assume "is_seg (n @ ''.tmp'')"
  then obtain t where "n @ ''.tmp'' = t @ seg_suffix" unfolding is_seg_def by (blast dest: has_suffixD)
  then have "last (n @ ''.tmp'') = last (t @ seg_suffix)" by simp
  then show False by (simp add: seg_suffix_def)
qed

lemma is_seg_next [simp]: "is_seg (next_seg X s)"
  by (simp add: is_seg_def next_seg_def has_suffix_append)

lemma tmp_not_active [simp]: "n @ ''.tmp'' \<noteq> active_name" "active_name \<noteq> n @ ''.tmp''"
proof -
  have "last (n @ ''.tmp'') \<noteq> last active_name" by (simp add: active_name_def)
  then show "n @ ''.tmp'' \<noteq> active_name" "active_name \<noteq> n @ ''.tmp''" by metis+
qed

lemma seg_not_active [simp]: "is_seg n \<Longrightarrow> n \<noteq> active_name" "is_seg n \<Longrightarrow> active_name \<noteq> n"
  by auto

subsection \<open>Segments fade\<close>

text \<open>From \<open>s\<close> to \<open>t\<close> no segment appeared or changed; some may be gone.\<close>

definition fades :: "'z world_scheme \<Rightarrow> 'z world_scheme \<Rightarrow> bool" where
  "fades s t \<longleftrightarrow> (\<forall>n. is_seg n \<longrightarrow> file_of t n = file_of s n \<or> file_of t n = None)"

lemma fades_refl: "fades s s"
  by (simp add: fades_def)

lemma fades_trans: "fades s t \<Longrightarrow> fades t u \<Longrightarrow> fades s u"
  unfolding fades_def by metis

lemma fades_env: "fades s t \<Longrightarrow> fades s (snd (env_step t))"
  by (simp add: fades_def file_of_env)

lemmas sys_defs = segments_def stat_file_def remove_file_def read_file_def sync_file_def
  handle_sync_def handle_close_def handle_write_def create_file_def append_file_def open_trunc_def
  open_append_def rename_file_def

lemma keeps_fades:
  "keeps (fades s) segments" "keeps (fades s) (stat_file n)" "keeps (fades s) (remove_file n)"
  "keeps (fades s) (read_file n)" "keeps (fades s) sync_file" "keeps (fades s) handle_sync"
  "keeps (fades s) handle_close" "keeps (fades s) (handle_write b)" "keeps (fades s) open_trunc"
  "\<not> is_seg m \<Longrightarrow> keeps (fades s) (create_file m)"
  "\<not> is_seg m \<Longrightarrow> keeps (fades s) (append_file m b)"
  unfolding sys_defs
  by (rule keeps_syscall; (erule fades_env)?;
      auto simp: keeps_def act_defs fades_def split: option.split)+

lemma keeps_fades_stat_total: "keeps (fades s) (stat_total ps tot)"
  by (induction ps arbitrary: tot) (auto intro!: keeps_intros keeps_fades)

lemma keeps_fades_warning: "keeps (fades s) (write_warning X n)"
  unfolding write_warning_def
  by (intro keeps_intros keeps_fades keeps_upd) (simp add: fades_def)

lemma keeps_fades_cap_iter: "keeps (fades s) (cap_iter X)"
  unfolding cap_iter_def
  by (intro keeps_intros keeps_fades keeps_fades_stat_total keeps_fades_warning)

text \<open>What every iteration keeps, the loop keeps.\<close>

lemma keeps_enforce_cap: "keeps P (cap_iter X) \<Longrightarrow> keeps P (enforce_cap X)"
  unfolding keeps_def
proof (intro allI impI)
  fix s
  assume "\<forall>s. P s \<longrightarrow> P (snd (cap_iter X s))" and "P s"
  then show "P (snd (enforce_cap X s))"
  proof (induction X s rule: enforce_cap.induct)
    case (1 X s)
    obtain r s' where r: "cap_iter X s = (r, s')" by fastforce
    have P': "P s'" using 1(2,3) r by (metis snd_conv)
    show ?case
      using 1(1)[OF r [symmetric], of "projr r"] 1(2) P' r
      by (subst enforce_cap.simps) (auto split: sum.split)
  qed
qed

lemma keeps_fades_enforce_cap: "keeps (fades s) (enforce_cap X)"
  by (rule keeps_enforce_cap) (rule keeps_fades_cap_iter)

section \<open>The cap\<close>

definition seg_total :: "'z world_scheme \<Rightarrow> int" where
  "seg_total s = sum_list (map (\<lambda>n. int (length (content_of s n))) (seg_names (dir s)))"

definition good_dir :: "'z world_scheme \<Rightarrow> bool" where
  "good_dir s \<longleftrightarrow> distinct (map fst (dir s))"

lemma good_dir_env: "good_dir s \<Longrightarrow> good_dir (snd (env_step s))"
  using env_step_dir [of s] by (auto simp: good_dir_def distinct_map_filter)

lemma distinct_map_fst_delete: "distinct (map fst d) \<Longrightarrow> distinct (map fst (AList.delete n d))"
  by (rule distinct_delete)

lemma keeps_good_dir:
  "keeps good_dir segments" "keeps good_dir (stat_file n)" "keeps good_dir (remove_file n)"
  "keeps good_dir (read_file n)" "keeps good_dir sync_file" "keeps good_dir handle_sync"
  "keeps good_dir handle_close" "keeps good_dir (handle_write b)" "keeps good_dir open_trunc"
  "keeps good_dir (create_file m)" "keeps good_dir (append_file m b)" "keeps good_dir (rename_file m n)"
  unfolding sys_defs
  by (rule keeps_syscall; (erule good_dir_env)?;
      auto simp: keeps_def act_defs good_dir_def distinct_update distinct_delete split: option.split)+

lemma keeps_good_stat_total: "keeps good_dir (stat_total ps tot)"
  by (induction ps arbitrary: tot) (auto intro!: keeps_intros keeps_good_dir)

lemma keeps_good_warning: "keeps good_dir (write_warning X n)"
  unfolding write_warning_def
  by (intro keeps_intros keeps_good_dir keeps_upd) (simp add: good_dir_def)

lemma keeps_good_cap_iter: "keeps good_dir (cap_iter X)"
  unfolding cap_iter_def
  by (intro keeps_intros keeps_good_dir keeps_good_stat_total keeps_good_warning)

lemma keeps_good_enforce_cap: "keeps good_dir (enforce_cap X)"
  by (rule keeps_enforce_cap) (rule keeps_good_cap_iter)

lemma set_seg_names_file: "set (seg_names (dir s)) = {n. is_seg n \<and> file_of s n \<noteq> None}"
  by (auto simp: set_seg_names file_of_def map_of_eq_None_iff)

lemma distinct_seg_names: "good_dir s \<Longrightarrow> distinct (seg_names (dir s))"
  by (auto simp: good_dir_def seg_names_def distinct_map_filter)

text \<open>The sizes that the loop adds up are at least those of the segments that are left at its end.\<close>

lemma fades_content_length:
  "fades s t \<Longrightarrow> is_seg n \<Longrightarrow> length (content_of t n) \<le> length (content_of s n)"
  unfolding fades_def content_of_def by (metis le_refl list.size(3) option.simps(4) zero_le)

lemma stat_file_Inr: "stat_file n s = (Inr k, t) \<Longrightarrow> k = int (length (content_of t n))"
  by (auto simp: stat_file_def syscall_Inr content_of_def split: option.splits)

lemma stat_file_gone: "stat_file n s = (Inl ErrNotExist, t) \<Longrightarrow> file_of t n = None"
  by (auto simp: stat_file_def syscall_def split: prod.splits option.splits)

lemma stat_total_ge:
  assumes "stat_total ps tot s = (Inr k, t)" and "\<forall>n \<in> set ps. is_seg n"
  shows "tot + sum_list (map (\<lambda>n. int (length (content_of t n))) ps) \<le> k"
  using assms
proof (induction ps arbitrary: tot s)
  case (Cons p ps)
  from Cons.prems(1) obtain r u where st: "stat_file p s = (r, u)"
    and rest: "(case r of Inl e \<Rightarrow> if e = ErrNotExist then stat_total ps tot else fail e
       | Inr n \<Rightarrow> stat_total ps (tot + n)) u = (Inr k, t)"
    by (auto simp: bind_act_Inr)
  have fades: "fades u t"
    using rest keeps_run [OF keeps_fades_stat_total _ fades_refl] fades_refl
    by (auto split: sum.splits if_splits)
  have p: "is_seg p" using Cons.prems(2) by simp
  show ?case
  proof (cases r)
    case (Inl e)
    with rest have r: "stat_total ps tot u = (Inr k, t)" and e: "e = ErrNotExist"
      by (auto split: if_splits)
    have "content_of t p = []"
      using stat_file_gone [of p s u] st Inl e fades p by (auto simp: fades_def content_of_def)
    then show ?thesis using Cons.IH [OF r] Cons.prems(2) by simp
  next
    case (Inr n)
    with rest have r: "stat_total ps (tot + n) u = (Inr k, t)" by simp
    have "n = int (length (content_of u p))" using stat_file_Inr st Inr by blast
    then have "int (length (content_of t p)) \<le> n" using fades_content_length [OF fades p] by simp
    then show ?thesis using Cons.IH [OF r] Cons.prems(2) by simp
  qed
qed simp

lemma seg_total_fades:
  assumes "fades s t" and "good_dir s" and "good_dir t"
  shows "seg_total t \<le> sum_list (map (\<lambda>n. int (length (content_of t n))) (seg_names (dir s)))"
proof -
  have sub: "set (seg_names (dir t)) \<subseteq> set (seg_names (dir s))"
    using assms(1) unfolding set_seg_names_file fades_def by fastforce
  have "seg_total t = (\<Sum>n \<in> set (seg_names (dir t)). int (length (content_of t n)))"
    using distinct_seg_names [OF assms(3)] by (simp add: seg_total_def sum_list_distinct_conv_sum_set)
  also have "\<dots> \<le> (\<Sum>n \<in> set (seg_names (dir s)). int (length (content_of t n)))"
    by (rule sum_mono2) (use sub in auto)
  also have "\<dots> = sum_list (map (\<lambda>n. int (length (content_of t n))) (seg_names (dir s)))"
    using distinct_seg_names [OF assms(2)] by (simp add: sum_list_distinct_conv_sum_set)
  finally show ?thesis .
qed

lemma cap_iter_done:
  assumes "cap_iter X s = (Inr True, t)" and "good_dir s" and "0 \<le> max_bytes t"
  shows "seg_total t \<le> max_bytes t"
proof -
  from assms(1) obtain segs s1 where list: "segments s = (Inr segs, s1)"
    and rest0: "(if segs = [] then ret True
       else bind_act (stat_total segs 0) (\<lambda>tot.
         bind_act (get_act max_bytes) (\<lambda>cap.
           if tot \<le> cap then ret True
           else bind_act (try_act (remove_file (hd segs))) (\<lambda>r.
             case r of
               Inl e \<Rightarrow> if e = ErrNotExist then ret False else fail e
             | Inr _ \<Rightarrow> bind_act (write_warning X (hd segs)) (\<lambda>_. ret False))))) s1 = (Inr True, t)"
    unfolding cap_iter_def bind_act_Inr by blast
  have rest: "\<exists>k. stat_total segs 0 s1 = (Inr k, t) \<and> k \<le> max_bytes t" if ne: "segs \<noteq> []"
  proof -
    from rest0 ne obtain k u where st: "stat_total segs 0 s1 = (Inr k, u)"
      and r: "(if k \<le> max_bytes u then ret True
           else bind_act (try_act (remove_file (hd segs))) (\<lambda>r.
             case r of
               Inl e \<Rightarrow> if e = ErrNotExist then ret False else fail e
             | Inr _ \<Rightarrow> bind_act (write_warning X (hd segs)) (\<lambda>_. ret False))) u = (Inr True, t)"
      by (auto simp only: bind_act_Inr bind_get if_False)
    have "(case q of Inl e \<Rightarrow> if e = ErrNotExist then ret False else fail e
             | Inr _ \<Rightarrow> bind_act (write_warning X (hd segs)) (\<lambda>_. ret False)) v \<noteq> (Inr True, t)" for q v
      by (cases q) (auto simp: bind_act_Inr)
    with r have "k \<le> max_bytes u \<and> u = t"
      by (auto simp: bind_act_Inr split: if_splits)
    with st show ?thesis by blast
  qed
  have segs: "segs = seg_names (dir s1)" using segments_Inr [OF list] by simp
  have g1: "good_dir s1" by (rule keeps_run [OF keeps_good_dir(1) list assms(2)])
  show ?thesis
  proof (cases "segs = []")
    case True
    with rest0 have "t = s1" by simp
    then show ?thesis using True segs assms(3) by (simp add: seg_total_def)
  next
    case False
    then obtain k where st: "stat_total segs 0 s1 = (Inr k, t)" and k: "k \<le> max_bytes t"
      using rest by blast
    have "seg_total t \<le> sum_list (map (\<lambda>n. int (length (content_of t n))) segs)"
      unfolding segs
      by (rule seg_total_fades [OF keeps_run [OF keeps_fades_stat_total st fades_refl] g1
            keeps_run [OF keeps_good_stat_total st g1]])
    also have "\<dots> \<le> k" using stat_total_ge [OF st] segs by (simp add: set_seg_names_file)
    finally show ?thesis using k by simp
  qed
qed

lemma enforce_cap_Inr:
  "enforce_cap X s = (Inr (), t) \<Longrightarrow> good_dir s \<Longrightarrow> \<exists>u. good_dir u \<and> cap_iter X u = (Inr True, t)"
proof (induction X s rule: enforce_cap.induct)
  case (1 X s)
  obtain r s' where r: "cap_iter X s = (r, s')" by fastforce
  have g: "good_dir s'" using keeps_good_cap_iter r 1(3) by (rule keeps_run)
  show ?case
  proof (cases "r = Inr True")
    case True
    with 1(2) r have "s' = t" by (simp add: enforce_cap.simps [of X s])
    with True r 1(3) show ?thesis by blast
  next
    case False
    with 1(2) r have "r = Inr False" and "enforce_cap X s' = (Inr (), t)"
      by (auto simp: enforce_cap.simps [of X s] split: sum.splits if_splits)
    with 1(1) [OF r [symmetric]] g show ?thesis by blast
  qed
qed


text \<open>The configuration of an open spool never changes.\<close>

definition same_config :: "spool \<Rightarrow> spool \<Rightarrow> bool" where
  "same_config s t \<longleftrightarrow> max_bytes t = max_bytes s \<and> rotate_bytes t = rotate_bytes s
     \<and> rotate_age t = rotate_age s \<and> site t = site s \<and> host t = host s"

lemma same_config_env: "same_config s t \<Longrightarrow> same_config s (snd (env_step t))"
  by (auto simp: same_config_def env_step_def split: list.split)

lemma same_config_refl: "same_config s s"
  by (simp add: same_config_def)

lemma same_config_put [simp]:
  "same_config s (put_file n c t) = same_config s t"
  "same_config s (del_file n t) = same_config s t"
  "same_config s (append_active b t) = same_config s t"
  by (simp_all add: same_config_def put_file_def del_file_def append_active_def)

lemma same_config_upd [simp]:
  "same_config s (t\<lparr>handle_open := a\<rparr>) = same_config s t"
  "same_config s (t\<lparr>mtime := i\<rparr>) = same_config s t"
  "same_config s (t\<lparr>minted := k\<rparr>) = same_config s t"
  "same_config s (t\<lparr>active_size := i\<rparr>) = same_config s t"
  "same_config s (t\<lparr>active_start := i\<rparr>) = same_config s t"
  by (simp_all add: same_config_def)

lemma keeps_same_config:
  "keeps (same_config s) segments" "keeps (same_config s) (stat_file n)"
  "keeps (same_config s) (remove_file n)" "keeps (same_config s) (read_file n)"
  "keeps (same_config s) sync_file" "keeps (same_config s) handle_sync"
  "keeps (same_config s) handle_close" "keeps (same_config s) (handle_write b)"
  "keeps (same_config s) open_trunc" "keeps (same_config s) (create_file m)"
  "keeps (same_config s) (append_file m b)" "keeps (same_config s) (rename_file m n)"
  unfolding sys_defs
  by (rule keeps_syscall; (erule same_config_env)?;
      auto simp: keeps_def act_defs split: option.split)+

lemma keeps_config_stat_total: "keeps (same_config s) (stat_total ps tot)"
  by (induction ps arbitrary: tot) (auto intro!: keeps_intros keeps_same_config)

lemma keeps_config_warning: "keeps (same_config s) (write_warning X n)"
  unfolding write_warning_def
  by (intro keeps_intros keeps_same_config keeps_upd) simp

lemma keeps_config_enforce_cap: "keeps (same_config s) (enforce_cap X)"
  by (rule keeps_enforce_cap, unfold cap_iter_def)
    (intro keeps_intros keeps_same_config keeps_config_stat_total keeps_config_warning)

lemma enforce_cap_config: "enforce_cap X s = (r, t) \<Longrightarrow> max_bytes t = max_bytes s"
  using keeps_run [OF keeps_config_enforce_cap _ same_config_refl] by (metis same_config_def)

subsection \<open>How often the loop runs\<close>

text \<open>The loop of \<open>enforceCap\<close> with a bound on its iterations.\<close>

fun cap_loop :: "nat \<Rightarrow> libs \<Rightarrow> spool \<Rightarrow> ((err + unit) \<times> spool) option" where
  "cap_loop 0 X s = None"
| "cap_loop (Suc k) X s =
     (case cap_iter X s of
        (Inl e, s') \<Rightarrow> Some (Inl e, s')
      | (Inr finished, s') \<Rightarrow> if finished then Some (Inr (), s') else cap_loop k X s')"

lemma cap_loop_enough:
  "length (seg_files (dir s)) < k \<Longrightarrow> cap_loop k X s = Some (enforce_cap X s)"
proof (induction k arbitrary: s)
  case (Suc k)
  obtain r s' where r: "cap_iter X s = (r, s')" by fastforce
  show ?case
  proof (cases "r = Inr False")
    case True
    with r cap_iter_decreases [of X s s'] Suc.prems have "length (seg_files (dir s')) < k" by simp
    from Suc.IH [OF this] r True show ?thesis by (simp add: enforce_cap.simps [of X s])
  next
    case False
    with r show ?thesis by (auto simp: enforce_cap.simps [of X s] split: sum.split)
  qed
qed simp

section \<open>Publication\<close>

text \<open>Every segment that can be listed is a complete compressed file.\<close>

definition published :: "libs \<Rightarrow> 'z world_scheme \<Rightarrow> bool" where
  "published X s \<longleftrightarrow> (\<forall>n c. is_seg n \<longrightarrow> file_of s n = Some c \<longrightarrow> c \<in> range (zenc X))"

lemma published_fades: "published X s \<Longrightarrow> fades s t \<Longrightarrow> published X t"
  unfolding published_def fades_def by (metis option.distinct(1))

lemma keeps_published_fades: "(\<And>s. keeps (fades s) m) \<Longrightarrow> keeps (published X) m"
  unfolding keeps_def using published_fades fades_refl by blast

text \<open>What \<open>compress\<close> leaves of the other files, and of the temporary one when it succeeds.\<close>

definition quiet_files :: "(string \<Rightarrow> bool) \<Rightarrow> 'z world_scheme \<Rightarrow> 'z world_scheme \<Rightarrow> bool" where
  "quiet_files P s t \<longleftrightarrow> (\<forall>n. \<not> is_seg n \<longrightarrow> P n \<longrightarrow> file_of t n = file_of s n)"

lemma quiet_files_env: "quiet_files P s t \<Longrightarrow> quiet_files P s (snd (env_step t))"
  by (simp add: quiet_files_def env_step_nonseg)

lemma keeps_quiet_files:
  "\<not> P tmp \<Longrightarrow> keeps (quiet_files P s) (create_file tmp)"
  "\<not> P tmp \<Longrightarrow> keeps (quiet_files P s) (append_file tmp b)"
  "keeps (quiet_files P s) sync_file"
  "keeps (quiet_files P s) handle_sync"
  "keeps (quiet_files P s) handle_close"
  "keeps (quiet_files P s) (read_file n)"
  unfolding sys_defs
  by (rule keeps_syscall; (erule quiet_files_env)?;
      auto simp: keeps_def act_defs quiet_files_def split: option.split)+

lemma keeps_quiet_compress: "\<not> P tmp \<Longrightarrow> keeps (quiet_files P s) (compress X tmp raw)"
  unfolding compress_def by (intro keeps_intros keeps_quiet_files)

lemma keeps_fades_compress: "\<not> is_seg tmp \<Longrightarrow> keeps (fades s) (compress X tmp raw)"
  unfolding compress_def by (intro keeps_intros keeps_fades)

lemma create_file_Inr:
  "create_file n s = (Inr (), t) \<Longrightarrow> file_of t n = Some []"
  by (auto simp: create_file_def syscall_Inr)

lemma append_file_Inr:
  "append_file n b s = (Inr (), t) \<Longrightarrow> \<not> is_seg n \<Longrightarrow> file_of t n = Some (content_of s n @ b)"
  by (auto simp: append_file_def syscall_Inr content_of_env)

lemma sync_file_Inr: "sync_file s = (Inr (), t) \<Longrightarrow> t = snd (env_step s)"
  by (auto simp: sync_file_def syscall_Inr)

lemma compress_Inr:
  assumes "compress X tmp raw s = (Inr (), t)" and "\<not> is_seg tmp"
  shows "file_of t tmp = Some (zenc X raw)"
proof -
  from assms(1) obtain s1 r s2 where c: "create_file tmp s = (Inr (), s1)"
    and a: "append_file tmp (zwrite X raw) s1 = (r, s2)"
    and rest: "(case r of Inl e \<Rightarrow> bind_act (try_act (append_file tmp (zclose X raw))) (\<lambda>_. fail e)
       | Inr _ \<Rightarrow> bind_act (append_file tmp (zclose X raw)) (\<lambda>_. sync_file)) s2 = (Inr (), t)"
    by (auto simp: compress_def bind_act_Inr)
  then obtain s3 where r: "r = Inr ()" and b: "append_file tmp (zclose X raw) s2 = (Inr (), s3)"
    and y: "sync_file s3 = (Inr (), t)"
    by (cases r) (auto simp: bind_act_Inr)
  have "file_of s2 tmp = Some (zwrite X raw)"
    using append_file_Inr [OF a [unfolded r] assms(2)] create_file_Inr [OF c] by (simp add: content_of_def)
  then have "file_of s3 tmp = Some (zenc X raw)"
    using append_file_Inr [OF b assms(2)] by (simp add: content_of_def zenc_def)
  then show ?thesis using sync_file_Inr [OF y] assms(2) by (simp add: env_step_nonseg)
qed

end
