(* ===== verification/SpoolSeal.thy ===== *)
theory SpoolSeal
  imports SpoolSafety
begin

text \<open>
  The rotation of the active file under every script: what is on disk after it, whether it
  succeeds, fails at any of its system calls, or races with the shipper.
\<close>

section \<open>Nothing is lost while the active file is sealed\<close>

definition shipped :: "'z world_scheme \<Rightarrow> string set" where
  "shipped s = (\<Union>ev \<in> set (script s). set (ev_shipped ev))"

text \<open>From \<open>s\<close> to \<open>t\<close> only the shipper removed segments, and none appeared or changed.\<close>

definition ships :: "string set \<Rightarrow> 'z world_scheme \<Rightarrow> 'z world_scheme \<Rightarrow> bool" where
  "ships G s t \<longleftrightarrow> shipped t \<subseteq> G
     \<and> (\<forall>n. is_seg n \<longrightarrow> file_of t n = file_of s n \<or> file_of t n = None \<and> n \<in> G)"

lemma ships_refl: "ships (shipped s) s s"
  by (simp add: ships_def)

lemma ships_env: "ships G s t \<Longrightarrow> ships G s (snd (env_step t))"
proof -
  assume a: "ships G s t"
  have "env_gone t \<subseteq> shipped t" and "shipped (snd (env_step t)) \<subseteq> shipped t"
    by (auto simp: env_gone_def shipped_def env_step_def split: list.split)
  with a show ?thesis unfolding ships_def file_of_env by (metis subset_iff)
qed

lemma shipped_simps [simp]:
  "shipped (put_file n c s) = shipped s" "shipped (append_active b s) = shipped s"
  "shipped (s\<lparr>handle_open := a\<rparr>) = shipped s" "shipped (s\<lparr>mtime := i\<rparr>) = shipped s"
  "shipped (s\<lparr>minted := k\<rparr>) = shipped s"
  by (simp_all add: shipped_def)

lemma shipped_spool_simps [simp]:
  "shipped (s\<lparr>active_size := i\<rparr>) = shipped s" "shipped (s\<lparr>active_start := i\<rparr>) = shipped s"
  by (simp_all add: shipped_def)

lemma keeps_ships:
  "keeps (ships G s) (stat_file n)" "keeps (ships G s) segments"
  "keeps (ships G s) (read_file n)" "keeps (ships G s) sync_file" "keeps (ships G s) handle_sync"
  "keeps (ships G s) handle_close" "keeps (ships G s) (handle_write b)" "keeps (ships G s) open_trunc"
  "\<not> is_seg m \<Longrightarrow> keeps (ships G s) (create_file m)"
  "\<not> is_seg m \<Longrightarrow> keeps (ships G s) (append_file m b)"
  unfolding sys_defs
  by (rule keeps_syscall; (erule ships_env)?;
      auto simp: keeps_def act_defs ships_def split: option.split)+

lemma keeps_ships_compress: "\<not> is_seg tmp \<Longrightarrow> keeps (ships G s) (compress X tmp raw)"
  unfolding compress_def by (intro keeps_intros keeps_ships)

text \<open>\<open>seal\<close> up to the compression, and from the rename on.\<close>

lemma keeps_minted:
  "keeps (\<lambda>t. minted t = k) handle_sync" "keeps (\<lambda>t. minted t = k) handle_close"
  "keeps (\<lambda>t. minted t = k) (read_file n)"
  unfolding sys_defs
  by (rule keeps_syscall; (auto simp: keeps_def act_defs split: option.split))+

lemma keeps_closed:
  "keeps (\<lambda>t. \<not> handle_open t) (read_file n)" "keeps (\<lambda>t. \<not> handle_open t) sync_file"
  "keeps (\<lambda>t. \<not> handle_open t) (create_file n)" "keeps (\<lambda>t. \<not> handle_open t) (append_file n b)"
  "keeps (\<lambda>t. \<not> handle_open t) (rename_file m n)"
  "keeps (\<lambda>t. \<not> handle_open t) handle_sync" "keeps (\<lambda>t. \<not> handle_open t) handle_close"
  "keeps (\<lambda>t. \<not> handle_open t) (handle_write b)"
  unfolding sys_defs
  by (rule keeps_syscall; (auto simp: keeps_def act_defs split: option.split))+

lemma keeps_closed_compress: "keeps (\<lambda>t. \<not> handle_open t) (compress X tmp raw)"
  unfolding compress_def by (intro keeps_intros keeps_closed)

lemma handle_close_Inr: "handle_close s = (Inr (), t) \<Longrightarrow> \<not> handle_open t"
  by (auto simp: handle_close_def syscall_Inr split: if_splits)

lemma read_file_Inr:
  "read_file n s = (Inr c, t) \<Longrightarrow> \<not> is_seg n \<Longrightarrow> content_of s n = c"
  by (auto simp: read_file_def syscall_Inr content_of_def env_step_nonseg split: option.splits)

lemma quiet_content: "quiet_files P s t \<Longrightarrow> \<not> is_seg n \<Longrightarrow> P n \<Longrightarrow> content_of t n = content_of s n"
  by (simp add: quiet_files_def content_of_def)

lemma quiet_refl: "quiet_files P s s"
  by (simp add: quiet_files_def)

abbreviation same_active :: "spool \<Rightarrow> spool \<Rightarrow> bool" where
  "same_active \<equiv> quiet_files (\<lambda>n. n = active_name)"

text \<open>What \<open>prepare\<close> keeps, and what holds when it succeeds.\<close>

definition untouched :: "spool \<Rightarrow> spool \<Rightarrow> bool" where
  "untouched s t \<longleftrightarrow> ships (shipped s) s t \<and> file_of t active_name = file_of s active_name
     \<and> active_size t = active_size s"

lemma untouched_env: "untouched s t \<Longrightarrow> untouched s (snd (env_step t))"
proof -
  have "active_size (snd (env_step t)) = active_size t"
    by (simp add: env_step_def split: list.split)
  then show "untouched s t \<Longrightarrow> ?thesis"
    by (simp add: untouched_def ships_env env_step_nonseg)
qed

lemma untouched_refl: "untouched s s"
  by (simp add: untouched_def ships_refl)

lemma active_size_put [simp]: "active_size (put_file n c s) = active_size s"
  "active_size (del_file n s) = active_size s" "active_size (append_active b s) = active_size s"
  by (simp_all add: put_file_def del_file_def append_active_def)

lemma keeps_untouched:
  "keeps (untouched s) (read_file n)" "keeps (untouched s) sync_file"
  "keeps (untouched s) handle_sync" "keeps (untouched s) handle_close"
  "\<not> is_seg m \<Longrightarrow> m \<noteq> active_name \<Longrightarrow> keeps (untouched s) (create_file m)"
  "\<not> is_seg m \<Longrightarrow> m \<noteq> active_name \<Longrightarrow> keeps (untouched s) (append_file m b)"
  unfolding sys_defs
  by (rule keeps_syscall; (erule untouched_env)?;
      auto simp: keeps_def act_defs untouched_def ships_def split: option.split)+

lemma keeps_untouched_prepare: "keeps (untouched s) (prepare X)"
  unfolding prepare_def compress_def
  by (intro keeps_intros keeps_untouched keeps_upd is_seg_tmp tmp_not_active)
    (auto simp: untouched_def ships_def)

lemma prepare_Inr:
  assumes "prepare X s = (Inr seg, u)"
  shows "seg = next_seg X s \<and> \<not> handle_open u
    \<and> file_of u (seg @ ''.tmp'') = Some (zenc X (active_of s))"
proof -
  from assms obtain s1 s2 s3 raw where
    sy: "handle_sync s = (Inr (), s1)" and cl: "handle_close s1 = (Inr (), s2)"
    and rd: "read_file active_name s2 = (Inr raw, s3)" and seg: "seg = next_seg X s3"
    and co: "compress X (seg @ ''.tmp'') raw (s3\<lparr>minted := minted s3 + 1\<rparr>) = (Inr (), u)"
    unfolding prepare_def by (auto simp: bind_act_Inr)
  have "minted s3 = minted s"
    by (rule keeps_run [OF keeps_minted(3) rd]) (rule keeps_run [OF keeps_minted(2) cl],
        rule keeps_run [OF keeps_minted(1) sy], rule refl)
  moreover have "untouched s s2"
    by (rule keeps_run [OF keeps_untouched(4) cl], rule keeps_run [OF keeps_untouched(3) sy],
        rule untouched_refl)
  then have "raw = active_of s"
    using read_file_Inr [OF rd] by (simp add: untouched_def content_of_def)
  moreover have "\<not> handle_open (s3\<lparr>minted := minted s3 + 1\<rparr>)"
    using keeps_run [OF keeps_closed(1) rd] handle_close_Inr [OF cl] by simp
  then have "\<not> handle_open u" by (rule keeps_run [OF keeps_closed_compress co])
  ultimately show ?thesis using compress_Inr [OF co is_seg_tmp] seg by (simp add: next_seg_def)
qed

text \<open>\<open>publish\<close> step by step.\<close>

lemma env_gone_shipped: "env_gone s \<subseteq> shipped s" "shipped (snd (env_step s)) \<subseteq> shipped s"
  by (auto simp: env_gone_def shipped_def env_step_def split: list.split)

lemma shipped_del [simp]: "shipped (del_file n s) = shipped s"
  by (simp add: shipped_def)

lemma publish_cases:
  assumes "publish seg u = (r, t)" and "file_of u (seg @ ''.tmp'') = Some z"
  defines "v \<equiv> put_file seg z (del_file (seg @ ''.tmp'') (snd (env_step u)))"
  shows "(r = Inl ErrIO \<and> t = snd (env_step u))
    \<or> (r = Inl ErrIO \<and> t = snd (env_step v))
    \<or> (r = Inr () \<and> t = put_file active_name [] (snd (env_step v))
          \<lparr>handle_open := True, mtime := clock (snd (env_step v)),
           active_size := 0, active_start := clock (snd (env_step v))\<rparr>)"
proof (cases "ev_fail (fst (env_step u))")
  case (Some n)
  then have "rename_file (seg @ ''.tmp'') seg u = (Inl ErrIO, snd (env_step u))"
    by (simp add: rename_file_def syscall_def case_prod_beta)
  with assms(1) show ?thesis by (simp add: publish_def bind_act_def)
next
  case None
  have "file_of (snd (env_step u)) (seg @ ''.tmp'') = Some z"
    using assms(2) by (simp add: env_step_nonseg)
  with None have ren: "rename_file (seg @ ''.tmp'') seg u = (Inr (), v)"
    by (simp add: rename_file_def syscall_def v_def case_prod_beta)
  show ?thesis
  proof (cases "ev_fail (fst (env_step v))")
    case (Some n)
    then have "open_trunc v = (Inl ErrIO, snd (env_step v))"
      by (simp add: open_trunc_def syscall_def case_prod_beta)
    with ren assms(1) show ?thesis by (simp add: publish_def bind_act_def)
  next
    case None
    then have "open_trunc v = (Inr (), (put_file active_name [] (snd (env_step v)))
        \<lparr>handle_open := True, mtime := clock (snd (env_step v))\<rparr>)"
      by (simp add: open_trunc_def syscall_def case_prod_beta)
    with ren assms(1) show ?thesis by (auto simp: publish_def bind_act_def upd_act_def)
  qed
qed

lemma file_of_truncated [simp]:
  "file_of (put_file n c s\<lparr>handle_open := a, mtime := i, active_size := j, active_start := k\<rparr>) m
     = (if m = n then Some c else file_of s m)"
  by (simp add: file_of_def put_file_def update_conv')

lemma env_size [simp]: "active_size (snd (env_step s)) = active_size s"
  by (simp add: env_step_def split: list.split)

text \<open>What a run of \<open>seal\<close> does to the segments and to the active file.\<close>

lemma seal_result:
  assumes "seal X s = (r, t)"
  defines "seg \<equiv> next_seg X s" and "z \<equiv> zenc X (active_of s)"
  shows "is_seg n \<Longrightarrow> file_of t n = file_of s n \<or> (file_of t n = None \<and> n \<in> shipped s)
           \<or> (n = seg \<and> file_of t n = Some z)"
    and "r = Inl e \<Longrightarrow> file_of t active_name = file_of s active_name \<and> active_size t = active_size s"
    and "r = Inr () \<Longrightarrow> file_of t active_name = Some [] \<and> active_size t = 0 \<and> handle_open t
           \<and> (file_of t seg = Some z \<or> file_of t seg = None \<and> seg \<in> shipped s)"
proof -
  obtain p u where p: "prepare X s = (p, u)" by fastforce
  have un: "untouched s u" by (rule keeps_run [OF keeps_untouched_prepare p untouched_refl])
  then have old: "file_of u n = file_of s n \<or> file_of u n = None \<and> n \<in> shipped s" if "is_seg n" for n
    using that by (auto simp: untouched_def ships_def)
  have sub: "env_gone u \<subseteq> shipped s" "shipped (snd (env_step u)) \<subseteq> shipped s"
    using un env_gone_shipped [of u] by (auto simp: untouched_def ships_def)
  define v where "v = put_file seg z (del_file (seg @ ''.tmp'') (snd (env_step u)))"
  have sub': "env_gone v \<subseteq> shipped s"
    using env_gone_shipped(1) [of v] sub(2) by (simp add: v_def)
  have "p = Inl e' \<Longrightarrow> r = Inl e' \<and> t = u" for e'
    using assms(1) p by (simp add: seal_def bind_act_def)
  moreover have "(r = Inl ErrIO \<and> t = snd (env_step u))
    \<or> (r = Inl ErrIO \<and> t = snd (env_step v))
    \<or> (r = Inr () \<and> t = put_file active_name [] (snd (env_step v))
          \<lparr>handle_open := True, mtime := clock (snd (env_step v)),
           active_size := 0, active_start := clock (snd (env_step v))\<rparr>)" if w: "p = Inr w" for w
  proof -
    from prepare_Inr [OF p [unfolded w]] have "w = seg" and tmp: "file_of u (seg @ ''.tmp'') = Some z"
      by (auto simp: seg_def z_def)
    with assms(1) p w have "publish seg u = (r, t)" by (simp add: seal_def bind_act_def)
    from publish_cases [OF this tmp] show ?thesis unfolding v_def .
  qed
  ultimately have cases: "(\<exists>e. r = Inl e \<and> t = u) \<or> (r = Inl ErrIO \<and> t = snd (env_step u))
    \<or> (r = Inl ErrIO \<and> t = snd (env_step v))
    \<or> (r = Inr () \<and> t = put_file active_name [] (snd (env_step v))
          \<lparr>handle_open := True, mtime := clock (snd (env_step v)),
           active_size := 0, active_start := clock (snd (env_step v))\<rparr>)"
    by (cases p) auto
  have seg: "is_seg seg" by (simp add: seg_def)
  have fu: "file_of (snd (env_step u)) m = (if m \<in> env_gone u then None else file_of u m)"
    and fv: "file_of (snd (env_step v)) m = (if m \<in> env_gone v then None else if m = seg then Some z
      else if m \<in> env_gone u then None else file_of u m)" if "is_seg m" for m
    using that by (auto simp: file_of_env v_def split: if_splits)
  have av: "file_of (snd (env_step v)) active_name = file_of u active_name"
    "file_of (snd (env_step u)) active_name = file_of u active_name"
    using seg by (auto simp: env_step_nonseg v_def)
  have size: "active_size (snd (env_step v)) = active_size u" by (simp add: v_def)
  have ua: "file_of u active_name = file_of s active_name" "active_size u = active_size s"
    using un by (simp_all add: untouched_def)
  show "is_seg n \<Longrightarrow> file_of t n = file_of s n \<or> (file_of t n = None \<and> n \<in> shipped s)
           \<or> (n = seg \<and> file_of t n = Some z)"
    using cases old [of n] fu [of n] fv [of n] sub(1) sub' by (auto split: if_splits)
  show "r = Inl e \<Longrightarrow> file_of t active_name = file_of s active_name \<and> active_size t = active_size s"
    using cases av size ua by auto
  show "r = Inr () \<Longrightarrow> file_of t active_name = Some [] \<and> active_size t = 0 \<and> handle_open t
           \<and> (file_of t seg = Some z \<or> file_of t seg = None \<and> seg \<in> shipped s)"
    using cases fv [OF seg] sub' seg by (auto split: if_splits)
qed

end
