(* ===== verification/SpoolInv.thy ===== *)
theory SpoolInv
  imports SpoolSeal
begin

text \<open>
  Invariants that every operation of the spool keeps, under every script, and what a failed
  rotation does to the operations after it.
\<close>

section \<open>Invariants of the whole spool\<close>

lemma keeps_published_seal: "keeps (published X) (seal X)"
  unfolding keeps_def published_def
proof (intro allI impI)
  fix s :: spool and n c
  assume pub: "\<forall>n c. is_seg n \<longrightarrow> file_of s n = Some c \<longrightarrow> c \<in> range (zenc X)"
    and n: "is_seg n" and c: "file_of (snd (seal X s)) n = Some c"
  obtain r t where r: "seal X s = (r, t)" by fastforce
  with seal_result(1) [OF r n] pub n c show "c \<in> range (zenc X)" by auto
qed

lemma keeps_published_cap: "keeps (published X) (enforce_cap X)"
  by (rule keeps_published_fades) (rule keeps_fades_enforce_cap)

lemma keeps_published_rotate: "keeps (published X) (rotate_spool X)"
  unfolding rotate_spool_def by (intro keeps_intros keeps_published_seal keeps_published_cap)

lemma keeps_fades_line: "keeps (fades s) (write_line X e)"
  unfolding write_line_def
  by (intro keeps_intros keeps_fades keeps_upd) (simp add: fades_def)

lemma keeps_published_write: "keeps (published X) (spool_write X e)"
  unfolding spool_write_def
  by (intro keeps_intros keeps_published_rotate keeps_published_fades keeps_fades_line)

lemma keeps_published_close: "keeps (published X) (spool_close X)"
  unfolding spool_close_def
  by (intro keeps_intros keeps_published_rotate keeps_published_fades keeps_fades)

lemma keeps_fades_open: "keeps (fades s) open_append" "keeps (fades s) make_dir" "keeps (fades s) glob_tmp"
proof -
  show "keeps (fades s) open_append" unfolding sys_defs
    by (rule keeps_syscall; (erule fades_env)?; auto simp: keeps_def fades_def)
  show "keeps (fades s) make_dir" unfolding make_dir_def
    by (rule keeps_syscall; (erule fades_env)?; auto simp: keeps_def fades_def act_defs)
  show "keeps (fades s) glob_tmp" unfolding glob_tmp_def
    by (intro keeps_intros keeps_syscall; (erule fades_env)?; auto simp: keeps_def fades_def act_defs)
qed

lemma keeps_published_open: "keeps (published X) (spool_open opts)"
  unfolding spool_open_def
  by (rule keeps_published_fades, intro keeps_intros keeps_fades keeps_fades_open keeps_upd)
    (simp add: fades_def file_of_def)

subsection \<open>The size of the active file\<close>

text \<open>
  \<open>activeSize\<close> is never more than the file has (a short write leaves it behind), and exactly
  its size as long as no system call fails.
\<close>

definition size_ok :: "spool \<Rightarrow> bool" where
  "size_ok s \<longleftrightarrow> 0 \<le> active_size s \<and> active_size s \<le> int (length (active_of s))"

definition reliable :: "'z world_scheme \<Rightarrow> bool" where
  "reliable s \<longleftrightarrow> (\<forall>ev \<in> set (script s). ev_fail ev = None)"

definition size_exact :: "spool \<Rightarrow> bool" where
  "size_exact s \<longleftrightarrow> reliable s \<and> active_size s = int (length (active_of s))"

lemma reliable_env: "reliable s \<Longrightarrow> reliable (snd (env_step s)) \<and> ev_fail (fst (env_step s)) = None"
  by (auto simp: reliable_def env_step_def quiet_event_def split: list.split)

lemma size_ok_env: "size_ok s \<Longrightarrow> size_ok (snd (env_step s))"
  by (simp add: size_ok_def content_of_env)

lemma size_exact_env: "size_exact s \<Longrightarrow> size_exact (snd (env_step s))"
  by (simp add: size_exact_def content_of_env reliable_env)

lemma reliable_simps [simp]:
  "reliable (put_file n c s) = reliable s" "reliable (del_file n s) = reliable s"
  "reliable (append_active b s) = reliable s" "reliable (s\<lparr>handle_open := a\<rparr>) = reliable s"
  "reliable (s\<lparr>mtime := i\<rparr>) = reliable s" "reliable (s\<lparr>minted := k\<rparr>) = reliable s"
  by (simp_all add: reliable_def)

lemma reliable_spool_simps [simp]:
  "reliable (s\<lparr>active_size := i\<rparr>) = reliable s" "reliable (s\<lparr>active_start := i\<rparr>) = reliable s"
  by (simp_all add: reliable_def)

lemma keeps_size_ok:
  "keeps size_ok segments" "keeps size_ok (stat_file n)" "keeps size_ok (read_file n)"
  "keeps size_ok sync_file" "keeps size_ok handle_sync" "keeps size_ok handle_close"
  "n \<noteq> active_name \<Longrightarrow> keeps size_ok (remove_file n)"
  unfolding sys_defs
  by (rule keeps_syscall; (erule size_ok_env)?;
      auto simp: keeps_def act_defs size_ok_def content_of_def split: option.split)+

lemma keeps_size_exact:
  "keeps size_exact segments" "keeps size_exact (stat_file n)" "keeps size_exact (read_file n)"
  "keeps size_exact sync_file" "keeps size_exact handle_sync" "keeps size_exact handle_close"
  "n \<noteq> active_name \<Longrightarrow> keeps size_exact (remove_file n)"
  unfolding sys_defs
  by (rule keeps_syscall; (erule size_exact_env)?;
      auto simp: keeps_def act_defs size_exact_def content_of_def split: option.split)+

lemma keeps_bind_segments:
  assumes "keeps P segments" and "\<And>segs. \<forall>n \<in> set segs. is_seg n \<Longrightarrow> keeps P (f segs)"
  shows "keeps P (bind_act segments f)"
  unfolding keeps_def
proof (intro allI impI)
  fix s assume s: "P s"
  obtain r t where r: "segments s = (r, t)" by fastforce
  have t: "P t" by (rule keeps_run [OF assms(1) r s])
  show "P (snd (bind_act segments f s))"
  proof (cases r)
    case (Inr segs)
    then have "\<forall>n \<in> set segs. is_seg n"
      using segments_Inr r by (fastforce simp: set_seg_names)
    from keepsD [OF assms(2) [OF this] t] show ?thesis using r Inr by (simp add: bind_act_def)
  qed (use r t in \<open>simp add: bind_act_def\<close>)
qed

lemma keeps_append_sized:
  "keeps size_ok (bind_act (handle_write b) (\<lambda>n. upd_act (\<lambda>s. s\<lparr>active_size := active_size s + n\<rparr>)))"
  "keeps size_exact (bind_act (handle_write b) (\<lambda>n. upd_act (\<lambda>s. s\<lparr>active_size := active_size s + n\<rparr>)))"
proof -
  have env: "active_of (snd (env_step s)) = active_of s" "active_size (snd (env_step s)) = active_size s" for s :: spool
    by (simp_all add: content_of_env)
  show "keeps size_ok (bind_act (handle_write b) (\<lambda>n. upd_act (\<lambda>s. s\<lparr>active_size := active_size s + n\<rparr>)))"
    by (auto simp: keeps_def bind_act_def handle_write_def syscall_def case_prod_beta upd_act_def
        size_ok_def env fail_def split: option.split sum.split)
  show "keeps size_exact (bind_act (handle_write b) (\<lambda>n. upd_act (\<lambda>s. s\<lparr>active_size := active_size s + n\<rparr>)))"
    unfolding keeps_def
  proof (intro allI impI)
    fix s assume s: "size_exact s"
    then have "reliable (snd (env_step s)) \<and> ev_fail (fst (env_step s)) = None"
      using reliable_env [of s] by (simp add: size_exact_def)
    with s show "size_exact (snd (bind_act (handle_write b)
        (\<lambda>n. upd_act (\<lambda>s. s\<lparr>active_size := active_size s + n\<rparr>)) s))"
      by (auto simp: bind_act_def handle_write_def syscall_def case_prod_beta upd_act_def
          size_exact_def env fail_def split: option.split)
  qed
qed

lemma keeps_sized_stat: "keeps size_ok (stat_total ps tot)" "keeps size_exact (stat_total ps tot)"
  by (induction ps arbitrary: tot) (auto intro!: keeps_intros keeps_size_ok keeps_size_exact)

lemma keeps_sized_warning: "keeps size_ok (write_warning X n)" "keeps size_exact (write_warning X n)"
  unfolding write_warning_def
  by (rule keeps_bind [OF keeps_get] keeps_case_sum keeps_fail keeps_append_sized)+

lemma keeps_sized_line: "keeps size_ok (write_line X e)" "keeps size_exact (write_line X e)"
  unfolding write_line_def
  by (rule keeps_case_sum keeps_fail keeps_append_sized)+

lemma keeps_sized_cap: "keeps size_ok (enforce_cap X)" "keeps size_exact (enforce_cap X)"
proof -
  have hd: "hd segs \<noteq> active_name" if "segs \<noteq> []" "\<forall>n \<in> set segs. is_seg n" for segs
    using that hd_in_set [OF that(1)] by auto
  show "keeps size_ok (enforce_cap X)"
    by (rule keeps_enforce_cap, unfold cap_iter_def, rule keeps_bind_segments)
      (auto intro!: keeps_intros keeps_size_ok keeps_sized_stat keeps_sized_warning hd)
  show "keeps size_exact (enforce_cap X)"
    by (rule keeps_enforce_cap, unfold cap_iter_def, rule keeps_bind_segments)
      (auto intro!: keeps_intros keeps_size_exact keeps_sized_stat keeps_sized_warning hd)
qed

lemma reliable_env1: "reliable s \<Longrightarrow> reliable (snd (env_step s))"
  by (simp add: reliable_env)

lemma keeps_reliable:
  "keeps reliable (read_file n)" "keeps reliable sync_file" "keeps reliable handle_sync"
  "keeps reliable handle_close" "keeps reliable (create_file n)" "keeps reliable (append_file n b)"
  "keeps reliable (rename_file m n)" "keeps reliable open_trunc" "keeps reliable (handle_write b)"
  unfolding sys_defs
  by (rule keeps_syscall; (erule reliable_env1)?;
      auto simp: keeps_def act_defs split: option.split)+

lemma keeps_reliable_seal: "keeps reliable (seal X)"
  unfolding seal_def prepare_def publish_def compress_def
  by (intro keeps_intros keeps_reliable keeps_upd) simp_all

lemma keeps_sized_seal: "keeps size_ok (seal X)" "keeps size_exact (seal X)"
proof -
  have *: "size_ok t \<and> (active_size s = int (length (active_of s)) \<longrightarrow> active_size t = int (length (active_of t)))"
    if "seal X s = (r, t)" "size_ok s" for s r t
    using seal_result(2,3) [OF that(1)] that(2)
    by (cases r) (auto simp: size_ok_def content_of_def)
  then show "keeps size_ok (seal X)" unfolding keeps_def by (metis prod.collapse)
  have "size_ok s" if "size_exact s" for s using that by (simp add: size_exact_def size_ok_def)
  with * show "keeps size_exact (seal X)"
    using keeps_reliable_seal unfolding keeps_def size_exact_def by (metis prod.collapse)
qed

lemma keeps_sized_rotate: "keeps size_ok (rotate_spool X)" "keeps size_exact (rotate_spool X)"
  unfolding rotate_spool_def by (intro keeps_intros keeps_sized_seal keeps_sized_cap)+

lemma keeps_sized_write: "keeps size_ok (spool_write X e)" "keeps size_exact (spool_write X e)"
  unfolding spool_write_def by (intro keeps_intros keeps_sized_rotate keeps_sized_line)+

section \<open>A rotation that fails\<close>

text \<open>A sequence of writes as the agent makes them: an error is logged and the next one is tried.\<close>

fun write_all :: "libs \<Rightarrow> envelope list \<Rightarrow> spool \<Rightarrow> (err + unit) list \<times> spool" where
  "write_all X [] s = ([], s)"
| "write_all X (e # es) s =
     (case spool_write X e s of (r, s1) \<Rightarrow>
       (case write_all X es s1 of (rs, s2) \<Rightarrow> (r # rs, s2)))"

text \<open>Once the handle is closed, nothing that \<open>Write\<close> can do opens it again.\<close>

definition wedged :: "spool \<Rightarrow> spool \<Rightarrow> bool" where
  "wedged s t \<longleftrightarrow> \<not> handle_open t \<and> file_of t active_name = file_of s active_name"

lemma wedged_env: "wedged s t \<Longrightarrow> wedged s (snd (env_step t))"
  by (simp add: wedged_def env_step_nonseg)

lemma wedged_calls:
  assumes "wedged s t"
  shows "\<exists>u. handle_sync t = (Inl ErrIO, u) \<and> wedged s u"
    and "\<exists>u. handle_write b t = (Inl ErrIO, u) \<and> wedged s u"
    and "\<exists>u. handle_close t = (Inl ErrIO, u) \<and> wedged s u"
  using wedged_env [OF assms]
  by (auto simp: handle_sync_def handle_write_def handle_close_def syscall_def case_prod_beta fail_def wedged_def
      split: option.split)

lemma wedged_write:
  assumes "wedged s t"
  shows "\<exists>e u. spool_write X env t = (Inl e, u) \<and> wedged s u"
proof (cases "too_old t")
  case True
  from wedged_calls(1) [OF assms] obtain u where "handle_sync t = (Inl ErrIO, u)" "wedged s u" by blast
  with True show ?thesis
    by (simp add: spool_write_def rotate_spool_def seal_def prepare_def bind_act_def get_act_def)
next
  case False
  show ?thesis
  proof (cases "marshal_envelope (json_codec X) env")
    case (Inl e)
    with False assms show ?thesis
      by (simp add: spool_write_def write_line_def bind_act_def get_act_def ret_def fail_def)
  next
    case (Inr b)
    from wedged_calls(2) [OF assms] obtain u
      where "handle_write (b @ [newline]) t = (Inl ErrIO, u)" "wedged s u" by blast
    with False Inr show ?thesis
      by (simp add: spool_write_def write_line_def bind_act_def get_act_def ret_def)
  qed
qed

lemma wedged_all:
  "wedged s t \<Longrightarrow> (case write_all X es t of (rs, u) \<Rightarrow> length rs = length es \<and> list_all isl rs \<and> wedged s u)"
proof (induction es arbitrary: t)
  case (Cons e es)
  from wedged_write [OF Cons.prems] obtain err u where "spool_write X e t = (Inl err, u)" "wedged s u"
    by blast
  with Cons.IH [of u] show ?case by (auto split: prod.splits)
qed simp

text \<open>Which failures of a rotation close the handle: all but that of the first \<open>Sync\<close>.\<close>

lemma seal_failure_wedges:
  assumes "seal X s = (Inl e, t)" and "handle_sync s = (Inr (), s1)"
  shows "wedged s t"
proof -
  obtain r s2 where cl: "handle_close s1 = (r, s2)" by fastforce
  have c2: "\<not> handle_open s2"
    using cl unfolding handle_close_def syscall_def
    by (auto split: prod.splits option.splits if_splits)
  have "keeps (\<lambda>t. \<not> handle_open t) (bind_act (read_file active_name) (\<lambda>raw.
     bind_act (get_act (next_seg X)) (\<lambda>seg.
     bind_act (upd_act (\<lambda>s. s\<lparr>minted := minted s + 1\<rparr>)) (\<lambda>_.
     bind_act (compress X (seg @ ''.tmp'') raw) (\<lambda>_.
     ret seg)))))"
    by (intro keeps_intros keeps_closed keeps_closed_compress keeps_upd) simp
  then have prep: "\<not> handle_open (snd (prepare X s))"
    using assms(2) cl c2 unfolding prepare_def
    by (cases r) (auto simp: bind_act_def keeps_def split: prod.split sum.split)
  have pub: "\<not> handle_open (snd (publish seg u))" if "\<not> handle_open u" "fst (publish seg u) = Inl e'" for seg u e'
  proof -
    obtain q v where q: "rename_file (seg @ ''.tmp'') seg u = (q, v)" by fastforce
    then have "\<not> handle_open v" using keeps_run [OF keeps_closed(5) q] that(1) by blast
    then show ?thesis
      using that(2) q unfolding publish_def
      by (cases q) (auto simp: bind_act_def open_trunc_def syscall_def upd_act_def case_prod_beta
          split: option.splits)
  qed
  obtain q u where q: "prepare X s = (q, u)" by fastforce
  have "\<not> handle_open t"
  proof (cases q)
    case (Inl err)
    with assms(1) q prep show ?thesis by (simp add: seal_def bind_act_def)
  next
    case (Inr seg)
    with assms(1) q have "publish seg u = (Inl e, t)" by (simp add: seal_def bind_act_def)
    with pub [of u seg e] q prep show ?thesis by simp
  qed
  then show ?thesis using seal_result(2) [OF assms(1)] by (simp add: wedged_def)
qed

end
