(* ===== verification/SpoolQuiet.thy ===== *)
theory SpoolQuiet
  imports SpoolInv
begin

text \<open>
  What the operations of the spool compute when nothing fails and no segment is shipped
  meanwhile: which segments the cap drops, and the first-in first-out view of the queue.
\<close>

section \<open>Runs that nothing disturbs\<close>

lemma env_step_quiet [simp]: "script s = [] \<Longrightarrow> env_step s = (quiet_event, s)"
  by (simp add: env_step_def)

lemma syscall_quiet [simp]: "script s = [] \<Longrightarrow> syscall ok bad s = ok s"
  by (simp add: syscall_def quiet_event_def)

lemma quiet_calls:
  assumes "script s = []"
  shows "segments s = (Inr (seg_names (dir s)), s)"
    and "file_of s n = Some c \<Longrightarrow> stat_file n s = (Inr (int (length c)), s)"
    and "file_of s n = Some c \<Longrightarrow> remove_file n s = (Inr (), del_file n s)"
    and "file_of s n = Some c \<Longrightarrow> read_file n s = (Inr c, s)"
    and "sync_file s = (Inr (), s)"
    and "handle_open s \<Longrightarrow> handle_sync s = (Inr (), s)"
    and "handle_open s \<Longrightarrow> handle_close s = (Inr (), s\<lparr>handle_open := False\<rparr>)"
    and "handle_open s \<Longrightarrow> handle_write b s = (Inr (int (length b)), append_active b s)"
    and "create_file n s = (Inr (), put_file n [] s)"
    and "append_file n b s = (Inr (), put_file n (content_of s n @ b) s)"
    and "file_of s m = Some c \<Longrightarrow> rename_file m n s = (Inr (), put_file n c (del_file m s))"
    and "open_trunc s = (Inr (), (put_file active_name [] s)\<lparr>handle_open := True, mtime := clock s\<rparr>)"
  using assms by (simp_all add: sys_defs ret_def)

subsection \<open>Eviction\<close>

text \<open>Which segments the cap drops: the oldest ones, while the total is above it.\<close>

fun evict :: "int \<Rightarrow> (string \<times> int) list \<Rightarrow> string list" where
  "evict cap [] = []"
| "evict cap (f # fs) = (if sum_list (map snd (f # fs)) \<le> cap then [] else fst f # evict cap fs)"

definition seg_sizes :: "'z world_scheme \<Rightarrow> (string \<times> int) list" where
  "seg_sizes s = map (\<lambda>n. (n, int (length (content_of s n)))) (seg_names (dir s))"

definition warning_json :: "libs \<Rightarrow> spool \<Rightarrow> string \<Rightarrow> err + string" where
  "warning_json X s n = marshal_envelope (json_codec X)
     \<lparr>env_TS = clock s, env_Site = site s, env_Host = host s, env_Type = ''spool_warning'',
      env_Schema = 1,
      env_Payload = JObject [(''dropped_segment'', JString n), (''reason'', JString ''spool cap exceeded'')]\<rparr>"

definition warning_line :: "libs \<Rightarrow> spool \<Rightarrow> string \<Rightarrow> string" where
  "warning_line X s n = (case warning_json X s n of Inl _ \<Rightarrow> [] | Inr b \<Rightarrow> b @ [newline])"

definition can_warn :: "libs \<Rightarrow> spool \<Rightarrow> bool" where
  "can_warn X s \<longleftrightarrow> (\<exists>b. fmt_time (json_codec X) (clock s) = Inr b)"

lemma can_warn: "can_warn X s \<Longrightarrow> \<exists>b. warning_json X s n = Inr b"
  by (auto simp: can_warn_def warning_json_def marshal_envelope_def)

definition warned :: "libs \<Rightarrow> spool \<Rightarrow> string \<Rightarrow> spool" where
  "warned X s n = (append_active (warning_line X s n) s)
     \<lparr>active_size := active_size s + int (length (warning_line X s n))\<rparr>"

lemma write_warning_quiet:
  "script s = [] \<Longrightarrow> handle_open s \<Longrightarrow> can_warn X s \<Longrightarrow> write_warning X n s = (Inr (), warned X s n)"
proof -
  assume q: "script s = []" "handle_open s" and "can_warn X s"
  then obtain b where b: "warning_json X s n = Inr b" using can_warn by blast
  then show ?thesis
    using q quiet_calls(8) [OF q, of "b @ [newline]"]
    by (simp add: write_warning_def warning_json_def [symmetric] bind_act_def [of "handle_write _"]
        upd_act_def warned_def warning_line_def)
qed

lemma stat_total_quiet:
  assumes "script s = []" and "\<forall>n \<in> set ps. file_of s n \<noteq> None"
  shows "stat_total ps tot s = (Inr (tot + sum_list (map (\<lambda>n. int (length (content_of s n))) ps)), s)"
  using assms(2)
proof (induction ps arbitrary: tot)
  case (Cons p ps)
  then obtain c where c: "file_of s p = Some c" by auto
  from quiet_calls(2) [OF assms(1) c] Cons show ?case
    by (simp add: bind_try content_of_def c)
qed (simp add: ret_def)

lemma cap_iter_quiet:
  assumes "script s = []" and "handle_open s" and "can_warn X s"
  shows "cap_iter X s =
    (if seg_total s \<le> max_bytes s \<or> seg_names (dir s) = [] then (Inr True, s)
     else (Inr False, warned X (del_file (hd (seg_names (dir s))) s) (hd (seg_names (dir s)))))"
proof (cases "seg_names (dir s) = []")
  case True
  then show ?thesis using quiet_calls(1) [OF assms(1)] by (simp add: cap_iter_def bind_act_def ret_def)
next
  case False
  let ?n = "hd (seg_names (dir s))"
  have present: "\<forall>n \<in> set (seg_names (dir s)). file_of s n \<noteq> None" by (simp add: set_seg_names_file)
  have st: "stat_total (seg_names (dir s)) 0 s = (Inr (seg_total s), s)"
    using stat_total_quiet [OF assms(1) present] by (simp add: seg_total_def)
  obtain c where c: "file_of s ?n = Some c" using present False hd_in_set by blast
  have w: "write_warning X ?n (del_file ?n s) = (Inr (), warned X (del_file ?n s) ?n)"
    using assms by (intro write_warning_quiet) (simp_all add: can_warn_def)
  show ?thesis
    using False quiet_calls(1) [OF assms(1)] quiet_calls(3) [OF assms(1) c] st w
    by (simp add: cap_iter_def bind_act_def [of segments] bind_act_def [of "stat_total _ _"]
        bind_act_def [of "write_warning _ _"] bind_try ret_def)
qed

lemma warned_simps [simp]:
  "script (warned X s n) = script s" "handle_open (warned X s n) = handle_open s"
  "clock (warned X s n) = clock s" "site (warned X s n) = site s" "host (warned X s n) = host s"
  "max_bytes (warned X s n) = max_bytes s" "minted (warned X s n) = minted s"
  "seg_files (dir (warned X s n)) = seg_files (dir s)"
  "file_of (warned X s n) m = (if m = active_name then Some (active_of s @ warning_line X s n) else file_of s m)"
  by (simp_all add: warned_def append_active_def put_file_def file_of_def update_conv')

lemma del_spool_simps [simp]:
  "site (del_file n s) = site s" "host (del_file n s) = host s" "max_bytes (del_file n s) = max_bytes s"
  by (simp_all add: del_file_def)

lemma content_of_del [simp]: "content_of (del_file n s) m = (if m = n then [] else content_of s m)"
  by (simp add: content_of_def)

lemma content_of_warned [simp]:
  "content_of (warned X s n) m = (if m = active_name then active_of s @ warning_line X s n else content_of s m)"
  by (simp add: content_of_def)

lemma warning_line_del [simp]:
  "warning_line X (warned X (del_file n s) m) = warning_line X s"
  "warning_line X (del_file n s) = warning_line X s"
  by (simp_all add: fun_eq_iff warning_line_def warning_json_def)

lemma seg_names_del_hd:
  assumes "good_dir s" and "seg_names (dir s) = n # ns"
  shows "seg_names (dir (del_file n s)) = ns"
proof -
  have d: "distinct (n # ns)" using distinct_seg_names [OF assms(1)] assms(2) by simp
  have "map fst (AList.delete n al) = filter (\<lambda>m. m \<noteq> n) (map fst al)" for al :: "(string \<times> string) list"
    by (induction al) auto
  then have "seg_names (dir (del_file n s)) = sort (filter (\<lambda>m. m \<noteq> n) (map fst (seg_files (dir s))))"
    by (simp add: seg_names_files seg_files_delete)
  also have "\<dots> = filter (\<lambda>m. m \<noteq> n) (seg_names (dir s))"
    by (simp add: seg_names_files filter_sort)
  also have "\<dots> = ns" using assms(2) d by (auto simp: filter_id_conv)
  finally show ?thesis .
qed

lemma seg_names_warned [simp]: "seg_names (dir (warned X s n)) = seg_names (dir s)"
  by (simp add: seg_names_files)


lemma active_not_seg_name: "active_name \<notin> set (seg_names d)"
  by (simp add: set_seg_names)

lemma seg_sizes_step:
  assumes "good_dir s" and "seg_names (dir s) = n # ns"
  shows "seg_sizes (warned X (del_file n s) n) = tl (seg_sizes s)"
proof -
  have "n \<notin> set ns" using distinct_seg_names [OF assms(1)] assms(2) by simp
  moreover have "active_name \<notin> set ns" using active_not_seg_name [of "dir s"] unfolding assms(2) by simp
  ultimately have *: "m \<in> set ns \<Longrightarrow> m \<noteq> n \<and> m \<noteq> active_name" for m by blast
  have "seg_sizes (warned X (del_file n s) n)
      = map (\<lambda>m. (m, int (length (content_of (warned X (del_file n s) n) m)))) ns"
    unfolding seg_sizes_def seg_names_warned seg_names_del_hd [OF assms] ..
  also have "\<dots> = map (\<lambda>m. (m, int (length (content_of s m)))) ns"
    by (rule map_cong [OF refl]) (use * in simp)
  also have "\<dots> = tl (seg_sizes s)" by (simp add: seg_sizes_def assms(2))
  finally show ?thesis .
qed

lemma seg_total_sizes: "seg_total s = sum_list (map snd (seg_sizes s))"
  by (simp add: seg_total_def seg_sizes_def o_def)

lemma good_dir_warned: "good_dir s \<Longrightarrow> good_dir (warned X s n)"
  by (simp add: good_dir_def warned_def append_active_def put_file_def distinct_update)

lemma good_dir_del: "good_dir s \<Longrightarrow> good_dir (del_file n s)"
  by (simp add: good_dir_def distinct_delete)

lemma evict_all_within: "sum_list (map snd fs) \<le> cap \<Longrightarrow> evict cap fs = []"
  by (cases fs) auto

text \<open>The loop of \<open>enforceCap\<close> drops exactly what \<open>evict\<close> says.\<close>

definition evicted :: "spool \<Rightarrow> string list" where
  "evicted s = evict (max_bytes s) (seg_sizes s)"

definition capped :: "libs \<Rightarrow> spool \<Rightarrow> spool \<Rightarrow> bool" where
  "capped X s t \<longleftrightarrow> seg_sizes t = drop (length (evicted s)) (seg_sizes s)
     \<and> evicted s = take (length (evicted s)) (seg_names (dir s))
     \<and> (\<forall>n. is_seg n \<longrightarrow> file_of t n = (if n \<in> set (evicted s) then None else file_of s n))
     \<and> active_of t = active_of s @ concat (map (warning_line X s) (evicted s))
     \<and> script t = [] \<and> handle_open t \<and> good_dir t \<and> minted t = minted s \<and> clock t = clock s"

lemma enforce_cap_quiet:
  assumes "script s = []" and "handle_open s" and "can_warn X s" and "good_dir s" and "0 \<le> max_bytes s"
  shows "\<exists>t. enforce_cap X s = (Inr (), t) \<and> capped X s t"
  using assms
proof (induction "seg_names (dir s)" arbitrary: s)
  case Nil
  then have "cap_iter X s = (Inr True, s)" by (simp add: cap_iter_quiet)
  then have "enforce_cap X s = (Inr (), s)" by (simp add: enforce_cap.simps [of X s])
  moreover have "evicted s = []" using Nil.hyps by (simp add: evicted_def seg_sizes_def)
  ultimately show ?case using Nil by (auto simp: capped_def)
next
  case (Cons n ns)
  note names = Cons.hyps(2) [symmetric]
  show ?case
  proof (cases "seg_total s \<le> max_bytes s")
    case True
    with Cons.prems have "cap_iter X s = (Inr True, s)" by (simp add: cap_iter_quiet)
    then have "enforce_cap X s = (Inr (), s)" by (simp add: enforce_cap.simps [of X s])
    moreover have "evicted s = []"
      using True by (simp add: evicted_def evict_all_within seg_total_sizes)
    ultimately show ?thesis using Cons.prems by (auto simp: capped_def)
  next
    case False
    let ?s = "warned X (del_file n s) n"
    have it: "cap_iter X s = (Inr False, ?s)"
      using False names Cons.prems by (simp add: cap_iter_quiet)
    have "ns = seg_names (dir ?s)" using seg_names_del_hd [OF Cons.prems(4) names] by simp
    moreover have "good_dir ?s" using Cons.prems(4) by (intro good_dir_warned good_dir_del)
    ultimately obtain t where t: "enforce_cap X ?s = (Inr (), t)" and c: "capped X ?s t"
      using Cons.hyps(1) [of ?s] Cons.prems by (auto simp: can_warn_def)
    have ev: "evicted s = n # evicted ?s"
      using False names seg_sizes_step [OF Cons.prems(4) names, of X]
      by (simp add: evicted_def seg_total_sizes) (simp add: seg_sizes_def)
    have "n \<noteq> active_name" using active_not_seg_name [of "dir s"] unfolding names by auto
    have "enforce_cap X s = (Inr (), t)" using it t by (simp add: enforce_cap.simps [of X s])
    moreover have "capped X s t"
      using \<open>n \<noteq> active_name\<close> c names seg_names_del_hd [OF Cons.prems(4) names] seg_sizes_step [OF Cons.prems(4) names, of X]
      by (auto simp: capped_def ev drop_Suc content_of_def)
    ultimately show ?thesis by blast
  qed
qed

subsection \<open>First in, first out\<close>

text \<open>The bytes the spool holds, oldest first; \<open>D\<close> is the decompression of a segment.\<close>

definition queue :: "(string \<Rightarrow> string) \<Rightarrow> 'z world_scheme \<Rightarrow> string" where
  "queue D s = concat (map (\<lambda>n. D (content_of s n)) (seg_names (dir s))) @ active_of s"

definition seg_name :: "libs \<Rightarrow> nat \<Rightarrow> string" where
  "seg_name X k = new_ulid X k @ seg_suffix"

text \<open>ULIDs grow: every id to come is above the names in the directory and below its successors.\<close>

definition fresh_ids :: "libs \<Rightarrow> spool \<Rightarrow> bool" where
  "fresh_ids X s \<longleftrightarrow> (\<forall>k \<ge> minted s. (\<forall>n \<in> set (seg_names (dir s)). n < seg_name X k)
     \<and> (\<forall>j > k. seg_name X k < seg_name X j))"

definition ready :: "libs \<Rightarrow> spool \<Rightarrow> bool" where
  "ready X s \<longleftrightarrow> script s = [] \<and> handle_open s \<and> good_dir s \<and> file_of s active_name \<noteq> None
     \<and> fresh_ids X s"

lemma keeps_good_seal: "keeps good_dir (seal X)"
  unfolding seal_def prepare_def publish_def compress_def
  by (intro keeps_intros keeps_good_dir keeps_upd) (simp_all add: good_dir_def)

lemma config_of_put [simp]:
  "max_bytes (put_file n c s) = max_bytes s" "max_bytes (append_active b s) = max_bytes s"
  "rotate_bytes (put_file n c s) = rotate_bytes s" "rotate_bytes (append_active b s) = rotate_bytes s"
  "rotate_bytes (del_file n s) = rotate_bytes s"
  by (simp_all add: put_file_def append_active_def del_file_def)

lemma seal_runs:
  assumes "ready X s"
  shows "\<exists>t. seal X s = (Inr (), t) \<and> script t = [] \<and> minted t = Suc (minted s)
    \<and> max_bytes t = max_bytes s \<and> rotate_bytes t = rotate_bytes s"
proof -
  from assms obtain raw where raw: "file_of s active_name = Some raw" and q: "script s = []" "handle_open s"
    by (auto simp: ready_def)
  have "next_seg X s @ ''.tmp'' \<noteq> next_seg X s" by simp
  then show ?thesis
    using q raw
    by (simp add: seal_def prepare_def compress_def publish_def sys_defs bind_act_def act_defs)
qed

lemma seg_names_eqI:
  assumes "good_dir t" and "sorted ns" and "distinct ns"
    and "\<And>n. n \<in> set ns \<longleftrightarrow> is_seg n \<and> file_of t n \<noteq> None"
  shows "seg_names (dir t) = ns"
  using assms distinct_seg_names [OF assms(1)] set_seg_names_file [of t]
  by (intro sorted_distinct_set_unique) (auto simp: seg_names_def)

lemma next_seg_name: "next_seg X s = seg_name X (minted s)"
  by (simp add: next_seg_def seg_name_def)

lemma seal_ready:
  assumes "ready X s" and D: "\<And>raw. D (zenc X raw) = raw"
  shows "\<exists>t. seal X s = (Inr (), t) \<and> ready X t \<and> queue D t = queue D s \<and> active_of t = []
    \<and> active_size t = 0 \<and> max_bytes t = max_bytes s \<and> rotate_bytes t = rotate_bytes s
    \<and> seg_total t = seg_total s + int (length (zenc X (active_of s)))"
proof -
  from seal_runs [OF assms(1)] obtain t where t: "seal X s = (Inr (), t)" "script t = []"
      "minted t = Suc (minted s)" "max_bytes t = max_bytes s" "rotate_bytes t = rotate_bytes s" by blast
  from assms(1) have r: "good_dir s" "fresh_ids X s" "shipped s = {}"
    by (auto simp: ready_def shipped_def)
  let ?seg = "next_seg X s"
  note res = seal_result [OF t(1)]
  have new: "file_of t ?seg = Some (zenc X (active_of s))" using res(3) [OF refl] r(3) by auto
  have notin: "?seg \<notin> set (seg_names (dir s))" and above: "\<forall>n \<in> set (seg_names (dir s)). n \<le> ?seg"
    using r(2) unfolding fresh_ids_def next_seg_name by (auto dest!: spec [of _ "minted s"])
  have old: "file_of t n = file_of s n" if "is_seg n" "n \<noteq> ?seg" for n
    using res(1) [OF that(1)] r(3) that(2) by auto
  have gt: "good_dir t" by (rule keeps_run [OF keeps_good_seal t(1) r(1)])
  have names: "seg_names (dir t) = seg_names (dir s) @ [?seg]"
  proof (rule seg_names_eqI [OF gt])
    show "sorted (seg_names (dir s) @ [?seg])"
      using above by (auto simp: sorted_append seg_names_def)
    show "distinct (seg_names (dir s) @ [?seg])"
      using notin distinct_seg_names [OF r(1)] by simp
    show "n \<in> set (seg_names (dir s) @ [?seg]) \<longleftrightarrow> is_seg n \<and> file_of t n \<noteq> None" for n
      using new old [of n] set_seg_names_file [of s] by (cases "n = ?seg") fastforce+
  qed
  have same: "content_of t n = content_of s n" if "n \<in> set (seg_names (dir s))" for n
  proof -
    have "n \<noteq> ?seg" "is_seg n" using that notin by (auto simp: set_seg_names_file)
    then show ?thesis using old [of n] by (simp add: content_of_def)
  qed
  have m: "map (\<lambda>n. D (content_of t n)) (seg_names (dir s)) = map (\<lambda>n. D (content_of s n)) (seg_names (dir s))"
    "map (\<lambda>n. int (length (content_of t n))) (seg_names (dir s))
      = map (\<lambda>n. int (length (content_of s n))) (seg_names (dir s))"
    using same by simp_all
  have act: "active_of t = []" "active_size t = 0" "handle_open t" "file_of t active_name = Some []"
    using res(3) [OF refl] by (simp_all add: content_of_def)
  have seg: "content_of t ?seg = zenc X (active_of s)" using new by (simp add: content_of_def)
  have "queue D t = queue D s"
    unfolding queue_def names map_append m concat_append by (simp add: seg act D)
  moreover have "seg_total t = seg_total s + int (length (zenc X (active_of s)))"
    unfolding seg_total_def names map_append m sum_list_append by (simp add: seg)
  moreover have "fresh_ids X t"
    using r(2) unfolding fresh_ids_def t(3) names next_seg_name by auto
  ultimately show ?thesis
    using t gt act by (simp add: ready_def)
qed

lemma rotate_ready:
  assumes "ready X s" and "\<And>raw. D (zenc X raw) = raw"
    and "seg_total s + int (length (zenc X (active_of s))) \<le> max_bytes s"
  shows "\<exists>t. rotate_spool X s = (Inr (), t) \<and> ready X t \<and> queue D t = queue D s \<and> active_of t = []
    \<and> active_size t = 0 \<and> max_bytes t = max_bytes s \<and> rotate_bytes t = rotate_bytes s
    \<and> seg_total t = seg_total s + int (length (zenc X (active_of s)))"
proof -
  from seal_ready [OF assms(1), of D] assms(2) obtain t where t: "seal X s = (Inr (), t)" "ready X t"
     "queue D t = queue D s" "active_of t = []" "active_size t = 0" "max_bytes t = max_bytes s"
     "rotate_bytes t = rotate_bytes s"
     "seg_total t = seg_total s + int (length (zenc X (active_of s)))" by blast
  have "segments t = (Inr (seg_names (dir t)), t)" "stat_total (seg_names (dir t)) 0 t = (Inr (seg_total t), t)"
    using t(2) quiet_calls(1) [of t] stat_total_quiet [of t "seg_names (dir t)" 0]
    by (simp_all add: ready_def set_seg_names_file seg_total_def)
  then have "cap_iter X t = (Inr True, t)"
    using t(6,8) assms(3) by (simp add: cap_iter_def bind_act_def [of segments] bind_act_def [of "stat_total _ _"] ret_def)
  then have "enforce_cap X t = (Inr (), t)" by (simp add: enforce_cap.simps [of X t])
  with t show ?thesis by (auto simp: rotate_spool_def bind_act_def)
qed

lemma write_line_ready:
  assumes "ready X s" and "marshal_envelope (json_codec X) e = Inr b"
  shows "\<exists>t. write_line X e s = (Inr (), t) \<and> ready X t \<and> queue D t = queue D s @ b @ [newline]
    \<and> active_of t = active_of s @ b @ [newline] \<and> max_bytes t = max_bytes s \<and> seg_total t = seg_total s
    \<and> seg_names (dir t) = seg_names (dir s)"
proof -
  let ?l = "b @ [newline]"
  let ?t = "append_active ?l s\<lparr>active_size := active_size s + int (length ?l)\<rparr>"
  have w: "write_line X e s = (Inr (), ?t)"
    using assms quiet_calls(8) [of s ?l]
    by (simp add: ready_def write_line_def bind_act_def upd_act_def)
  have dir: "dir ?t = AList.update active_name (active_of s @ ?l) (dir s)" by simp
  have names: "seg_names (dir ?t) = seg_names (dir s)" by (simp add: seg_names_files)
  have same: "content_of ?t n = content_of s n" if "n \<in> set (seg_names (dir s))" for n
    using that active_not_seg_name [of "dir s"] by auto
  have "map (\<lambda>n. D (content_of ?t n)) (seg_names (dir s)) = map (\<lambda>n. D (content_of s n)) (seg_names (dir s))"
    "map (\<lambda>n. int (length (content_of ?t n))) (seg_names (dir s))
      = map (\<lambda>n. int (length (content_of s n))) (seg_names (dir s))"
    using same by (auto intro!: map_cong)
  moreover have "active_of ?t = active_of s @ ?l" by simp
  ultimately have "queue D ?t = queue D s @ ?l" "seg_total ?t = seg_total s"
    unfolding queue_def seg_total_def names by (simp_all only: append_assoc)
  moreover have "ready X ?t"
    using assms(1) names by (simp add: ready_def good_dir_def distinct_update fresh_ids_def)
  ultimately show ?thesis using w names by fastforce
qed

text \<open>A write that finds room: none, one or two rotations, and no eviction.\<close>

definition roomy :: "libs \<Rightarrow> spool \<Rightarrow> string \<Rightarrow> bool" where
  "roomy X s ln \<longleftrightarrow>
     seg_total s + int (length (zenc X (active_of s))) + int (length (zenc X ln)) \<le> max_bytes s
     \<and> seg_total s + int (length (zenc X (active_of s @ ln))) \<le> max_bytes s"

lemma spool_write_ready:
  assumes "ready X s" and D: "\<And>raw. D (zenc X raw) = raw"
    and m: "marshal_envelope (json_codec X) e = Inr b" and room: "roomy X s (b @ [newline])"
  shows "\<exists>t. spool_write X e s = (Inr (), t) \<and> ready X t \<and> queue D t = queue D s @ b @ [newline]"
proof -
  let ?l = "b @ [newline]"
  have first: "\<exists>u. (if too_old s then rotate_spool X else ret ()) s = (Inr (), u) \<and> ready X u
      \<and> queue D u = queue D s \<and> max_bytes u = max_bytes s
      \<and> seg_total u + int (length (zenc X (active_of u @ ?l))) \<le> max_bytes s"
  proof (cases "too_old s")
    case True
    have "seg_total s + int (length (zenc X (active_of s))) \<le> max_bytes s"
      using room by (simp add: roomy_def)
    from rotate_ready [OF assms(1) D this] obtain u where "rotate_spool X s = (Inr (), u)" "ready X u"
      "queue D u = queue D s" "active_of u = []" "max_bytes u = max_bytes s"
      "seg_total u = seg_total s + int (length (zenc X (active_of s)))" by blast
    with True room show ?thesis by (intro exI [of _ u]) (simp add: roomy_def)
  next
    case False
    with assms(1) room show ?thesis by (intro exI [of _ s]) (simp add: roomy_def)
  qed
  then obtain u where u: "(if too_old s then rotate_spool X else ret ()) s = (Inr (), u)" "ready X u"
      "queue D u = queue D s" "max_bytes u = max_bytes s"
      and ur: "seg_total u + int (length (zenc X (active_of u @ ?l))) \<le> max_bytes s" by blast
  from write_line_ready [OF u(2) m, of D] obtain v where v: "write_line X e u = (Inr (), v)" "ready X v"
      "queue D v = queue D u @ ?l" "active_of v = active_of u @ ?l" "max_bytes v = max_bytes u"
      "seg_total v = seg_total u" by blast
  have w: "spool_write X e s = (if too_big v then rotate_spool X else ret ()) v"
    using u(1) v(1) by (simp add: spool_write_def bind_act_def get_act_def)
  show ?thesis
  proof (cases "too_big v")
    case True
    have "seg_total v + int (length (zenc X (active_of v))) \<le> max_bytes v"
      using ur u(4) v(4-6) by simp
    from rotate_ready [OF v(2) D this] w True u(3) v(3) show ?thesis by auto
  next
    case False
    with w v(2,3) u(3) show ?thesis by simp
  qed
qed

subsection \<open>Opening and closing\<close>

lemma iter_remove_quiet:
  assumes "script s = []" and "distinct ns" and "\<forall>n \<in> set ns. file_of s n \<noteq> None"
  shows "iter_act remove_file ns s = (Inr (), fold del_file ns s)"
  using assms
proof (induction ns arbitrary: s)
  case (Cons n ns)
  then obtain c where "file_of s n = Some c" by auto
  moreover have "iter_act remove_file ns (del_file n s) = (Inr (), fold del_file ns (del_file n s))"
    by (rule Cons.IH) (use Cons.prems in auto)
  ultimately show ?case using quiet_calls(3) [OF Cons.prems(1)] by (simp add: bind_act_def)
qed (simp add: ret_def)

lemma fold_del_simps [simp]:
  "script (fold del_file ns s) = script s"
  "file_of (fold del_file ns s) m = (if m \<in> set ns then None else file_of s m)"
  by (induction ns arbitrary: s) auto

lemma set_keys_file: "set (map fst (dir s)) = {n. file_of s n \<noteq> None}"
  by (auto simp: file_of_def map_of_eq_None_iff)

lemma spool_open_quiet:
  assumes "script s = []" and "good_dir s"
  shows "\<exists>t. spool_open opts s = (Inr (), t) \<and> handle_open t \<and> script t = []
    \<and> (\<forall>n. file_of t n = (if has_suffix n tmp_suffix then None
                          else if n = active_name then Some (active_of s) else file_of s n))
    \<and> active_size t = int (length (active_of s))
    \<and> 0 < rotate_bytes t \<and> 0 < rotate_age t \<and> 0 < max_bytes t"
proof -
  let ?tmps = "sort (filter (\<lambda>n. has_suffix n tmp_suffix) (map fst (dir s)))"
  let ?u = "fold del_file ?tmps s"
  let ?v = "(if file_of ?u active_name = None then (put_file active_name [] ?u)\<lparr>mtime := clock ?u\<rparr> else ?u)
      \<lparr>handle_open := True\<rparr>"
  have act: "\<not> has_suffix active_name tmp_suffix"
    by (simp add: has_suffix_def active_name_def tmp_suffix_def)
  have mem: "n \<in> set ?tmps \<longleftrightarrow> has_suffix n tmp_suffix \<and> file_of s n \<noteq> None" for n
    using set_keys_file [of s] by auto
  have glob: "glob_tmp s = (Inr ?tmps, s)"
    using assms(1) by (simp add: glob_tmp_def bind_try ret_def)
  have rem: "iter_act remove_file ?tmps s = (Inr (), ?u)"
    by (rule iter_remove_quiet) (use assms mem in \<open>auto simp: good_dir_def distinct_map_filter\<close>)
  have u: "script ?u = []" "file_of ?u active_name = file_of s active_name"
    using assms(1) act by simp_all
  have op: "open_append ?u = (Inr (), ?v)" using assms(1) by (simp add: open_append_def)
  have v: "script ?v = []" "file_of ?v active_name = Some (active_of s)"
    using u by (auto simp: content_of_def)
  have st: "stat_file active_name ?v = (Inr (int (length (active_of s))), ?v)"
    by (rule quiet_calls(2) [OF v])
  have fv: "file_of ?v n = (if has_suffix n tmp_suffix then None
      else if n = active_name then Some (active_of s) else file_of s n)" for n
    using u(2) act mem [of n] by (auto simp: content_of_def)
  define v where "v = ?v"
  have hv: "handle_open v" "script v = []" using v(1) by (simp_all add: v_def)
  have run: "spool_open opts s = (Inr (), v\<lparr>
       rotate_bytes := or_default (opt_RotateBytes opts) default_rotate_bytes,
       rotate_age := or_default (opt_RotateAge opts) default_rotate_age,
       max_bytes := or_default (opt_MaxBytes opts) default_max_bytes,
       site := opt_Site opts,
       host := opt_Host opts,
       active_size := int (length (active_of s)),
       active_start := (if 0 < int (length (active_of s)) then mtime v else clock v)\<rparr>)"
    (is "_ = (Inr (), ?t)")
    using glob rem op st assms(1) unfolding v_def
    by (simp only: spool_open_def bind_act_def make_dir_def syscall_quiet ret_def upd_act_def
        prod.case sum.case)
  have "file_of ?t = file_of v" by (rule file_of_same_dir) simp
  then have "\<forall>n. file_of ?t n = (if has_suffix n tmp_suffix then None
      else if n = active_name then Some (active_of s) else file_of s n)"
    using fv unfolding v_def by simp
  moreover have "0 < rotate_bytes ?t" "0 < rotate_age ?t" "0 < max_bytes ?t"
    by (simp_all add: or_default_def default_rotate_bytes_def default_rotate_age_def
        default_max_bytes_def)
  moreover have "active_size ?t = int (length (active_of s))" "handle_open ?t" "script ?t = []"
    using hv by simp_all
  ultimately show ?thesis unfolding run by blast
qed

lemma spool_close_ready:
  assumes "ready X s" and D: "\<And>raw. D (zenc X raw) = raw" and "size_exact s"
    and "seg_total s + int (length (zenc X (active_of s))) \<le> max_bytes s"
  shows "\<exists>t. spool_close X s = (Inr (), t) \<and> queue D t = queue D s \<and> active_of t = [] \<and> \<not> handle_open t
    \<and> script t = [] \<and> good_dir t"
proof -
  have close: "\<exists>v. handle_close u = (Inr (), v) \<and> queue D v = queue D u \<and> active_of v = active_of u \<and> \<not> handle_open v
      \<and> script v = [] \<and> good_dir v"
    if "ready X u" for u
    using that quiet_calls(7) [of u] by (simp add: ready_def queue_def good_dir_def)
  show ?thesis
  proof (cases "0 < active_size s")
    case True
    from rotate_ready [OF assms(1) D assms(4)] obtain u where
      u: "rotate_spool X s = (Inr (), u)" "ready X u" "queue D u = queue D s" "active_of u = []" by blast
    with True close [OF u(2)] show ?thesis
      by (auto simp: spool_close_def bind_act_def get_act_def)
  next
    case False
    then have "active_of s = []" using assms(3) by (simp add: size_exact_def)
    with False close [OF assms(1)] show ?thesis
      by (auto simp: spool_close_def bind_act_def get_act_def ret_def)
  qed
qed

end
