(* ===== verification/Ship.thy ===== *)
theory Ship
  imports SpoolQuiet
begin

text \<open>
  \<open>internal/ship/ship.go\<close>: the shipper, which POSTs the segments of the spool directory to the
  ingest endpoint and removes a segment once the endpoint has answered for it. \<open>replies\<close> is
  what the endpoint will answer to the next requests (nothing answers when it is used up),
  \<open>patience\<close> how many back-off sleeps end before the context is cancelled, \<open>url_ok\<close> whether
  \<open>http.NewRequest\<close> accepts the configured URL. \<open>requests\<close> and \<open>naps\<close> record the requests made
  (batch id, body, answer) and the sleeps. Log lines are not modelled.
\<close>

section \<open>The shipper\<close>

datatype reply = NetError | Status nat

record shipper = world +
  url_ok :: bool
  min_backoff :: int
  max_backoff :: int
  backoff :: int
  replies :: "reply list"
  patience :: nat
  requests :: "(string \<times> string \<times> reply) list"
  naps :: "int list"

definition default_min_backoff :: int where
  "default_min_backoff = 1000000000"

definition default_max_backoff :: int where
  "default_max_backoff = 5 * 60 * 1000000000"

text \<open>\<open>New\<close>, for the back-off it starts with.\<close>

definition new_shipper :: "int \<Rightarrow> int \<Rightarrow> shipper \<Rightarrow> shipper" where
  "new_shipper lo hi s =
     (let lo' = or_default lo default_min_backoff; hi' = or_default hi default_max_backoff
      in s\<lparr>min_backoff := lo', max_backoff := hi', backoff := lo'\<rparr>)"

definition batch_id :: "string \<Rightarrow> string" where
  "batch_id path = trim_suffix path seg_suffix"

definition http_do :: "string \<Rightarrow> string \<Rightarrow> (shipper, reply) act" where
  "http_do bid body s =
     (case replies s of
        [] \<Rightarrow> (Inr NetError, s\<lparr>requests := requests s @ [(bid, body, NetError)]\<rparr>)
      | r # rs \<Rightarrow> (Inr r, s\<lparr>replies := rs, requests := requests s @ [(bid, body, r)]\<rparr>))"

text \<open>\<open>ship\<close>: whether a failure is worth a retry, and the error if there is one.\<close>

definition ship :: "string \<Rightarrow> (shipper, bool \<times> err option) act" where
  "ship path =
     bind_act (try_act (read_file path)) (\<lambda>r.
       case r of
         Inl e \<Rightarrow> ret (False, Some e)
       | Inr raw \<Rightarrow>
           bind_act (get_act url_ok) (\<lambda>good.
             if \<not> good then ret (False, Some (ErrInvalid ''url''))
             else bind_act (http_do (batch_id path) raw) (\<lambda>resp.
               case resp of
                 NetError \<Rightarrow> ret (True, Some ErrNet)
               | Status c \<Rightarrow>
                   if c div 100 = 2 then
                     bind_act (try_act (remove_file path)) (\<lambda>q.
                       case q of Inl e \<Rightarrow> ret (False, Some e) | Inr _ \<Rightarrow> ret (False, None))
                   else if c div 100 = 4 then
                     bind_act (try_act (remove_file path)) (\<lambda>q.
                       case q of Inl e \<Rightarrow> ret (False, Some e) | Inr _ \<Rightarrow> ret (False, Some (ErrStatus c)))
                   else ret (True, Some (ErrStatus c)))))"

text \<open>\<open>realSleep\<close> for the current back-off; a cancelled context ends it with an error.\<close>

definition nap :: "(shipper, unit) act" where
  "nap s = (if patience s = 0 then (Inl ErrCancelled, s)
            else (Inr (), s\<lparr>patience := patience s - 1, naps := naps s @ [backoff s]\<rparr>))"

definition double_backoff :: "shipper \<Rightarrow> shipper" where
  "double_backoff s =
     (let b = backoff s * 2 in s\<lparr>backoff := (if max_backoff s < b then max_backoff s else b)\<rparr>)"

definition reset_backoff :: "shipper \<Rightarrow> shipper" where
  "reset_backoff s = s\<lparr>backoff := min_backoff s\<rparr>"

lemma env_patience [simp]: "patience (snd (env_step s)) = patience s"
  by (simp add: env_step_def split: list.split)

lemma keeps_patience:
  "keeps (\<lambda>s. patience s = k) (read_file n)" "keeps (\<lambda>s. patience s = k) (remove_file n)"
  unfolding sys_defs
  by (rule keeps_syscall; auto simp: keeps_def act_defs del_file_def split: option.split)+

lemma keeps_case_reply [keeps_intros]:
  "keeps P m \<Longrightarrow> (\<And>c. keeps P (f c)) \<Longrightarrow> keeps P (case r of NetError \<Rightarrow> m | Status c \<Rightarrow> f c)"
  by (cases r) simp_all

lemma keeps_patience_http: "keeps (\<lambda>s. patience s = k) (http_do b c)"
  by (auto simp: keeps_def http_do_def split: list.split)

lemma keeps_patience_ship: "keeps (\<lambda>s. patience s = k) (ship path)"
  unfolding ship_def by (intro keeps_intros keeps_patience keeps_patience_http)

function ship_with_retry :: "string \<Rightarrow> (shipper, unit) act" where
  "ship_with_retry path s =
     (case ship path s of
        (Inl e, s1) \<Rightarrow> (Inl e, s1)
      | (Inr (retry, err), s1) \<Rightarrow>
          if err = None \<or> \<not> retry then (Inr (), reset_backoff s1)
          else (case nap s1 of
                  (Inl e, s2) \<Rightarrow> (Inl e, s2)
                | (Inr _, s2) \<Rightarrow> ship_with_retry path (double_backoff s2)))"
  by pat_completeness auto
termination
proof (relation "measure (\<lambda>(path, s). patience s)")
  fix path s r s1 y u v z s2 and w :: unit
  assume "(r, s1) = ship path s" and nap: "(z, s2) = nap s1" and z: "z = Inr w"
  then have "patience s1 = patience s"
    using keeps_run [OF keeps_patience_ship] by metis
  with nap z show "((path, double_backoff s2), (path, s)) \<in> measure (\<lambda>(path, s). patience s)"
    by (auto simp: nap_def double_backoff_def Let_def split: if_splits)
qed simp

declare ship_with_retry.simps [simp del]

text \<open>
  \<open>Run\<close>, with a bound on the number of listings: \<open>None\<close> if it is still running after them.
  \<open>lst\<close> is the callback that lists the segments.
\<close>

fun run_ship :: "nat \<Rightarrow> (shipper, string list) act \<Rightarrow> shipper \<Rightarrow> ((err + unit) \<times> shipper) option" where
  "run_ship 0 lst s = None"
| "run_ship (Suc k) lst s =
     (case lst s of
        (Inl e, s1) \<Rightarrow> Some (Inl e, s1)
      | (Inr segs, s1) \<Rightarrow>
          if segs = [] then Some (Inr (), s1)
          else (case iter_act ship_with_retry segs s1 of
                  (Inl e, s2) \<Rightarrow> Some (Inl e, s2)
                | (Inr _, s2) \<Rightarrow> run_ship k lst s2))"

end
