(* ===== verification/SpoolProps.thy ===== *)
theory SpoolProps
  imports SpoolQuiet
begin

text \<open>
  The contract of the spool: its properties, each with a witness on a small concrete spool.
\<close>

section \<open>A concrete spool\<close>

text \<open>Ids \<open>a\<close>, \<open>aa\<close>, \<open>aaa\<close>, ... and an encoder that emits the input when it is closed.\<close>

definition demo_libs :: libs where
  "demo_libs = \<lparr>new_ulid = \<lambda>k. replicate (Suc k) CHR ''a'', zwrite = \<lambda>r. [], zclose = \<lambda>r. r,
     json_codec = \<lparr>fmt_time = \<lambda>t. Inr (itoa t), fmt_float = \<lambda>f. ''0''\<rparr>\<rparr>"

definition demo_spool :: "(string \<times> string) list \<Rightarrow> int \<Rightarrow> event list \<Rightarrow> spool" where
  "demo_spool d cap evs =
     \<lparr>dir = d, handle_open = True, mtime = 0, clock = 7, minted = 0, script = evs,
      rotate_bytes = 1, rotate_age = 60, max_bytes = cap, site = ''s'', host = ''h'',
      active_size = int (length (the (map_of d active_name))), active_start = 0\<rparr>"

definition demo_envelope :: envelope where
  "demo_envelope = \<lparr>env_TS = 7, env_Site = ''s'', env_Host = ''h'', env_Type = ''x'', env_Schema = 1,
     env_Payload = JBool True\<rparr>"

lemma demo_zenc [simp]: "zenc demo_libs raw = raw"
  by (simp add: zenc_def demo_libs_def)

lemma demo_can_warn [simp]: "can_warn demo_libs s"
  by (simp add: can_warn_def demo_libs_def)

lemma replicate_less: "(x :: char) < y \<Longrightarrow> replicate k y @ x # u < replicate (k + Suc d) y @ v"
  by (induction k) (auto simp: less_list_code)

lemma demo_names_less: "i < j \<Longrightarrow> seg_name demo_libs i < seg_name demo_libs j"
proof -
  assume "i < j"
  then obtain d where "j = i + Suc d" using less_imp_Suc_add by auto
  moreover have "CHR ''.'' < CHR ''a''" by (simp add: less_char_def)
  ultimately show ?thesis
    using replicate_less [of "CHR ''.''" "CHR ''a''" "Suc i" "''jsonl.zst''" d seg_suffix]
    by (simp add: seg_name_def demo_libs_def seg_suffix_def)
qed

lemma demo_ready: "ready demo_libs (demo_spool [(active_name, raw)] cap [])"
proof -
  have "seg_names [(active_name, raw)] = []" by (simp add: seg_names_def)
  then show ?thesis
    by (simp add: ready_def demo_spool_def good_dir_def file_of_def fresh_ids_def demo_names_less)
qed

lemma demo_codec_ok: "codec_ok (json_codec demo_libs)"
proof -
  have "printable (itoa t)" for t by (simp add: itoa_def printable_format_uint)
  then show ?thesis by (auto simp: codec_ok_def demo_libs_def)
qed

lemma demo_line:
  "\<exists>b. marshal_envelope (json_codec demo_libs) demo_envelope = Inr b
     \<and> roomy demo_libs (demo_spool [(active_name, ''old'')] 1000 []) (b @ [newline])"
proof -
  let ?s = "demo_spool [(active_name, ''old'')] 1000 []"
  obtain b where b: "marshal_envelope (json_codec demo_libs) demo_envelope = Inr b" "length b < 200"
    by (simp add: marshal_envelope_def demo_envelope_def demo_libs_def envelope_fields_def json_string_def
        json_ascii_def backslash_def is_ascii_def itoa_def format_uint_def format_base.simps digit_char_def)
  have "active_of ?s = ''old''" "max_bytes ?s = 1000" "seg_names (dir ?s) = []"
    by (simp_all add: demo_spool_def content_of_def file_of_def seg_names_def)
  then have "roomy demo_libs ?s (b @ [newline])"
    using b(2) by (simp add: roomy_def seg_total_def)
  with b(1) show ?thesis by blast
qed

section \<open>Properties\<close>

text \<open>
  C2: First in, first out. Take a spool that is open, with nothing failing around it, whose
  ids grow, with room under the cap, and a decompressor that inverts the encoder. Then
  \<open>Write\<close> succeeds and appends exactly the envelope's line to the byte sequence the spool holds
  (the decompressed segments in the order of their names, then the active file), whether it
  rotates before the append because the active file is old, after it because it is full, both
  or not at all; and the spool is ready for the next write.
\<close>

theorem spool_write_fifo:
  assumes "ready X s" and "\<And>raw. D (zenc X raw) = raw"
    and "marshal_envelope (json_codec X) e = Inr b" and "roomy X s (b @ [newline])"
  shows "\<exists>t. spool_write X e s = (Inr (), t) \<and> ready X t \<and> queue D t = queue D s @ b @ [newline]"
  using assms by (rule spool_write_ready)

theorem spool_write_fifo_witness:
  "\<exists>b t. marshal_envelope (json_codec demo_libs) demo_envelope = Inr b
     \<and> spool_write demo_libs demo_envelope (demo_spool [(active_name, ''old'')] 1000 []) = (Inr (), t)
     \<and> queue (\<lambda>z. z) t = ''old'' @ b @ [newline]"
proof -
  let ?s = "demo_spool [(active_name, ''old'')] 1000 []"
  obtain b where b: "marshal_envelope (json_codec demo_libs) demo_envelope = Inr b" "roomy demo_libs ?s (b @ [newline])"
    using demo_line by blast
  have "active_of ?s = ''old''" "seg_names (dir ?s) = []"
    by (simp_all add: demo_spool_def content_of_def file_of_def seg_names_def)
  with spool_write_fifo [OF demo_ready _ b, of "\<lambda>z. z"] b(1) show ?thesis
    by (auto simp: queue_def)
qed

text \<open>
  C9: What the cap drops. With nothing failing and nobody shipping, \<open>enforceCap\<close> succeeds and
  drops the shortest run of oldest segments that brings the total down to the cap (the
  reference \<open>evict\<close>), leaves every other segment as it is, and appends one warning line per
  dropped segment, in order, to the active file.
\<close>

theorem enforce_cap_exact:
  assumes "script s = []" and "handle_open s" and "can_warn X s" and "good_dir s" and "0 \<le> max_bytes s"
  shows "\<exists>t. enforce_cap X s = (Inr (), t)
    \<and> seg_sizes t = drop (length (evicted s)) (seg_sizes s)
    \<and> evicted s = take (length (evicted s)) (seg_names (dir s))
    \<and> (\<forall>n. \<not> is_seg n \<or> file_of t n = (if n \<in> set (evicted s) then None else file_of s n))
    \<and> active_of t = active_of s @ concat (map (warning_line X s) (evicted s))"
proof -
  from enforce_cap_quiet [OF assms] obtain t where "enforce_cap X s = (Inr (), t)" "capped X s t" by blast
  then show ?thesis unfolding capped_def by blast
qed

definition demo_full :: "event list \<Rightarrow> spool" where
  "demo_full evs = demo_spool [(active_name, []), (''b.jsonl.zst'', ''xyz''), (''a.jsonl.zst'', ''12345'')] 4 evs"

lemma demo_full_simps [simp]:
  "script (demo_full evs) = evs" "handle_open (demo_full evs)" "max_bytes (demo_full evs) = 4"
  "dir (demo_full evs) = [(active_name, []), (''b.jsonl.zst'', ''xyz''), (''a.jsonl.zst'', ''12345'')]"
  by (simp_all add: demo_full_def demo_spool_def)

lemma demo_full_names:
  "seg_names (dir (demo_full evs)) = [''a.jsonl.zst'', ''b.jsonl.zst'']" "good_dir (demo_full evs)"
proof -
  have "sort [''b.jsonl.zst'', ''a.jsonl.zst''] = [''a.jsonl.zst'', ''b.jsonl.zst'']"
    by (rule sort_eqI) (simp_all add: less_eq_list_code less_char_def)
  then show "seg_names (dir (demo_full evs)) = [''a.jsonl.zst'', ''b.jsonl.zst'']"
    by (simp add: seg_names_def is_seg_def seg_suffix_def has_suffix_def active_name_def)
qed (simp add: good_dir_def active_name_def)

theorem enforce_cap_exact_witness:
  "\<exists>t. enforce_cap demo_libs (demo_full []) = (Inr (), t) \<and> seg_sizes t = [(''b.jsonl.zst'', 3)]"
proof -
  have sizes: "seg_sizes (demo_full []) = [(''a.jsonl.zst'', 5), (''b.jsonl.zst'', 3)]"
    unfolding seg_sizes_def demo_full_names by (simp add: content_of_def file_of_def active_name_def)
  have "evicted (demo_full []) = [''a.jsonl.zst'']" by (simp add: evicted_def sizes)
  with enforce_cap_exact [OF _ _ demo_can_warn demo_full_names(2)] sizes show ?thesis
    by fastforce
qed

text \<open>
  C10: The cap holds whatever the shipper does. Under every script of failures and of segments
  removed by the concurrent shipper at any moment, whenever \<open>enforceCap\<close> reports success the
  segments then on disk are within the cap.
\<close>

theorem enforce_cap_bound:
  assumes "enforce_cap X s = (Inr (), t)" and "good_dir s" and "0 \<le> max_bytes s"
  shows "seg_total t \<le> max_bytes s"
proof -
  from enforce_cap_Inr [OF assms(1,2)] obtain u where u: "good_dir u" "cap_iter X u = (Inr True, t)"
    by blast
  have "max_bytes t = max_bytes s" by (rule enforce_cap_config [OF assms(1)])
  with cap_iter_done [OF u(2,1)] assms(3) show ?thesis by simp
qed

theorem enforce_cap_bound_witness:
  "\<exists>t. enforce_cap demo_libs (demo_full []) = (Inr (), t) \<and> seg_total t \<le> 4"
proof -
  have "0 \<le> max_bytes (demo_full [])" by simp
  from enforce_cap_quiet [OF _ _ demo_can_warn demo_full_names(2) this]
  obtain t where t: "enforce_cap demo_libs (demo_full []) = (Inr (), t)" by auto
  from enforce_cap_bound [OF t demo_full_names(2)] t show ?thesis by simp
qed

text \<open>
  C26: The cap loop ends. The loop of \<open>enforceCap\<close> has no bound of its own; under every script,
  with segments vanishing and calls failing at will, it ends within one iteration more than
  there are segments.
\<close>

theorem enforce_cap_iterations:
  "cap_loop (Suc (length (seg_files (dir s)))) X s = Some (enforce_cap X s)"
  by (rule cap_loop_enough) simp



text \<open>
  Sealing loses nothing. Under every script, if sealing the active file succeeds, its bytes
  are in a new complete segment (unless the shipper has already taken it) and the active file
  is empty; if it fails at any point, the active file still has them all. No other segment
  changes or appears, and none is gone that the shipper did not remove.
\<close>

theorem seal_no_loss:
  assumes "seal X s = (r, t)"
  shows "(case r of
      Inr _ \<Rightarrow> active_of t = [] \<and> active_size t = 0
        \<and> file_of t (next_seg X s) \<in> {Some (zenc X (active_of s))}
              \<union> (if next_seg X s \<in> shipped s then {None} else {})
    | Inl _ \<Rightarrow> active_of t = active_of s \<and> active_size t = active_size s)
    \<and> (\<forall>n \<in> Collect is_seg - {next_seg X s}.
         file_of t n \<in> {file_of s n} \<union> (if n \<in> shipped s then {None} else {}))"
proof
  show "case r of
      Inr _ \<Rightarrow> active_of t = [] \<and> active_size t = 0
        \<and> file_of t (next_seg X s) \<in> {Some (zenc X (active_of s))}
              \<union> (if next_seg X s \<in> shipped s then {None} else {})
    | Inl _ \<Rightarrow> active_of t = active_of s \<and> active_size t = active_size s"
    using seal_result(2,3) [OF assms] by (cases r) (auto simp: content_of_def)
  show "\<forall>n \<in> Collect is_seg - {next_seg X s}.
         file_of t n \<in> {file_of s n} \<union> (if n \<in> shipped s then {None} else {})"
  proof
    fix n
    assume n: "n \<in> Collect is_seg - {next_seg X s}"
    then have "is_seg n" by simp
    from seal_result(1) [OF assms this] n
    show "file_of t n \<in> {file_of s n} \<union> (if n \<in> shipped s then {None} else {})" by auto
  qed
qed

theorem seal_no_loss_witness:
  "\<exists>t. seal demo_libs (demo_spool [(active_name, ''old'')] 9 []) = (Inr (), t)
     \<and> file_of t ''a.jsonl.zst'' = Some ''old''"
proof -
  let ?s = "demo_spool [(active_name, ''old'')] 9 []"
  from seal_runs [OF demo_ready] obtain t where t: "seal demo_libs ?s = (Inr (), t)" by blast
  have "next_seg demo_libs ?s = ''a.jsonl.zst''" "active_of ?s = ''old''" "shipped ?s = {}"
    by (simp_all add: next_seg_def demo_libs_def demo_spool_def seg_suffix_def content_of_def
        file_of_def shipped_def)
  with seal_no_loss [OF t] t show ?thesis by simp
qed

text \<open>
  The counted size is the real one. \<open>activeSize\<close>, which decides when to rotate, never
  exceeds the size of the active file, whatever fails; and it equals it after every \<open>Write\<close> as
  long as no system call fails, through any rotations, evictions and warnings.
\<close>

theorem active_size_tracks:
  "keeps size_ok (spool_write X e) \<and> keeps size_exact (spool_write X e)"
  using keeps_sized_write by blast

text \<open>
  C25: Recovery. \<open>Open\<close> on a directory that an earlier run left in any state removes exactly the
  half-written temporary segments, keeps every other file (the active one is created if it is
  missing), resumes with the real size of the active file and positive limits.
\<close>

theorem spool_open_recovers:
  assumes "script s = []" and "good_dir s"
  shows "\<exists>t. spool_open opts s = (Inr (), t) \<and> handle_open t
    \<and> (\<forall>n. file_of t n = (if has_suffix n tmp_suffix then None
                          else if n = active_name then Some (active_of s) else file_of s n))
    \<and> active_size t = int (length (active_of s))
    \<and> 0 < rotate_bytes t \<and> 0 < rotate_age t \<and> 0 < max_bytes t"
  using spool_open_quiet [OF assms] by blast

theorem spool_open_recovers_witness:
  "\<exists>t. spool_open \<lparr>opt_RotateBytes = 0, opt_RotateAge = 0, opt_MaxBytes = 0, opt_Site = [], opt_Host = []\<rparr>
       (demo_spool [(active_name, ''old''), (''a.jsonl.zst.tmp'', ''ha'')] 9 []) = (Inr (), t)
     \<and> file_of t ''a.jsonl.zst.tmp'' = None \<and> active_size t = 3"
proof -
  let ?s = "demo_spool [(active_name, ''old''), (''a.jsonl.zst.tmp'', ''ha'')] 9 []"
  have "script ?s = []" "good_dir ?s" "active_of ?s = ''old''"
    by (simp_all add: demo_spool_def good_dir_def content_of_def file_of_def active_name_def)
  moreover have "has_suffix ''a.jsonl.zst.tmp'' tmp_suffix"
    by (simp add: has_suffix_def tmp_suffix_def)
  ultimately show ?thesis using spool_open_recovers [of ?s] by fastforce
qed

text \<open>
  \<open>Close\<close> flushes. With room under the cap, closing an undisturbed spool succeeds, leaves the
  active file empty and every byte the spool held in its segments, in order.
\<close>

theorem spool_close_flushes:
  assumes "ready X s" and "\<And>raw. D (zenc X raw) = raw" and "size_exact s"
    and "seg_total s + int (length (zenc X (active_of s))) \<le> max_bytes s"
  shows "\<exists>t. spool_close X s = (Inr (), t) \<and> queue D t = queue D s \<and> active_of t = [] \<and> \<not> handle_open t"
  using spool_close_ready [OF assms] by blast

theorem spool_close_flushes_witness:
  "\<exists>t. spool_close demo_libs (demo_spool [(active_name, ''old'')] 9 []) = (Inr (), t)
     \<and> queue (\<lambda>z. z) t = ''old'' \<and> active_of t = []"
proof -
  let ?s = "demo_spool [(active_name, ''old'')] 9 []"
  have s: "size_exact ?s" "seg_names (dir ?s) = []" "active_of ?s = ''old''" "max_bytes ?s = 9"
    by (simp_all add: size_exact_def reliable_def demo_spool_def content_of_def file_of_def seg_names_def)
  have "queue (\<lambda>z. z) ?s = ''old''" using s by (simp add: queue_def)
  with spool_close_flushes [OF demo_ready _ s(1), of "\<lambda>z. z"] s show ?thesis
    by (auto simp: seg_total_def)
qed

text \<open>
  C21: A failed rotation is not recovered from. If sealing fails after its first \<open>Sync\<close>
  succeeded (the disk is full when the segment is written, say), the handle of the active file
  stays closed: every later \<open>Write\<close> of the process fails and the active file never changes
  again, however long the sequence of writes and whatever else happens.
\<close>

theorem failed_rotation_wedges:
  assumes "seal X s = (Inl e, t)" and "handle_sync s = (Inr (), s1)"
    and "write_all X es t = (rs, u)"
  shows "length rs = length es \<and> list_all isl rs \<and> active_of u = active_of s"
  using wedged_all [OF seal_failure_wedges [OF assms(1,2)], where X = X and es = es] assms(3)
  by (simp add: wedged_def content_of_def)

theorem failed_rotation_wedges_witness:
  "\<exists>e t rs u. seal demo_libs (demo_spool [(active_name, ''old'')] 9
         [quiet_event, quiet_event, quiet_event, quiet_event\<lparr>ev_fail := Some 0\<rparr>]) = (Inl e, t)
     \<and> script t = []
     \<and> write_all demo_libs [demo_envelope, demo_envelope] t = (rs, u) \<and> list_all isl rs \<and> active_of u = ''old''"
proof -
  let ?s = "demo_spool [(active_name, ''old'')] 9
         [quiet_event, quiet_event, quiet_event, quiet_event\<lparr>ev_fail := Some 0\<rparr>]"
  obtain t s1 where t: "seal demo_libs ?s = (Inl ErrIO, t)" "script t = []"
    and s1: "handle_sync ?s = (Inr (), s1)"
    by (simp add: seal_def prepare_def compress_def bind_act_def sys_defs syscall_def env_step_def
        quiet_event_def demo_spool_def file_of_def act_defs)
  obtain rs u where w: "write_all demo_libs [demo_envelope, demo_envelope] t = (rs, u)" by fastforce
  have "active_of ?s = ''old''" by (simp add: demo_spool_def content_of_def file_of_def)
  with failed_rotation_wedges [OF t(1) s1 w] t w show ?thesis by auto
qed

text \<open>
  C33: One envelope, one line. If times and floats are formatted without control characters, the
  file made of the marshalled envelopes, each with its newline, splits at its newlines into
  exactly these envelopes again: no site, host, label or path in them can break a line.
\<close>

theorem envelopes_are_lines:
  assumes "codec_ok c" and "map_res (marshal_envelope c) es = Inr bs"
  shows "split_on newline (concat (map (\<lambda>b. b @ [newline]) bs)) = bs @ [[]]"
proof -
  have bs: "newline \<notin> set b" if mem: "b \<in> set bs" for b
  proof -
    obtain i where i: "i < length bs" "bs ! i = b" using mem by (auto simp: in_set_conv_nth)
    have "list_all2 (\<lambda>e b. marshal_envelope c e = Inr b) es bs" using assms(2) by (simp add: map_res_Inr_iff)
    then have "marshal_envelope c (es ! i) = Inr b"
      unfolding i(2) [symmetric] by (rule list_all2_nthD2) (rule i(1))
    then show ?thesis using marshal_envelope_printable [OF assms(1)] printable_no_newline by blast
  qed
  have "concat (map (\<lambda>b. b @ [newline]) bs) = join [newline] (bs @ [[]])"
    by (induction bs rule: induct_list012) auto
  then show ?thesis using split_on_join [of "bs @ [[]]" newline] bs by auto
qed

theorem envelopes_are_lines_witness:
  "\<exists>b. marshal_envelope (json_codec demo_libs) demo_envelope = Inr b
     \<and> split_on newline (concat (map (\<lambda>b. b @ [newline]) [b, b])) = [b, b, []]"
proof -
  obtain b where b: "marshal_envelope (json_codec demo_libs) demo_envelope = Inr b"
    by (simp add: marshal_envelope_def demo_envelope_def demo_libs_def del: json_chars.simps)
  then have "map_res (marshal_envelope (json_codec demo_libs)) [demo_envelope, demo_envelope] = Inr [b, b]"
    by simp
  from envelopes_are_lines [OF demo_codec_ok this] b show ?thesis by simp
qed

end
