(* ===== verification/ShipProps.thy ===== *)
theory ShipProps
  imports Ship SpoolProps
begin

text \<open>
  What the shipper guarantees: what it takes to remove a segment, in which order and how often
  segments are sent, how long it waits between attempts, and when \<open>Run\<close> returns.
\<close>

section \<open>One segment\<close>

definition final :: "reply \<Rightarrow> bool" where
  "final r \<longleftrightarrow> (case r of NetError \<Rightarrow> False | Status c \<Rightarrow> c div 100 = 2 \<or> c div 100 = 4)"

definition posted :: "string \<Rightarrow> string \<Rightarrow> reply \<Rightarrow> shipper \<Rightarrow> shipper" where
  "posted path c r s = s\<lparr>replies := tl (replies s), requests := requests s @ [(batch_id path, c, r)]\<rparr>"

lemma shipper_upd_simps [simp]:
  "script (posted p c r s) = script s" "patience (posted p c r s) = patience s"
  "file_of (posted p c r s) = file_of s" "dir (posted p c r s) = dir s"
  "url_ok (posted p c r s) = url_ok s" "backoff (posted p c r s) = backoff s"
  "naps (posted p c r s) = naps s" "min_backoff (posted p c r s) = min_backoff s"
  "max_backoff (posted p c r s) = max_backoff s" "replies (posted p c r s) = tl (replies s)"
  "requests (posted p c r s) = requests s @ [(batch_id p, c, r)]"
  by (simp_all add: posted_def file_of_def fun_eq_iff)

lemma shipper_del_simps [simp]:
  "patience (del_file n s) = patience s" "url_ok (del_file n s) = url_ok s"
  "backoff (del_file n s) = backoff s" "naps (del_file n s) = naps s"
  "min_backoff (del_file n s) = min_backoff s" "max_backoff (del_file n s) = max_backoff s"
  "replies (del_file n s) = replies s" "requests (del_file n s) = requests s"
  by (simp_all add: del_file_def)

lemma ship_quiet:
  assumes "script s = []" and "file_of s path = Some c" and "url_ok s" and "replies s = r # rs"
  shows "\<exists>err. ship path s = (if final r then (Inr (False, err), del_file path (posted path c r s))
                             else (Inr (True, Some (case r of NetError \<Rightarrow> ErrNet | Status k \<Rightarrow> ErrStatus k)), posted path c r s))"
proof -
  have do: "http_do (batch_id path) c s = (Inr r, posted path c r s)"
    using assms(4) by (simp add: http_do_def posted_def)
  have rm: "remove_file path (posted path c r s) = (Inr (), del_file path (posted path c r s))"
    using assms quiet_calls(3) [of "posted path c r s" path c] by simp
  show ?thesis
    using quiet_calls(4) [OF assms(1,2)] assms(3) do rm
    by (cases r) (auto simp: ship_def bind_try bind_act_def [of "http_do _ _"] final_def ret_def)
qed

text \<open>The sleeps of \<open>k\<close> consecutive failures, from a back-off \<open>b\<close>.\<close>

fun waits :: "int \<Rightarrow> int \<Rightarrow> nat \<Rightarrow> int list" where
  "waits b hi 0 = []"
| "waits b hi (Suc k) = b # waits (if hi < b * 2 then hi else b * 2) hi k"

lemma waits_nth:
  assumes "0 \<le> b" and "b \<le> hi"
  shows "i < k \<Longrightarrow> waits b hi k ! i = min (b * 2 ^ i) hi"
  using assms
proof (induction b hi k arbitrary: i rule: waits.induct)
  case (2 b hi k)
  show ?case
  proof (cases i)
    case (Suc j)
    let ?b = "if hi < b * 2 then hi else b * 2"
    have "waits ?b hi k ! j = min (?b * 2 ^ j) hi"
      by (rule "2.IH") (use 2 Suc in auto)
    moreover have "min (hi * 2 ^ j) hi = min (b * 2 ^ Suc j) hi" if "hi < b * 2"
    proof -
      have h: "hi * 1 \<le> hi * 2 ^ j" using 2 by (intro mult_left_mono) auto
      also have "hi * 2 ^ j \<le> b * 2 * 2 ^ j" using that by (intro mult_right_mono) auto
      finally have "hi \<le> b * 2 ^ Suc j" by (simp add: mult.assoc)
      then show ?thesis using h by (simp add: min_absorb2)
    qed
    ultimately show ?thesis using Suc by (auto simp: mult.assoc)
  qed (use 2 in simp)
qed simp

definition settled :: "string \<Rightarrow> string \<Rightarrow> reply list \<Rightarrow> shipper \<Rightarrow> shipper \<Rightarrow> bool" where
  "settled path c rs s t \<longleftrightarrow> dir t = AList.delete path (dir s) \<and> replies s = rs @ replies t
     \<and> requests t = requests s @ map (\<lambda>r. (batch_id path, c, r)) rs
     \<and> patience t = patience s - (length rs - 1)
     \<and> naps t = naps s @ waits (backoff s) (max_backoff s) (length rs - 1)
     \<and> backoff t = min_backoff s \<and> min_backoff t = min_backoff s \<and> max_backoff t = max_backoff s
     \<and> url_ok t = url_ok s \<and> script t = script s"

lemma ship_until_final:
  assumes "script s = []" and "file_of s path = Some c" and "url_ok s"
    and "replies s = fails @ f # rest" and "list_all (\<lambda>r. \<not> final r) fails" and "final f"
    and "length fails \<le> patience s"
  shows "\<exists>t. ship_with_retry path s = (Inr (), t) \<and> settled path c (fails @ [f]) s t"
  using assms
proof (induction fails arbitrary: s)
  case Nil
  then have "replies s = f # rest" by simp
  from ship_quiet [OF Nil(1-3) this] Nil(6) obtain err where
    "ship path s = (Inr (False, err), del_file path (posted path c f s))" by auto
  then have "ship_with_retry path s = (Inr (), reset_backoff (del_file path (posted path c f s)))"
    by (simp add: ship_with_retry.simps [of path s])
  moreover have "settled path c [f] s (reset_backoff (del_file path (posted path c f s)))"
    using Nil(4) by (simp add: settled_def reset_backoff_def)
  ultimately show ?case by auto
next
  case (Cons r fails)
  let ?s1 = "posted path c r s"
  let ?s2 = "double_backoff (?s1\<lparr>patience := patience s - 1, naps := naps s @ [backoff s]\<rparr>)"
  have rs: "replies s = r # fails @ f # rest" using Cons.prems(4) by simp
  from ship_quiet [OF Cons.prems(1-3) rs] Cons.prems(5) obtain e where
    "ship path s = (Inr (True, Some e), ?s1)" by auto
  moreover have "nap ?s1 = (Inr (), ?s1\<lparr>patience := patience s - 1, naps := naps s @ [backoff s]\<rparr>)"
    using Cons.prems(7) by (simp add: nap_def)
  ultimately have step: "ship_with_retry path s = ship_with_retry path ?s2"
    by (simp add: ship_with_retry.simps [of path s])
  have f2: "file_of ?s2 = file_of s" by (rule file_of_same_dir) (simp add: double_backoff_def Let_def)
  have "\<exists>t. ship_with_retry path ?s2 = (Inr (), t) \<and> settled path c (fails @ [f]) ?s2 t"
    by (rule Cons.IH) (use Cons.prems rs f2 in \<open>simp_all add: double_backoff_def Let_def\<close>)
  then obtain t where t: "ship_with_retry path ?s2 = (Inr (), t)" "settled path c (fails @ [f]) ?s2 t"
    by blast
  have "settled path c ((r # fails) @ [f]) s t"
    using t(2) Cons.prems(7) rs
    by (auto simp: settled_def double_backoff_def Let_def)
  with t(1) step show ?case by auto
qed


section \<open>Draining a store\<close>

text \<open>
  What \<open>Run\<close> needs of the callback that lists the segments: undisturbed, it returns the names
  of the segments that exist, each once, and changes nothing.
\<close>

locale segment_lister =
  fixes lst :: "(shipper, string list) act"
  assumes lists: "script s = [] \<Longrightarrow> good_dir s \<Longrightarrow>
      \<exists>ns. lst s = (Inr ns, s) \<and> distinct ns \<and> set ns = {n. is_seg n \<and> file_of s n \<noteq> None}"
begin

text \<open>An empty store ends \<open>Run\<close>.\<close>

lemma run_empty:
  "script s = [] \<Longrightarrow> good_dir s \<Longrightarrow> (\<And>n. is_seg n \<Longrightarrow> file_of s n = None) \<Longrightarrow>
     run_ship (Suc k) lst s = Some (Inr (), s)"
proof -
  assume q: "script s = []" "good_dir s" and none: "\<And>n. is_seg n \<Longrightarrow> file_of s n = None"
  from lists [OF q] obtain ns where ns: "lst s = (Inr ns, s)"
    and "set ns = {n. is_seg n \<and> file_of s n \<noteq> None}" by blast
  then have "set ns = {}" using none by simp
  with ns show ?thesis by simp
qed

end

text \<open>A round is what one segment is answered: failures worth a retry, then a final reply.\<close>

type_synonym round = "reply list \<times> reply"

definition round_ok :: "round \<Rightarrow> bool" where
  "round_ok q \<longleftrightarrow> list_all (\<lambda>r. \<not> final r) (fst q) \<and> final (snd q)"

definition round_replies :: "round \<Rightarrow> reply list" where
  "round_replies q = fst q @ [snd q]"

definition round_requests :: "string \<Rightarrow> string \<Rightarrow> round \<Rightarrow> (string \<times> string \<times> reply) list" where
  "round_requests n c q = map (\<lambda>r. (batch_id n, c, r)) (round_replies q)"

definition total_failures :: "round list \<Rightarrow> nat" where
  "total_failures qs = sum_list (map (\<lambda>q. length (fst q)) qs)"

lemma settled_simps:
  "settled path c rs s t \<Longrightarrow> script t = script s \<and> url_ok t = url_ok s
     \<and> file_of t = (file_of s)(path := None)
     \<and> (good_dir s \<longrightarrow> good_dir t)"
  by (auto simp: settled_def file_of_def delete_conv fun_eq_iff good_dir_def distinct_delete)

lemma ship_rounds:
  assumes "script s = []" and "url_ok s" and "distinct ns" and "\<forall>n \<in> set ns. file_of s n \<noteq> None"
    and "length qs = length ns" and "list_all round_ok qs"
    and "replies s = concat (map round_replies qs) @ rest" and "total_failures qs \<le> patience s"
  shows "\<exists>t. iter_act ship_with_retry ns s = (Inr (), t) \<and> script t = [] \<and> url_ok t
    \<and> (\<forall>n. file_of t n = (if n \<in> set ns then None else file_of s n))
    \<and> (good_dir s \<longrightarrow> good_dir t) \<and> replies t = rest
    \<and> requests t = requests s @ concat (map2 (\<lambda>n q. round_requests n (content_of s n) q) ns qs)"
  using assms
proof (induction ns arbitrary: qs s)
  case Nil
  then show ?case by (auto simp: ret_def)
next
  case (Cons n ns)
  then obtain q qs' where qs: "qs = q # qs'" by (cases qs) auto
  from Cons.prems obtain c where c: "file_of s n = Some c" by auto
  have ok: "round_ok q" "list_all round_ok qs'" using Cons.prems(6) by (simp_all add: qs)
  then have q: "list_all (\<lambda>r. \<not> final r) (fst q)" "final (snd q)" by (simp_all add: round_ok_def)
  have rs: "replies s = fst q @ snd q # (concat (map round_replies qs') @ rest)"
    using Cons.prems(7) by (simp add: qs round_replies_def [of q])
  have pat: "length (fst q) \<le> patience s" "total_failures qs' \<le> patience s - length (fst q)"
    using Cons.prems(8) by (auto simp: qs total_failures_def)
  from ship_until_final [OF Cons.prems(1) c Cons.prems(2) rs q(1,2) pat(1)]
  obtain u where u: "ship_with_retry n s = (Inr (), u)" "settled n c (round_replies q) s u"
    by (auto simp: round_replies_def)
  note su = settled_simps [OF u(2)]
  have ru: "replies u = concat (map round_replies qs') @ rest" "patience u = patience s - length (fst q)"
    "requests u = requests s @ round_requests n c q"
    using u(2) rs by (simp_all add: settled_def round_replies_def round_requests_def)
  have "\<exists>t. iter_act ship_with_retry ns u = (Inr (), t) \<and> script t = [] \<and> url_ok t
    \<and> (\<forall>n. file_of t n = (if n \<in> set ns then None else file_of u n))
    \<and> (good_dir u \<longrightarrow> good_dir t) \<and> replies t = rest
    \<and> requests t = requests u @ concat (map2 (\<lambda>n q. round_requests n (content_of u n) q) ns qs')"
    by (rule Cons.IH) (use Cons.prems su ru pat ok qs in auto)
  then obtain t where t: "iter_act ship_with_retry ns u = (Inr (), t)" "script t = []" "url_ok t"
    "\<forall>n. file_of t n = (if n \<in> set ns then None else file_of u n)" "good_dir u \<longrightarrow> good_dir t"
    "replies t = rest"
    "requests t = requests u @ concat (map2 (\<lambda>n q. round_requests n (content_of u n) q) ns qs')"
    by blast
  have same: "content_of u m = content_of s m" if "m \<in> set ns" for m
    using that Cons.prems(3) su by (auto simp: content_of_def)
  have "map2 (\<lambda>n q. round_requests n (content_of u n) q) ns qs'
      = map2 (\<lambda>n q. round_requests n (content_of s n) q) ns qs'"
    by (rule map_cong) (auto simp: same dest: set_zip_leftD)
  then have "concat (map2 (\<lambda>n q. round_requests n (content_of u n) q) ns qs')
      = concat (map2 (\<lambda>n q. round_requests n (content_of s n) q) ns qs')" by (rule arg_cong)
  moreover have "content_of s n = c" using c by (simp add: content_of_def)
  ultimately have rt: "requests t = requests s
      @ concat (map2 (\<lambda>n q. round_requests n (content_of s n) q) (n # ns) qs)"
    using t(7) ru(3) by (simp add: qs)
  have "iter_act ship_with_retry (n # ns) s = (Inr (), t)"
    using u(1) t(1) by (simp add: bind_act_def)
  moreover have "\<forall>m. file_of t m = (if m \<in> set (n # ns) then None else file_of s m)"
    using t(4) su by simp
  moreover have "good_dir s \<longrightarrow> good_dir t" using su t(5) by blast
  ultimately show ?case using rt t(2,3,6) by blast
qed

text \<open>\<open>Run\<close> over a store that its lister describes.\<close>

context segment_lister
begin

lemma run_drains_store:
  assumes "script s = []" and "good_dir s" and "url_ok s"
    and "lst s = (Inr ns, s)" and "length qs = length ns" and "list_all round_ok qs"
    and "replies s = concat (map round_replies qs) @ rest" and "total_failures qs \<le> patience s"
  shows "\<exists>t. run_ship 2 lst s = Some (Inr (), t)
    \<and> (\<forall>n. file_of t n = (if is_seg n then None else file_of s n))
    \<and> requests t = requests s @ concat (map2 (\<lambda>n q. round_requests n (content_of s n) q) ns qs)"
proof -
  from lists [OF assms(1,2)] assms(4) have ns: "distinct ns" "set ns = {n. is_seg n \<and> file_of s n \<noteq> None}"
    by auto
  then have present: "\<forall>n \<in> set ns. file_of s n \<noteq> None" by simp
  from ship_rounds [OF assms(1,3) ns(1) present assms(5-8)] assms(2) obtain t where
    t: "iter_act ship_with_retry ns s = (Inr (), t)" "script t = []" "good_dir t"
      "\<forall>n. file_of t n = (if n \<in> set ns then None else file_of s n)"
      "requests t = requests s @ concat (map2 (\<lambda>n q. round_requests n (content_of s n) q) ns qs)"
    by auto
  have gone: "\<forall>n. file_of t n = (if is_seg n then None else file_of s n)"
    using t(4) ns(2) by auto
  then have "run_ship 1 lst t = Some (Inr (), t)"
    using run_empty [OF t(2,3), of 0] by simp
  moreover have "run_ship 2 lst s = (if ns = [] then Some (Inr (), s) else run_ship 1 lst t)"
    using assms(4) t(1) by (simp add: numeral_2_eq_2)
  moreover have "ns = [] \<Longrightarrow> t = s" using t(1) by (simp add: ret_def)
  ultimately have "run_ship 2 lst s = Some (Inr (), t)" by (cases "ns = []") simp_all
  with gone t(5) show ?thesis by blast
qed

end

text \<open>The spool's own listing is such a lister.\<close>

interpretation spool_lister: segment_lister segments
proof
  fix s :: shipper
  assume "script s = []" "good_dir s"
  then show "\<exists>ns. segments s = (Inr ns, s) \<and> distinct ns \<and> set ns = {n. is_seg n \<and> file_of s n \<noteq> None}"
    using quiet_calls(1) [of s] distinct_seg_names [of s] set_seg_names_file [of s] by auto
qed


section \<open>Only answered segments are removed\<close>

text \<open>
  From \<open>s\<close> to \<open>t\<close> every segment that is gone was removed by others or has, among the requests
  made, one with its batch id and its content that was answered for good.
\<close>

definition delivered :: "shipper \<Rightarrow> shipper \<Rightarrow> bool" where
  "delivered s t \<longleftrightarrow> shipped t \<subseteq> shipped s \<and> minted t = minted s \<and> set (requests s) \<subseteq> set (requests t)
     \<and> (\<forall>n. file_of t n = file_of s n \<or> file_of t n = None \<and> is_seg n
            \<and> (n \<in> shipped s \<or> (\<exists>c r. file_of s n = Some c \<and> (batch_id n, c, r) \<in> set (requests t) \<and> final r)))"

lemma delivered_refl: "delivered s s"
  by (simp add: delivered_def)

lemma delivered_trans:
  assumes "delivered s t" and "delivered t u"
  shows "delivered s u"
  unfolding delivered_def
proof (intro conjI allI)
  show "shipped u \<subseteq> shipped s" "minted u = minted s" "set (requests s) \<subseteq> set (requests u)"
    using assms by (auto simp: delivered_def)
  fix n
  from assms show "file_of u n = file_of s n \<or> file_of u n = None \<and> is_seg n
      \<and> (n \<in> shipped s \<or> (\<exists>c r. file_of s n = Some c \<and> (batch_id n, c, r) \<in> set (requests u) \<and> final r))"
    unfolding delivered_def by (metis subsetD)
qed

lemma delivered_env: "delivered s (snd (env_step s))"
proof -
  have "env_gone s \<subseteq> shipped s" "shipped (snd (env_step s)) \<subseteq> shipped s" by (rule env_gone_shipped)+
  moreover have "requests (snd (env_step s)) = requests s"
    by (simp add: env_step_def split: list.split)
  ultimately show ?thesis unfolding delivered_def file_of_env by auto
qed

lemma delivered_same: "shipped t = shipped s \<Longrightarrow> minted t = minted s \<Longrightarrow> set (requests s) \<subseteq> set (requests t) \<Longrightarrow> file_of t = file_of s \<Longrightarrow> delivered s t"
  by (simp add: delivered_def)

lemma delivered_ship:
  assumes "is_seg path"
  shows "delivered s (snd (ship path s))"
proof -
  obtain r s1 where rd: "read_file path s = (r, s1)" by fastforce
  have s1: "s1 = snd (env_step s)"
    using rd by (auto simp: read_file_def syscall_def fail_def ret_def split: prod.splits option.splits)
  have d1: "delivered s s1" unfolding s1 by (rule delivered_env)
  show ?thesis
  proof (cases r)
    case (Inl e)
    then show ?thesis using rd d1 by (simp add: ship_def bind_try ret_def)
  next
    case (Inr raw)
    have raw: "file_of s1 path = Some raw"
      using rd Inr s1 by (auto simp: read_file_def syscall_Inr split: option.splits)
    show ?thesis
    proof (cases "url_ok s1")
      case False
      then show ?thesis using rd Inr d1 by (simp add: ship_def bind_try ret_def)
    next
      case True
      obtain resp s2 where post: "http_do (batch_id path) raw s1 = (Inr resp, s2)"
        by (cases "replies s1") (auto simp: http_do_def)
      have s2: "requests s2 = requests s1 @ [(batch_id path, raw, resp)]" "file_of s2 = file_of s1"
          "shipped s2 = shipped s1" "minted s2 = minted s1"
        using post by (auto simp: http_do_def file_of_def shipped_def fun_eq_iff split: list.splits)
      then have d2: "delivered s s2"
        by (intro delivered_trans [OF d1] delivered_same) auto
      have rm: "delivered s (snd (remove_file path s2))" if "final resp"
      proof -
        let ?u = "snd (env_step s2)"
        have du: "delivered s2 ?u" by (rule delivered_env)
        have "requests ?u = requests s2" by (simp add: env_step_def split: list.split)
        then have "delivered s2 (del_file path ?u)"
          using du assms that s2(1,2) raw
          by (auto simp: delivered_def)
        then have "delivered s2 (snd (remove_file path s2))"
          using du by (auto simp: remove_file_def syscall_def case_prod_beta fail_def split: option.split)
        then show ?thesis by (rule delivered_trans [OF d2])
      qed
      have ship: "snd (ship path s) \<in> {s2} \<union> (if final resp then {snd (remove_file path s2)} else {})"
        using rd Inr True post
        by (cases resp) (auto simp: ship_def bind_try bind_act_def [of "http_do _ _"] final_def ret_def
            case_prod_beta split: sum.split)
      then show ?thesis using d2 rm by (auto split: if_splits)
    qed
  qed
qed

lemma delivered_retry:
  assumes "is_seg path"
  shows "delivered s (snd (ship_with_retry path s))"
  using assms
proof (induction path s rule: ship_with_retry.induct)
  case (1 path s)
  obtain res s1 where sh: "ship path s = (res, s1)" by fastforce
  have d1: "delivered s s1" using delivered_ship [OF 1(2), of s] sh by simp
  have reset: "delivered s (reset_backoff s1)"
    by (rule delivered_trans [OF d1], rule delivered_same) (auto simp: reset_backoff_def shipped_def file_of_def)
  obtain z s2 where np: "nap s1 = (z, s2)" by fastforce
  have d2: "delivered s s2"
    by (rule delivered_trans [OF d1], rule delivered_same)
      (use np in \<open>auto simp: nap_def shipped_def file_of_def split: if_splits\<close>)
  then have d3: "delivered s (double_backoff s2)"
    by (rule delivered_trans, intro delivered_same) (auto simp: double_backoff_def Let_def shipped_def file_of_def)
  show ?case
  proof (cases res)
    case (Inl e)
    then show ?thesis using sh d1 by (simp add: ship_with_retry.simps [of path s])
  next
    case (Inr q)
    obtain retry err where q: "q = (retry, err)" by fastforce
    show ?thesis
    proof (cases "err = None \<or> \<not> retry")
      case True
      then show ?thesis using sh Inr q reset by (simp add: ship_with_retry.simps [of path s])
    next
      case False
      show ?thesis
      proof (cases z)
        case (Inl e)
        then show ?thesis using sh q False np d2 \<open>res = Inr q\<close>
          by (auto simp: ship_with_retry.simps [of path s])
      next
        case (Inr w)
        have "delivered (double_backoff s2) (snd (ship_with_retry path (double_backoff s2)))"
          using 1(1) [OF sh [symmetric] _ _ _ np [symmetric] Inr] \<open>res = Inr q\<close> q False 1(2) by blast
        from delivered_trans [OF d3 this] show ?thesis using sh \<open>res = Inr q\<close> q False np Inr
          by (auto simp: ship_with_retry.simps [of path s])
      qed
    qed
  qed
qed

lemma delivered_iter:
  "\<forall>n \<in> set ns. is_seg n \<Longrightarrow> delivered s (snd (iter_act ship_with_retry ns s))"
proof (induction ns arbitrary: s)
  case (Cons n ns)
  obtain r s1 where r: "ship_with_retry n s = (r, s1)" by fastforce
  have d: "delivered s s1" using delivered_retry [of n s] Cons.prems r by simp
  show ?case
  proof (cases r)
    case (Inr u)
    with Cons.IH [of s1] Cons.prems r delivered_trans [OF d] show ?thesis
      by (simp add: bind_act_def)
  qed (use r d in \<open>simp add: bind_act_def\<close>)
qed (simp add: ret_def delivered_refl)

lemma delivered_run: "run_ship k segments s = Some (r, t) \<Longrightarrow> delivered s t"
proof (induction k arbitrary: s)
  case (Suc k)
  obtain q s1 where ls: "segments s = (q, s1)" by fastforce
  then have "s1 = snd (env_step s)"
    by (auto simp: segments_def syscall_def ret_def split: prod.splits option.splits)
  then have d1: "delivered s s1" using delivered_env by simp
  show ?case
  proof (cases q)
    case (Inl e)
    then show ?thesis using Suc.prems ls d1 by simp
  next
    case (Inr ns)
    then have seg: "\<forall>n \<in> set ns. is_seg n" using segments_Inr ls set_seg_names by fastforce
    obtain z s2 where z: "iter_act ship_with_retry ns s1 = (z, s2)" by fastforce
    have d2: "delivered s s2" using delivered_trans [OF d1] delivered_iter [OF seg, of s1] z by simp
    show ?thesis
      using Suc.prems Suc.IH [of s2] ls Inr z d1 d2 delivered_trans [OF d2]
      by (auto split: if_splits sum.splits)
  qed
qed simp

section \<open>A URL the client does not accept\<close>

lemma bad_url_retry:
  assumes "script s = []" and "\<not> url_ok s"
  shows "ship_with_retry n s = (Inr (), reset_backoff s)"
proof -
  have "\<exists>e. ship n s = (Inr (False, Some e), s)"
    using assms by (auto simp: ship_def bind_try read_file_def ret_def fail_def split: option.split)
  then show ?thesis by (auto simp: ship_with_retry.simps [of n s])
qed

lemma reset_backoff_simps [simp]:
  "script (reset_backoff s) = script s" "url_ok (reset_backoff s) = url_ok s"
  "dir (reset_backoff s) = dir s"
  by (simp_all add: reset_backoff_def)

lemma bad_url_iter:
  "script s = [] \<Longrightarrow> \<not> url_ok s \<Longrightarrow>
     \<exists>t. iter_act ship_with_retry ns s = (Inr (), t) \<and> script t = [] \<and> \<not> url_ok t \<and> dir t = dir s"
proof (induction ns arbitrary: s)
  case (Cons n ns)
  have "\<exists>t. iter_act ship_with_retry ns (reset_backoff s) = (Inr (), t) \<and> script t = [] \<and> \<not> url_ok t
      \<and> dir t = dir (reset_backoff s)"
    by (rule Cons.IH) (use Cons.prems in simp_all)
  then show ?case using bad_url_retry [OF Cons.prems] by (simp add: bind_act_def)
qed (simp add: ret_def)

lemma bad_url_run:
  "script s = [] \<Longrightarrow> \<not> url_ok s \<Longrightarrow> seg_names (dir s) \<noteq> [] \<Longrightarrow> run_ship k segments s = None"
proof (induction k arbitrary: s)
  case (Suc k)
  from bad_url_iter [OF Suc.prems(1,2)] obtain t where
    "iter_act ship_with_retry (seg_names (dir s)) s = (Inr (), t)"
    "script t = []" "\<not> url_ok t" "dir t = dir s" by blast
  with Suc quiet_calls(1) [OF Suc.prems(1)] show ?case by simp
qed simp

section \<open>Properties\<close>

definition demo_shipper :: "bool \<Rightarrow> reply list \<Rightarrow> nat \<Rightarrow> shipper" where
  "demo_shipper good rs p =
     \<lparr>dir = [(active_name, []), (''b.jsonl.zst'', ''xyz''), (''a.jsonl.zst'', ''12345'')],
      handle_open = True, mtime = 0, clock = 0, minted = 0, script = [],
      url_ok = good, min_backoff = 1, max_backoff = 5, backoff = 1, replies = rs, patience = p,
      requests = [], naps = []\<rparr>"

lemma demo_shipper_simps [simp]:
  "script (demo_shipper good rs p) = []" "url_ok (demo_shipper good rs p) = good"
  "replies (demo_shipper good rs p) = rs" "patience (demo_shipper good rs p) = p"
  "requests (demo_shipper good rs p) = []" "naps (demo_shipper good rs p) = []"
  "backoff (demo_shipper good rs p) = 1" "max_backoff (demo_shipper good rs p) = 5"
  "min_backoff (demo_shipper good rs p) = 1"
  "seg_names (dir (demo_shipper good rs p)) = [''a.jsonl.zst'', ''b.jsonl.zst'']"
  "good_dir (demo_shipper good rs p)"
  "file_of (demo_shipper good rs p) ''a.jsonl.zst'' = Some ''12345''"
  "file_of (demo_shipper good rs p) ''b.jsonl.zst'' = Some ''xyz''"
proof -
  have d: "dir (demo_shipper good rs p) = dir (demo_full [])"
    by (simp add: demo_shipper_def)
  show "seg_names (dir (demo_shipper good rs p)) = [''a.jsonl.zst'', ''b.jsonl.zst'']"
    unfolding d by (rule demo_full_names(1))
  show "good_dir (demo_shipper good rs p)"
    using demo_full_names(2) [of "[]"] unfolding good_dir_def d .
qed (simp_all add: demo_shipper_def file_of_def active_name_def)

text \<open>
  Nothing is removed without an answer. Under every script of failures and of segments
  that others remove, and for every sequence of replies and cancellations, a file that is gone
  when \<open>Run\<close> returns is a segment, and unless others removed it the shipper had POSTed exactly
  its content under its batch id and got a 2xx or 4xx reply to that. No file is changed.
\<close>

theorem run_removes_only_answered:
  assumes "run_ship k segments s = Some (r, t)" and "file_of t n \<noteq> file_of s n"
  shows "is_seg n \<and> file_of t n = None
    \<and> (n \<in> shipped s \<or> (\<exists>c reply. file_of s n = Some c
          \<and> (batch_id n, c, reply) \<in> set (requests t) \<and> final reply))"
  using delivered_run [OF assms(1)] assms(2) unfolding delivered_def by blast

theorem run_removes_only_answered_witness:
  "\<exists>t. run_ship 2 segments (demo_shipper True [Status 503, Status 200, Status 422] 9) = Some (Inr (), t)
     \<and> (\<exists>reply. (batch_id ''b.jsonl.zst'', ''xyz'', reply) \<in> set (requests t) \<and> final reply)"
proof -
  let ?s = "demo_shipper True [Status 503, Status 200, Status 422] 9"
  have "\<exists>t. run_ship 2 segments ?s = Some (Inr (), t)
    \<and> (\<forall>n. file_of t n = (if is_seg n then None else file_of ?s n))
    \<and> requests t = requests ?s @ concat (map2 (\<lambda>n q. round_requests n (content_of ?s n) q)
          [''a.jsonl.zst'', ''b.jsonl.zst''] [([Status 503], Status 200), ([], Status 422)])"
    by (rule spool_lister.run_drains_store [where rest = "[]"])
      (simp_all add: quiet_calls(1) round_ok_def final_def round_replies_def total_failures_def)
  then obtain t where t: "run_ship 2 segments ?s = Some (Inr (), t)"
    "\<forall>n. file_of t n = (if is_seg n then None else file_of ?s n)" by blast
  have "is_seg ''b.jsonl.zst''" by (simp add: is_seg_def seg_suffix_def has_suffix_def)
  then have "file_of t ''b.jsonl.zst'' \<noteq> file_of ?s ''b.jsonl.zst''" using t(2) by simp
  from run_removes_only_answered [OF t(1) this] t(1) show ?thesis by (simp add: shipped_def)
qed

text \<open>
  C11: \<open>Run\<close> drains the store. Take an undisturbed directory, an endpoint that answers each
  segment with any number of network errors and other retryable replies and then a 2xx or 4xx, and a context that is
  not cancelled before all that. Then \<open>Run\<close> returns without error at its second listing, no
  segment is left, every other file is untouched, and the requests made are exactly these: the
  segments oldest first, each with its batch id and content, once per reply of its round.
\<close>

theorem run_drains:
  assumes "script s = []" and "good_dir s" and "url_ok s"
    and "length qs = length (seg_names (dir s))" and "list_all round_ok qs"
    and "replies s = concat (map round_replies qs) @ rest" and "total_failures qs \<le> patience s"
  shows "\<exists>t. run_ship 2 segments s = Some (Inr (), t)
    \<and> (\<forall>n. file_of t n = (if is_seg n then None else file_of s n))
    \<and> requests t = requests s
        @ concat (map2 (\<lambda>n q. round_requests n (content_of s n) q) (seg_names (dir s)) qs)"
  using spool_lister.run_drains_store [OF assms(1-3) quiet_calls(1) [OF assms(1)] assms(4-7)] .

theorem run_drains_witness:
  "\<exists>t. run_ship 2 segments (demo_shipper True [Status 503, Status 200, Status 422] 9) = Some (Inr (), t)
     \<and> requests t = [(''a'', ''12345'', Status 503), (''a'', ''12345'', Status 200), (''b'', ''xyz'', Status 422)]"
proof -
  let ?s = "demo_shipper True [Status 503, Status 200, Status 422] 9"
  have c: "content_of ?s ''a.jsonl.zst'' = ''12345''" "content_of ?s ''b.jsonl.zst'' = ''xyz''"
    by (simp_all add: content_of_def)
  have b: "batch_id ''a.jsonl.zst'' = ''a''" "batch_id ''b.jsonl.zst'' = ''b''"
    by (simp_all add: batch_id_def seg_suffix_def cut_eval)
  have "\<exists>t. run_ship 2 segments ?s = Some (Inr (), t)
    \<and> (\<forall>n. file_of t n = (if is_seg n then None else file_of ?s n))
    \<and> requests t = requests ?s @ concat (map2 (\<lambda>n q. round_requests n (content_of ?s n) q)
          (seg_names (dir ?s)) [([Status 503], Status 200), ([], Status 422)])"
    by (rule run_drains [where rest = "[]"])
      (simp_all add: round_ok_def final_def round_replies_def total_failures_def)
  then show ?thesis by (auto simp: round_requests_def round_replies_def b c)
qed



text \<open>
  C23: An error before the request spins. If the client does not accept the configured URL, \<open>ship\<close>
  reports a permanent failure but removes nothing, so that \<open>Run\<close> lists the same segments again:
  with any segment on disk it does not return after any number of listings, and since it never
  sleeps a cancelled context does not end it either.
\<close>

theorem bad_url_spins:
  assumes "script s = []" and "\<not> url_ok s" and "seg_names (dir s) \<noteq> []"
  shows "run_ship k segments s = None"
  using assms by (rule bad_url_run)

theorem bad_url_spins_witness:
  "run_ship 7 segments (demo_shipper False [] 0) = None"
  by (rule bad_url_spins) simp_all

text \<open>
  Batch ids identify segments: two different segments never share an \<open>X-Batch-Id\<close>, and a
  retried segment keeps its own.
\<close>

theorem batch_id_inject:
  assumes "is_seg a" and "is_seg b" and "batch_id a = batch_id b"
  shows "a = b"
proof -
  from assms(1,2) obtain u v where "a = u @ seg_suffix" "b = v @ seg_suffix"
    unfolding is_seg_def by (blast dest: has_suffixD)
  with assms(3) show ?thesis by (simp add: batch_id_def)
qed

theorem batch_id_inject_witness:
  "batch_id ''a.jsonl.zst'' \<noteq> batch_id ''b.jsonl.zst''"
  using batch_id_inject [of "''a.jsonl.zst''" "''b.jsonl.zst''"]
  by (auto simp: is_seg_def seg_suffix_def has_suffix_def)

end
