(* ===== verification/Agent.thy ===== *)
theory Agent
  imports Sources ShipProps
begin

text \<open>
  \<open>internal/agent/agent.go\<close>: the agent as the interleaving of its goroutines. One component per
  source walks through the phases of \<open>runSourceAndClose\<close>; one component is the shipper's loop; the
  main goroutine waits for both, closes the spool and drains it once more. They share the spool
  and the mutex around \<open>Write\<close>. A step of the relation is one communication of a goroutine, so a
  property of all reachable states is one of every schedule. Which case a \<open>select\<close> takes when
  several are ready is left open, as in Go, and so is when a ticker fires.
\<close>

section \<open>States\<close>

text \<open>
  Where the goroutine of a source is: at a \<open>select\<close> (\<open>Idle\<close>), in a tick with envelopes still to
  write, holding the mutex before or after \<open>Write\<close>, past the loop with \<open>close\<close> still to call, or
  done.
\<close>

datatype phase =
    Idle
  | Emitting "envelope list"
  | Locked envelope "envelope list"
  | Written "envelope list"
  | Stopping
  | Stopped

datatype ship_phase = NoShipper | ShipIdle | Draining | ShipStopped

datatype main_phase =
    Waiting
  | Flushed
  | Returned "err option"

text \<open>What the goroutines do to the outside, in order: the history of a run.\<close>

datatype obs =
    Collected nat "envelope list"
  | Wrote nat envelope
  | ClosedSrc nat
  | SpoolClosed
  | Drained

record 'h agent =
  a_host :: 'h
  a_spool :: spool
  a_phases :: "phase list"
  a_mutex :: "nat option"
  a_cancelled :: bool
  a_ship :: ship_phase
  a_main :: main_phase
  a_trace :: "obs list"

section \<open>Starting\<close>

record 'w run_config =
  rc_Site :: string
  rc_Host :: string
  rc_Interval :: int
  rc_Collectors :: collectors_config
  rc_K8s :: bool
  rc_Spool :: "spool option"
  rc_Shipper :: bool
  rc_ShutdownTimeout :: int
  rc_Libs :: "'w collector_libs"

definition default_shutdown_timeout :: int where
  "default_shutdown_timeout = 15 * 1000000000"

definition shutdown_timeout :: "'w run_config \<Rightarrow> int" where
  "shutdown_timeout cfg = or_default (rc_ShutdownTimeout cfg) default_shutdown_timeout"

text \<open>
  A product of two \<open>time.Duration\<close>s is one of 64-bit integers. \<open>jitter_range\<close> is the bound that
  \<open>realJitter\<close> passes to \<open>rand.Int64N\<close>, which panics unless it is positive.
\<close>

definition go_int64 :: "int \<Rightarrow> int" where
  "go_int64 x = sint (word_of_int x :: 64 word)"

definition tick_interval :: "'w run_config \<Rightarrow> 's source \<Rightarrow> int" where
  "tick_interval cfg src = go_int64 (rc_Interval cfg * int (src_tier src))"

definition jitter_range :: "int \<Rightarrow> int" where
  "jitter_range d = go_int64 (d + 1)"

definition agent_init :: "'h \<Rightarrow> spool \<Rightarrow> nat \<Rightarrow> bool \<Rightarrow> 'h agent" where
  "agent_init h sp n shipping =
     \<lparr>a_host = h, a_spool = sp, a_phases = replicate n Idle, a_mutex = None, a_cancelled = False,
      a_ship = (if shipping then ShipIdle else NoShipper), a_main = Waiting, a_trace = []\<rparr>"

text \<open>\<open>Run\<close> up to the start of the goroutines.\<close>

definition run_start ::
  "'w run_config \<Rightarrow> 'w host \<Rightarrow> (err + 'w host source list \<times> 'w host agent) \<times> 'w host" where
  "run_start cfg h =
     (if rc_Interval cfg \<le> 0 then (Inl (ErrInvalid ''Interval''), h)
      else case rc_Spool cfg of
        None \<Rightarrow> (Inl (ErrInvalid ''Spool''), h)
      | Some sp \<Rightarrow>
          (case build_sources (rc_Libs cfg) (rc_Collectors cfg) (rc_Site cfg) (rc_Host cfg) (rc_K8s cfg) h of
             (Inl e, h') \<Rightarrow> (Inl e, h')
           | (Inr srcs, h') \<Rightarrow> (Inr (srcs, agent_init h' sp (length srcs) (rc_Shipper cfg)), h')))"

section \<open>Steps\<close>

text \<open>The directory, clock and script of the spool, taken from what the final drain left.\<close>

definition with_world :: "'z world_scheme \<Rightarrow> spool \<Rightarrow> spool" where
  "with_world w sp = sp\<lparr>dir := dir w, handle_open := handle_open w, mtime := mtime w,
     clock := clock w, minted := minted w, script := script w\<rparr>"

definition same_world :: "'z world_scheme \<Rightarrow> spool \<Rightarrow> bool" where
  "same_world w sp \<longleftrightarrow> with_world w sp = sp\<lparr>script := script w\<rparr>"

text \<open>Segments disappear during a \<open>Write\<close> only while the shipper is draining.\<close>

definition script_allowed :: "ship_phase \<Rightarrow> event list \<Rightarrow> bool" where
  "script_allowed sh evs \<longleftrightarrow> sh = Draining \<or> list_all (\<lambda>ev. ev_shipped ev = []) evs"

definition workers_done :: "'h agent \<Rightarrow> bool" where
  "workers_done a \<longleftrightarrow> list_all (\<lambda>p. p = Stopped) (a_phases a) \<and> a_ship a \<in> {NoShipper, ShipStopped}"

inductive agent_step :: "libs \<Rightarrow> 'h source list \<Rightarrow> 'h agent \<Rightarrow> 'h agent \<Rightarrow> bool"
  for X :: libs and srcs :: "'h source list" where
  tick: "i < length srcs \<Longrightarrow> i < length (a_phases a) \<Longrightarrow> a_phases a ! i = Idle
    \<Longrightarrow> src_collect (srcs ! i) (a_host a) = (Inr envs, h)
    \<Longrightarrow> agent_step X srcs a (a\<lparr>a_host := h, a_phases := (a_phases a)[i := Emitting envs],
          a_trace := a_trace a @ [Collected i envs]\<rparr>)"
| tick_error: "i < length srcs \<Longrightarrow> i < length (a_phases a) \<Longrightarrow> a_phases a ! i = Idle
    \<Longrightarrow> src_collect (srcs ! i) (a_host a) = (Inl e, h)
    \<Longrightarrow> agent_step X srcs a (a\<lparr>a_host := h\<rparr>)"
| lock: "i < length (a_phases a) \<Longrightarrow> a_phases a ! i = Emitting (e # es) \<Longrightarrow> a_mutex a = None
    \<Longrightarrow> agent_step X srcs a (a\<lparr>a_phases := (a_phases a)[i := Locked e es], a_mutex := Some i\<rparr>)"
| wrote: "i < length (a_phases a) \<Longrightarrow> a_phases a ! i = Locked e es \<Longrightarrow> script_allowed (a_ship a) evs
    \<Longrightarrow> spool_write X e ((a_spool a)\<lparr>script := evs\<rparr>) = (r, sp)
    \<Longrightarrow> agent_step X srcs a (a\<lparr>a_spool := sp, a_phases := (a_phases a)[i := Written es],
          a_trace := a_trace a @ [Wrote i e]\<rparr>)"
| unlock: "i < length (a_phases a) \<Longrightarrow> a_phases a ! i = Written es
    \<Longrightarrow> agent_step X srcs a (a\<lparr>a_phases := (a_phases a)[i := Emitting es], a_mutex := None\<rparr>)"
| tick_done: "i < length (a_phases a) \<Longrightarrow> a_phases a ! i = Emitting []
    \<Longrightarrow> agent_step X srcs a (a\<lparr>a_phases := (a_phases a)[i := Idle]\<rparr>)"
| stop: "i < length (a_phases a) \<Longrightarrow> a_phases a ! i = Idle \<Longrightarrow> a_cancelled a
    \<Longrightarrow> agent_step X srcs a (a\<lparr>a_phases := (a_phases a)[i := Stopping]\<rparr>)"
| no_close: "i < length srcs \<Longrightarrow> i < length (a_phases a) \<Longrightarrow> a_phases a ! i = Stopping
    \<Longrightarrow> src_close (srcs ! i) = None
    \<Longrightarrow> agent_step X srcs a (a\<lparr>a_phases := (a_phases a)[i := Stopped]\<rparr>)"
| close: "i < length srcs \<Longrightarrow> i < length (a_phases a) \<Longrightarrow> a_phases a ! i = Stopping
    \<Longrightarrow> src_close (srcs ! i) = Some c \<Longrightarrow> c (a_host a) = (r, h)
    \<Longrightarrow> agent_step X srcs a (a\<lparr>a_host := h, a_phases := (a_phases a)[i := Stopped],
          a_trace := a_trace a @ [ClosedSrc i]\<rparr>)"
| cancel: "agent_step X srcs a (a\<lparr>a_cancelled := True\<rparr>)"
| elapse: "agent_step X srcs a (a\<lparr>a_host := h, a_spool := (a_spool a)\<lparr>clock := clock (a_spool a) + int d\<rparr>\<rparr>)"
| ship_tick: "a_ship a = ShipIdle \<Longrightarrow> agent_step X srcs a (a\<lparr>a_ship := Draining\<rparr>)"
| ship_remove: "a_ship a = Draining \<Longrightarrow> is_seg n
    \<Longrightarrow> agent_step X srcs a (a\<lparr>a_spool := del_file n (a_spool a)\<rparr>)"
| ship_done: "a_ship a = Draining \<Longrightarrow> agent_step X srcs a (a\<lparr>a_ship := ShipIdle\<rparr>)"
| ship_stop: "a_ship a = ShipIdle \<Longrightarrow> a_cancelled a
    \<Longrightarrow> agent_step X srcs a (a\<lparr>a_ship := ShipStopped\<rparr>)"
| flush: "a_main a = Waiting \<Longrightarrow> workers_done a \<Longrightarrow> script_allowed (a_ship a) evs
    \<Longrightarrow> spool_close X ((a_spool a)\<lparr>script := evs\<rparr>) = (r, sp)
    \<Longrightarrow> agent_step X srcs a (a\<lparr>a_spool := sp,
          a_main := (case r of Inl e \<Rightarrow> Returned (Some e)
                     | Inr _ \<Rightarrow> if a_ship a = NoShipper then Returned None else Flushed),
          a_trace := a_trace a @ [SpoolClosed]\<rparr>)"
| drain: "a_main a = Flushed \<Longrightarrow> same_world sh (a_spool a)
    \<Longrightarrow> script_allowed ShipStopped (script sh)
    \<Longrightarrow> run_ship k segments sh = Some (r, sh')
    \<Longrightarrow> agent_step X srcs a (a\<lparr>a_spool := with_world sh' (a_spool a),
          a_main := Returned (case r of Inl e \<Rightarrow> Some e | Inr _ \<Rightarrow> None),
          a_trace := a_trace a @ [Drained]\<rparr>)"

inductive agent_reaches :: "libs \<Rightarrow> 'h source list \<Rightarrow> 'h agent \<Rightarrow> 'h agent \<Rightarrow> bool"
  for X :: libs and srcs :: "'h source list" and a :: "'h agent" where
  here: "agent_reaches X srcs a a"
| more: "agent_reaches X srcs a b \<Longrightarrow> agent_step X srcs b c \<Longrightarrow> agent_reaches X srcs a c"

text \<open>An invariant of the steps holds along every run.\<close>

lemma reaches_inv:
  assumes "agent_reaches X srcs a b" and "P a"
    and "\<And>c d. agent_step X srcs c d \<Longrightarrow> P c \<Longrightarrow> P d"
  shows "P b"
  using assms(1) by induction (auto intro: assms(2,3))

lemma reaches_trans:
  assumes "agent_reaches X srcs b c" and "agent_reaches X srcs a b"
  shows "agent_reaches X srcs a c"
  using assms(1) by induction (auto intro: assms(2) agent_reaches.more)

section \<open>Mutual exclusion\<close>

definition holds_mutex :: "phase \<Rightarrow> bool" where
  "holds_mutex p \<longleftrightarrow> (case p of Locked e es \<Rightarrow> True | Written es \<Rightarrow> True | _ \<Rightarrow> False)"

lemma holds_mutex_simps [simp]:
  "\<not> holds_mutex Idle" "\<not> holds_mutex (Emitting es)" "holds_mutex (Locked e es)"
  "holds_mutex (Written es)" "\<not> holds_mutex Stopping" "\<not> holds_mutex Stopped"
  by (simp_all add: holds_mutex_def)

definition exclusive :: "'h agent \<Rightarrow> bool" where
  "exclusive a \<longleftrightarrow> (\<forall>i < length (a_phases a). holds_mutex (a_phases a ! i) \<longleftrightarrow> a_mutex a = Some i)
     \<and> (\<forall>i. a_mutex a = Some i \<longrightarrow> i < length (a_phases a))"

lemma exclusive_step: "agent_step X srcs a b \<Longrightarrow> exclusive a \<Longrightarrow> exclusive b"
  by (induction rule: agent_step.induct)
    (auto simp: exclusive_def nth_list_update split: if_splits)

lemma exclusive_init: "exclusive (agent_init h sp n shipping)"
  by (simp add: exclusive_def agent_init_def)

end
