(* ===== verification/AgentProps.thy ===== *)
theory AgentProps
  imports Agent SpoolProps
begin

text \<open>
  What holds of every run of the agent, under every schedule, every failure of the spool's system
  calls and every behaviour of the collectors: invariants of the step relation, by induction over
  the steps, and that the agent can always come to an end.
\<close>

section \<open>The spool under the agent\<close>

text \<open>
  What the agent needs of a property of the spool to have it at all times: the operations it calls
  keep it, and so do time, and the removal of segments by the shipper.
\<close>

locale spool_contract =
  fixes X :: libs and inv :: "spool \<Rightarrow> bool"
  assumes inv_write: "keeps inv (spool_write X e)"
    and inv_close: "keeps inv (spool_close X)"
    and inv_script: "inv s \<Longrightarrow> inv (s\<lparr>script := evs\<rparr>)"
    and inv_clock: "inv s \<Longrightarrow> inv (s\<lparr>clock := t\<rparr>)"
    and inv_remove: "is_seg n \<Longrightarrow> inv s \<Longrightarrow> inv (del_file n s)"
    and inv_world: "inv s \<Longrightarrow> same_world w s \<Longrightarrow> delivered w w' \<Longrightarrow> inv (with_world w' s)"
begin

lemma inv_step: "agent_step X srcs a b \<Longrightarrow> inv (a_spool a) \<Longrightarrow> inv (a_spool b)"
proof (induction rule: agent_step.induct)
  case (wrote i a e es evs r sp)
  from keeps_run [OF inv_write wrote(4) inv_script] wrote show ?case by simp
next
  case (flush a evs r sp)
  from keeps_run [OF inv_close flush(4) inv_script] flush show ?case by simp
next
  case (drain a sh k r sh')
  from inv_world [OF _ drain(2) delivered_run [OF drain(4)]] drain show ?case by simp
qed (simp_all add: inv_clock inv_remove)

lemma inv_reaches: "agent_reaches X srcs a b \<Longrightarrow> inv (a_spool a) \<Longrightarrow> inv (a_spool b)"
  by (erule reaches_inv [where P = "\<lambda>c. inv (a_spool c)"]) (auto intro: inv_step)

end

lemma file_of_with_world [simp]: "file_of (with_world w s) n = file_of w n"
  by (simp add: file_of_def with_world_def)

lemma same_world_files: "same_world w s \<Longrightarrow> file_of s n = file_of w n"
  unfolding same_world_def
proof -
  assume "with_world w s = s\<lparr>script := script w\<rparr>"
  then have "file_of (with_world w s) n = file_of (s\<lparr>script := script w\<rparr>) n" by simp
  then show ?thesis by (simp add: file_of_def with_world_def)
qed

lemma active_size_del [simp]: "active_size (del_file n s) = active_size s"
  by (simp add: del_file_def)

interpretation published_contract: spool_contract X "published X" for X
proof unfold_locales
  fix s w w' n
  show "published X s \<Longrightarrow> same_world w s \<Longrightarrow> delivered w w' \<Longrightarrow> published X (with_world w' s)"
    unfolding published_def delivered_def by (metis file_of_with_world option.distinct(1) same_world_files)
  show "is_seg n \<Longrightarrow> published X s \<Longrightarrow> published X (del_file n s)"
    by (auto simp: published_def)
qed (auto simp: published_def file_of_def keeps_published_write keeps_published_close)


interpretation size_contract: spool_contract X size_ok for X
proof unfold_locales
  fix s w w' n
  show "size_ok s \<Longrightarrow> same_world w s \<Longrightarrow> delivered w w' \<Longrightarrow> size_ok (with_world w' s)"
  proof -
    assume s: "size_ok s" and w: "same_world w s" and d: "delivered w w'"
    have "file_of w' active_name = file_of w active_name"
      using d is_seg_active unfolding delivered_def by metis
    then have "active_of (with_world w' s) = active_of s"
      using same_world_files [OF w] by (simp add: content_of_def)
    with s show ?thesis by (simp add: size_ok_def with_world_def)
  qed
  show "is_seg n \<Longrightarrow> size_ok s \<Longrightarrow> size_ok (del_file n s)"
    by (auto simp: size_ok_def content_of_def)
  show "keeps size_ok (spool_close X)" for X
    unfolding spool_close_def by (intro keeps_intros keeps_sized_rotate keeps_size_ok)
qed (auto simp: size_ok_def content_of_def file_of_def keeps_sized_write)

section \<open>Envelopes and their writes\<close>

primrec collected :: "nat \<Rightarrow> obs list \<Rightarrow> envelope list" where
  "collected i [] = []"
| "collected i (x # xs) =
     (case x of Collected j es \<Rightarrow> if j = i then es else [] | _ \<Rightarrow> []) @ collected i xs"

primrec written :: "nat \<Rightarrow> obs list \<Rightarrow> envelope list" where
  "written i [] = []"
| "written i (x # xs) = (case x of Wrote j e \<Rightarrow> if j = i then [e] else [] | _ \<Rightarrow> []) @ written i xs"

lemma collected_append [simp]: "collected i (xs @ ys) = collected i xs @ collected i ys"
  by (induction xs) simp_all

lemma written_append [simp]: "written i (xs @ ys) = written i xs @ written i ys"
  by (induction xs) simp_all

definition pending :: "phase \<Rightarrow> envelope list" where
  "pending p = (case p of Emitting es \<Rightarrow> es | Locked e es \<Rightarrow> e # es | Written es \<Rightarrow> es | _ \<Rightarrow> [])"

lemma pending_simps [simp]:
  "pending Idle = []" "pending (Emitting es) = es" "pending (Locked e es) = e # es"
  "pending (Written es) = es" "pending Stopping = []" "pending Stopped = []"
  by (simp_all add: pending_def)

definition conserved :: "'h agent \<Rightarrow> bool" where
  "conserved a \<longleftrightarrow> (\<forall>i < length (a_phases a).
     written i (a_trace a) @ pending (a_phases a ! i) = collected i (a_trace a))"

lemma conserved_step: "agent_step X srcs a b \<Longrightarrow> conserved a \<Longrightarrow> conserved b"
proof (induction rule: agent_step.induct)
  case (tick i a envs h)
  then show ?case by (force simp: conserved_def nth_list_update)
next
  case (wrote i a e es evs r sp)
  then show ?case by (force simp: conserved_def nth_list_update)
qed (force simp: conserved_def nth_list_update)+

section \<open>The order of what happens\<close>

definition allowed :: "'s source list \<Rightarrow> obs list \<Rightarrow> obs \<Rightarrow> bool" where
  "allowed srcs past x =
     (case x of
        Collected i es \<Rightarrow> ClosedSrc i \<notin> set past \<and> SpoolClosed \<notin> set past
      | Wrote i e \<Rightarrow> ClosedSrc i \<notin> set past \<and> SpoolClosed \<notin> set past
      | ClosedSrc i \<Rightarrow> ClosedSrc i \<notin> set past \<and> SpoolClosed \<notin> set past
      | SpoolClosed \<Rightarrow> SpoolClosed \<notin> set past
          \<and> list_all (\<lambda>i. src_close (srcs ! i) = None \<or> ClosedSrc i \<in> set past) [0..<length srcs]
      | Drained \<Rightarrow> SpoolClosed \<in> set past \<and> Drained \<notin> set past)"

definition ordered :: "'s source list \<Rightarrow> obs list \<Rightarrow> bool" where
  "ordered srcs tr \<longleftrightarrow> list_all (\<lambda>k. allowed srcs (take k tr) (tr ! k)) [0..<length tr]"

lemma ordered_snoc: "ordered srcs (tr @ [x]) \<longleftrightarrow> ordered srcs tr \<and> allowed srcs tr x"
  by (auto simp: ordered_def list_all_iff nth_append)

definition in_order :: "'s source list \<Rightarrow> 's agent \<Rightarrow> bool" where
  "in_order srcs a \<longleftrightarrow> ordered srcs (a_trace a) \<and> length (a_phases a) = length srcs
     \<and> (\<forall>i. ClosedSrc i \<in> set (a_trace a) \<longrightarrow> i < length srcs \<and> a_phases a ! i = Stopped)
     \<and> (\<forall>i < length srcs. a_phases a ! i = Stopped \<longrightarrow> src_close (srcs ! i) = None \<or> ClosedSrc i \<in> set (a_trace a))
     \<and> (SpoolClosed \<in> set (a_trace a) \<longleftrightarrow> a_main a \<noteq> Waiting)
     \<and> (Drained \<in> set (a_trace a) \<longrightarrow> (\<exists>r. a_main a = Returned r))
     \<and> (a_main a \<noteq> Waiting \<longrightarrow> workers_done a)"

lemma in_order_init: "in_order srcs (agent_init h sp (length srcs) shipping)"
  by (simp add: in_order_def agent_init_def ordered_def)

lemma done_phase: "workers_done a \<Longrightarrow> i < length (a_phases a) \<Longrightarrow> a_phases a ! i = Stopped"
  by (simp add: workers_done_def list_all_length)

lemma in_order_running:
  assumes "in_order srcs a" and "i < length (a_phases a)" and "a_phases a ! i \<noteq> Stopped"
  shows "a_main a = Waiting" "SpoolClosed \<notin> set (a_trace a)" "ClosedSrc i \<notin> set (a_trace a)"
    "Drained \<notin> set (a_trace a)"
  using assms done_phase [of a i] by (auto simp: in_order_def)


lemma phases_update:
  "i < length ps \<Longrightarrow> ps[i := p] ! j = (if j = i then p else ps ! j)"
  by (cases "j = i") auto

lemma workers_done_cong: "a_phases b = a_phases a \<Longrightarrow> a_ship b = a_ship a \<Longrightarrow> workers_done b = workers_done a"
  by (simp add: workers_done_def)

lemma in_order_phase:
  assumes "in_order srcs a" and "i < length (a_phases a)" and "a_phases a ! i \<noteq> Stopped"
    and "p = Stopped \<Longrightarrow> src_close (srcs ! i) = None"
    and "a_phases b = (a_phases a)[i := p]" and "a_trace b = a_trace a" and "a_main b = a_main a"
  shows "in_order srcs b"
proof -
  note r = in_order_running [OF assms(1-3)]
  have "a_phases b ! j = (if j = i then p else a_phases a ! j)" for j
    using phases_update [OF assms(2)] assms(5) by simp
  then show ?thesis
    using assms(1,4-7) r by (auto simp: in_order_def)
qed

lemma in_order_step: "agent_step X srcs a b \<Longrightarrow> in_order srcs a \<Longrightarrow> in_order srcs b"
proof (induction rule: agent_step.induct)
  case (tick i a envs h)
  note r = in_order_running [OF tick(5,2)]
  show ?case
    using tick r by (auto simp: in_order_def ordered_snoc allowed_def phases_update)
next
  case (lock i a e es)
  show ?case by (rule in_order_phase [OF lock(4,1)]) (use lock in simp_all)
next
  case (wrote i a e es evs r sp)
  note q = in_order_running [OF wrote(5,1)]
  show ?case
    using wrote q by (auto simp: in_order_def ordered_snoc allowed_def phases_update)
next
  case (unlock i a es)
  show ?case by (rule in_order_phase [OF unlock(3,1)]) (use unlock in simp_all)
next
  case (tick_done i a)
  show ?case by (rule in_order_phase [OF tick_done(3,1)]) (use tick_done in simp_all)
next
  case (stop i a)
  show ?case by (rule in_order_phase [OF stop(4,1)]) (use stop in simp_all)
next
  case (no_close i a)
  show ?case by (rule in_order_phase [OF no_close(5,2)]) (use no_close in simp_all)
next
  case (close i a c r h)
  note q = in_order_running [OF close(6,2)]
  show ?case
    using close q by (auto simp: in_order_def ordered_snoc allowed_def phases_update)
next
  case (flush a evs r sp)
  have ph: "a_phases a ! i = Stopped" if "i < length srcs" for i
    using that done_phase [of a i] flush by (simp add: in_order_def)
  with flush show ?case
    by (auto simp: in_order_def ordered_snoc allowed_def list_all_iff workers_done_def split: sum.split)
next
  case (drain a sh k r sh')
  then show ?case
    by (auto simp: in_order_def ordered_snoc allowed_def workers_done_def)
qed (auto simp: in_order_def workers_done_def)


section \<open>The agent can always finish\<close>

text \<open>How many steps a goroutine is from its end once the context is cancelled.\<close>

definition phase_rank :: "phase \<Rightarrow> nat" where
  "phase_rank p = (case p of Stopped \<Rightarrow> 0 | Stopping \<Rightarrow> 1 | Idle \<Rightarrow> 2 | Emitting es \<Rightarrow> 3 + 3 * length es
     | Locked e es \<Rightarrow> 5 + 3 * length es | Written es \<Rightarrow> 4 + 3 * length es)"

lemma phase_rank_simps [simp]:
  "phase_rank Stopped = 0" "phase_rank Stopping = 1" "phase_rank Idle = 2"
  "phase_rank (Emitting es) = 3 + 3 * length es" "phase_rank (Locked e es) = 5 + 3 * length es"
  "phase_rank (Written es) = 4 + 3 * length es"
  by (simp_all add: phase_rank_def)

definition ship_rank :: "ship_phase \<Rightarrow> nat" where
  "ship_rank p = (case p of Draining \<Rightarrow> 2 | ShipIdle \<Rightarrow> 1 | _ \<Rightarrow> 0)"

definition agent_rank :: "'h agent \<Rightarrow> nat" where
  "agent_rank a = sum_list (map phase_rank (a_phases a)) + ship_rank (a_ship a)"

lemma sum_list_update_less:
  fixes f :: "'b \<Rightarrow> nat"
  shows "i < length xs \<Longrightarrow> f y < f (xs ! i) \<Longrightarrow> sum_list (map f (xs[i := y])) < sum_list (map f xs)"
proof (induction xs arbitrary: i)
  case (Cons x xs)
  then show ?case by (cases i) simp_all
qed simp

definition stoppable :: "'h source list \<Rightarrow> 'h agent \<Rightarrow> bool" where
  "stoppable srcs a \<longleftrightarrow> a_cancelled a \<and> exclusive a \<and> length (a_phases a) = length srcs"

definition nearer :: "libs \<Rightarrow> 'h source list \<Rightarrow> 'h agent \<Rightarrow> nat \<Rightarrow> 'h agent \<Rightarrow> bool" where
  "nearer X srcs a i b \<longleftrightarrow> agent_step X srcs a b
    \<and> (\<exists>p. a_phases b = (a_phases a)[i := p] \<and> phase_rank p < phase_rank (a_phases a ! i))
    \<and> a_ship b = a_ship a \<and> a_cancelled b = a_cancelled a \<and> a_main b = a_main a"

lemma nearerI:
  "agent_step X srcs a b \<Longrightarrow> a_phases b = (a_phases a)[i := p] \<Longrightarrow> phase_rank p < phase_rank (a_phases a ! i)
    \<Longrightarrow> a_ship b = a_ship a \<Longrightarrow> a_cancelled b = a_cancelled a \<Longrightarrow> a_main b = a_main a
    \<Longrightarrow> \<exists>b. nearer X srcs a i b"
  unfolding nearer_def by blast

lemma step_phase:
  assumes "stoppable srcs a" and "i < length (a_phases a)" and "a_phases a ! i \<noteq> Stopped"
    and "a_mutex a = None \<or> a_mutex a = Some i"
  shows "\<exists>b. nearer X srcs a i b"
proof (cases "a_phases a ! i")
  case Idle
  have "a_cancelled a" using assms(1) by (simp add: stoppable_def)
  from agent_step.stop [OF assms(2) Idle this, of X srcs] show ?thesis
    by (rule nearerI, simp, simp_all add: Idle)
next
  case (Emitting es)
  show ?thesis
  proof (cases es)
    case Nil
    with Emitting have e: "a_phases a ! i = Emitting []" by simp
    from agent_step.tick_done [OF assms(2) e, of X srcs] show ?thesis
      by (rule nearerI, simp, simp_all add: e)
  next
    case (Cons e es')
    with Emitting have ph: "a_phases a ! i = Emitting (e # es')" by simp
    have "a_mutex a = None"
      using assms(1,2,4) ph by (auto simp: stoppable_def exclusive_def)
    from agent_step.lock [OF assms(2) ph this, of X srcs] show ?thesis
      by (rule nearerI, simp, simp_all add: ph)
  qed
next
  case (Locked e es)
  obtain r sp where sw: "spool_write X e ((a_spool a)\<lparr>script := []\<rparr>) = (r, sp)" by fastforce
  have "script_allowed (a_ship a) []" by (simp add: script_allowed_def)
  from agent_step.wrote [OF assms(2) Locked this sw, of srcs] show ?thesis
    by (rule nearerI, simp, simp_all add: Locked)
next
  case (Written es)
  from agent_step.unlock [OF assms(2) Written, of X srcs] show ?thesis
    by (rule nearerI, simp, simp_all add: Written)
next
  case Stopping
  have i: "i < length srcs" using assms(1,2) by (simp add: stoppable_def)
  show ?thesis
  proof (cases "src_close (srcs ! i)")
    case None
    from agent_step.no_close [OF i assms(2) Stopping None, of X] show ?thesis
      by (rule nearerI, simp, simp_all add: Stopping)
  next
    case (Some c)
    obtain r h where "c (a_host a) = (r, h)" by fastforce
    from agent_step.close [OF i assms(2) Stopping Some this, of X] show ?thesis
      by (rule nearerI, simp, simp_all add: Stopping)
  qed
qed (use assms(3) in simp)

lemma step_towards_done:
  assumes "stoppable srcs a" and "\<not> workers_done a"
  shows "\<exists>b. agent_step X srcs a b \<and> stoppable srcs b \<and> agent_rank b < agent_rank a \<and> a_main b = a_main a"
proof -
  have stop: "stoppable srcs b" if "agent_step X srcs a b" "a_cancelled b = a_cancelled a"
      "length (a_phases b) = length (a_phases a)" for b
    using that assms(1) exclusive_step by (auto simp: stoppable_def)
  show ?thesis
  proof (cases "list_all (\<lambda>p. p = Stopped) (a_phases a)")
    case True
    with assms(2) consider "a_ship a = Draining" | "a_ship a = ShipIdle"
      by (cases "a_ship a") (auto simp: workers_done_def)
    then show ?thesis
    proof cases
      case 1
      from agent_step.ship_done [OF this, of X srcs] stop 1 show ?thesis
        by (intro exI [of _ "a\<lparr>a_ship := ShipIdle\<rparr>"]) (simp add: agent_rank_def ship_rank_def)
    next
      case 2
      have "a_cancelled a" using assms(1) by (simp add: stoppable_def)
      from agent_step.ship_stop [OF 2 this, of X srcs] stop 2 show ?thesis
        by (intro exI [of _ "a\<lparr>a_ship := ShipStopped\<rparr>"]) (simp add: agent_rank_def ship_rank_def)
    qed
  next
    case False
    then obtain j where j: "j < length (a_phases a)" "a_phases a ! j \<noteq> Stopped"
      by (auto simp: list_all_length)
    obtain i where i: "i < length (a_phases a)" "a_phases a ! i \<noteq> Stopped" "a_mutex a = None \<or> a_mutex a = Some i"
    proof (cases "a_mutex a")
      case None
      with j that show ?thesis by blast
    next
      case (Some k)
      then have "k < length (a_phases a)" "holds_mutex (a_phases a ! k)"
        using assms(1) by (auto simp: stoppable_def exclusive_def)
      with Some that [of k] show ?thesis by fastforce
    qed
    from step_phase [OF assms(1) i, of X] obtain b p where b: "agent_step X srcs a b"
      "a_phases b = (a_phases a)[i := p]" "phase_rank p < phase_rank (a_phases a ! i)"
      "a_ship b = a_ship a" "a_cancelled b = a_cancelled a" "a_main b = a_main a"
      unfolding nearer_def by blast
    then show ?thesis
      using stop [OF b(1)] sum_list_update_less [OF i(1), of phase_rank p]
      by (intro exI [of _ b]) (auto simp: agent_rank_def)
  qed
qed

lemma reach_done:
  "stoppable srcs a \<Longrightarrow>
     \<exists>b. agent_reaches X srcs a b \<and> workers_done b \<and> a_main b = a_main a"
proof (induction "agent_rank a" arbitrary: a rule: less_induct)
  case less
  show ?case
  proof (cases "workers_done a")
    case True
    then show ?thesis by (blast intro: agent_reaches.here)
  next
    case False
    from step_towards_done [OF less.prems this, of X] obtain b where b: "agent_step X srcs a b"
      "stoppable srcs b" "agent_rank b < agent_rank a" "a_main b = a_main a" by blast
    from less.hyps [OF b(3,2)] obtain c where c: "agent_reaches X srcs b c" "workers_done c" "a_main c = a_main b"
      by blast
    have "agent_reaches X srcs a c"
      by (rule reaches_trans [OF c(1)]) (rule agent_reaches.more [OF agent_reaches.here b(1)])
    with c b(4) show ?thesis by auto
  qed
qed

lemma reach_returned:
  assumes "workers_done a"
  shows "\<exists>b r. agent_reaches X srcs a b \<and> a_main b = Returned r"
proof -
  have flushed: "\<exists>c r. agent_reaches X srcs b c \<and> a_main c = Returned r" if f: "a_main b = Flushed" for b
  proof -
    let ?ev = "\<lparr>ev_fail = Some 0, ev_shipped = [], ev_tick = 0\<rparr>"
    let ?sp = "a_spool b"
    define sh :: shipper where "sh = \<lparr>dir = dir ?sp, handle_open = handle_open ?sp, mtime = mtime ?sp,
      clock = clock ?sp, minted = minted ?sp, script = [?ev], url_ok = True, min_backoff = 1,
      max_backoff = 1, backoff = 1, replies = [], patience = 0, requests = [], naps = []\<rparr>"
    have w: "same_world sh ?sp" by (simp add: same_world_def with_world_def sh_def)
    have al: "script_allowed ShipStopped (script sh)" by (simp add: script_allowed_def sh_def)
    obtain sh' where "segments sh = (Inl ErrIO, sh')"
      by (simp add: segments_def syscall_def env_step_def sh_def)
    then have "run_ship 1 segments sh = Some (Inl ErrIO, sh')" by simp
    from agent_reaches.more [OF agent_reaches.here agent_step.drain [OF f w al this]]
    show ?thesis by (intro exI conjI) auto
  qed
  show ?thesis
  proof (cases "a_main a")
    case Waiting
    obtain r sp where "spool_close X ((a_spool a)\<lparr>script := []\<rparr>) = (r, sp)" by fastforce
    from agent_step.flush [OF Waiting assms _ this, of srcs]
    obtain b where b: "agent_step X srcs a b" "a_main b = Flushed \<or> (\<exists>r. a_main b = Returned r)"
      by (cases r; cases "a_ship a = NoShipper") (fastforce simp: script_allowed_def)+
    note ab = agent_reaches.more [OF agent_reaches.here b(1)]
    from b(2) show ?thesis using flushed [of b] reaches_trans [OF _ ab] ab by blast
  next
    case Flushed
    then show ?thesis by (rule flushed)
  next
    case (Returned r)
    then show ?thesis by (blast intro: agent_reaches.here)
  qed
qed


section \<open>A clean return\<close>

lemma run_ship_empty:
  "run_ship k segments s = Some (Inr (), t) \<Longrightarrow> seg_names (dir t) = []"
proof (induction k arbitrary: s)
  case (Suc k)
  obtain q s1 where ls: "segments s = (q, s1)" by fastforce
  show ?case
  proof (cases "q = Inr []")
    case True
    with ls Suc.prems have "t = s1" by simp
    with True ls segments_Inr show ?thesis by metis
  next
    case False
    with ls Suc show ?thesis by (auto split: sum.splits prod.splits if_splits)
  qed
qed simp

definition clean :: "'s source list \<Rightarrow> 's agent \<Rightarrow> bool" where
  "clean srcs a \<longleftrightarrow> in_order srcs a
     \<and> (a_main a = Returned None \<longrightarrow> a_ship a = NoShipper \<or> seg_names (dir (a_spool a)) = [])"

lemma clean_step: "agent_step X srcs a b \<Longrightarrow> clean srcs a \<Longrightarrow> clean srcs b"
proof -
  assume st: "agent_step X srcs a b" and c: "clean srcs a"
  then have "in_order srcs b" using in_order_step by (auto simp: clean_def)
  moreover have "a_main b = Returned None \<longrightarrow> a_ship b = NoShipper \<or> seg_names (dir (a_spool b)) = []"
    using st c
  proof cases
    case (wrote i e es evs r sp)
    with c in_order_running(1) [of srcs a i] show ?thesis by (simp add: clean_def)
  next
    case (ship_tick)
    with c show ?thesis by (auto simp: clean_def in_order_def workers_done_def)
  next
    case (ship_remove n)
    with c show ?thesis by (auto simp: clean_def in_order_def workers_done_def)
  next
    case (flush evs r sp)
    then show ?thesis by (auto split: sum.splits if_splits)
  next
    case (drain sh k r sh')
    then show ?thesis
      by (auto simp: with_world_def dest: run_ship_empty split: sum.splits)
  qed (use c in \<open>auto simp: clean_def in_order_def workers_done_def\<close>)
  ultimately show "clean srcs b" by (simp add: clean_def)
qed

section \<open>Properties\<close>

text \<open>A run of one source that is cancelled after its first tick.\<close>

definition demo_source :: "unit source" where
  "demo_source = \<lparr>src_typ = ''x'', src_tier = 1, src_collect = ret [demo_envelope], src_close = Some (ret ())\<rparr>"

definition demo_start :: "unit agent" where
  "demo_start = agent_init () (demo_spool [(active_name, ''old'')] 1000 []) (length [demo_source]) False"

lemma demo_run:
  "\<exists>a. agent_reaches demo_libs [demo_source] demo_start a
     \<and> a_trace a = [Collected 0 [demo_envelope]] \<and> a_phases a = [Locked demo_envelope []] \<and> a_main a = Waiting"
proof -
  have c: "src_collect ([demo_source] ! 0) (a_host demo_start) = (Inr [demo_envelope], ())"
    by (simp add: demo_source_def)
  have i: "0 < length [demo_source]" "0 < length (a_phases demo_start)" "a_phases demo_start ! 0 = Idle"
    by (simp_all add: demo_start_def agent_init_def)
  note r1 = agent_reaches.more [OF agent_reaches.here agent_step.tick [OF i c, of demo_libs]]
  note r2 = agent_reaches.more [OF r1 agent_step.lock]
  show ?thesis
    by (rule exI, rule conjI, rule r2 [of 0 demo_envelope "[]"])
      (simp_all add: demo_start_def agent_init_def)
qed

text \<open>
  C14: Writes are serialised: whatever the schedule, at most one source goroutine is between
  \<open>writeMu.Lock\<close> and \<open>Unlock\<close>, so the spool, which has no locking of its own, is never written
  concurrently.
\<close>
theorem agent_write_exclusive:
  assumes "agent_reaches X srcs (agent_init h sp n shipping) a"
    and "i < length (a_phases a)" and "j < length (a_phases a)"
    and "holds_mutex (a_phases a ! i)" and "holds_mutex (a_phases a ! j)"
  shows "i = j"
proof -
  have "exclusive a"
    using assms(1) exclusive_init exclusive_step by (rule reaches_inv [where P = exclusive])
  then show ?thesis using assms(2-5) by (auto simp: exclusive_def)
qed

theorem agent_write_exclusive_witness:
  "\<exists>a. agent_reaches demo_libs [demo_source] demo_start a \<and> holds_mutex (a_phases a ! 0) \<and> (0 :: nat) = 0"
proof -
  obtain a where a: "agent_reaches demo_libs [demo_source] demo_start a" "a_phases a = [Locked demo_envelope []]"
    using demo_run by blast
  from agent_write_exclusive [OF a(1) [unfolded demo_start_def], of 0 0] a show ?thesis by auto
qed

text \<open>
  C13: The order of a shutdown. In every run a source is never collected from nor written for after
  its \<open>close\<close>, which is called at most once; the spool is closed once, after every source that has
  a \<open>close\<close> has been closed and with no write after it; the final drain comes after that, once.
\<close>
theorem agent_shutdown_order:
  assumes "agent_reaches X srcs (agent_init h sp (length srcs) shipping) a"
  shows "ordered srcs (a_trace a)"
proof -
  have "in_order srcs a"
    using assms in_order_init in_order_step by (rule reaches_inv [where P = "in_order srcs"])
  then show ?thesis by (simp add: in_order_def)
qed

theorem agent_shutdown_order_witness:
  "ordered [demo_source] [Collected 0 [demo_envelope]]
    \<and> \<not> ordered [demo_source] [Collected 0 [], SpoolClosed]"
proof
  obtain a where a: "agent_reaches demo_libs [demo_source] demo_start a" "a_trace a = [Collected 0 [demo_envelope]]"
    using demo_run by blast
  from agent_shutdown_order [of demo_libs "[demo_source]", OF a(1) [unfolded demo_start_def]] a(2)
  show "ordered [demo_source] [Collected 0 [demo_envelope]]" by simp
  show "\<not> ordered [demo_source] [Collected 0 [], SpoolClosed]"
    by (simp add: ordered_def allowed_def demo_source_def)
qed

text \<open>
  C6: Nothing is lost or duplicated between a collector and the spool. In every run, for every
  source, the envelopes passed to \<open>Write\<close> so far followed by those its goroutine still holds are the
  envelopes it has collected, in order; once the spool is closed, all of them have been passed,
  also those of a tick that was under way at the cancellation.
\<close>
theorem agent_conserves_envelopes:
  assumes "agent_reaches X srcs (agent_init h sp (length srcs) shipping) a" and "i < length srcs"
  shows "written i (a_trace a) @ pending (a_phases a ! i) = collected i (a_trace a)
    \<and> (SpoolClosed \<in> set (a_trace a) \<longrightarrow> written i (a_trace a) = collected i (a_trace a))"
proof -
  have io: "in_order srcs a"
    using assms(1) in_order_init in_order_step by (rule reaches_inv [where P = "in_order srcs"])
  have "conserved (agent_init h sp (length srcs) shipping)"
    by (simp add: conserved_def agent_init_def)
  with assms(1) have "conserved a" using conserved_step by (rule reaches_inv [where P = conserved])
  then have c: "written i (a_trace a) @ pending (a_phases a ! i) = collected i (a_trace a)"
    using assms(2) io by (simp add: conserved_def in_order_def)
  moreover have "a_phases a ! i = Stopped" if "SpoolClosed \<in> set (a_trace a)"
    using that io assms(2) by (intro done_phase) (auto simp: in_order_def)
  ultimately show ?thesis by auto
qed

theorem agent_conserves_envelopes_witness:
  "\<exists>a. agent_reaches demo_libs [demo_source] demo_start a
     \<and> written 0 (a_trace a) @ pending (a_phases a ! 0) = [demo_envelope]"
proof -
  obtain a where a: "agent_reaches demo_libs [demo_source] demo_start a" "a_trace a = [Collected 0 [demo_envelope]]"
    using demo_run by blast
  from agent_conserves_envelopes [of demo_libs "[demo_source]", OF a(1) [unfolded demo_start_def], of 0] a
  show ?thesis by auto
qed





text \<open>With a shipper, a run that returns without an error has emptied the spool.\<close>

lemma clean_returned:
  assumes "agent_reaches X srcs (agent_init h sp (length srcs) True) a" and "a_main a = Returned None"
  shows "seg_names (dir (a_spool a)) = []"
proof -
  have "clean srcs (agent_init h sp (length srcs) True)"
    using in_order_init [of srcs h sp True] by (simp add: clean_def agent_init_def)
  with assms(1) have c: "clean srcs a" using clean_step by (rule reaches_inv [where P = "clean srcs"])
  have "a_ship a \<noteq> NoShipper"
    using assms(1)
  proof (rule reaches_inv [where P = "\<lambda>a. a_ship a \<noteq> NoShipper"])
    show "a_ship c \<noteq> NoShipper \<Longrightarrow> a_ship d \<noteq> NoShipper" if "agent_step X srcs c d" for c d
      using that by cases auto
  qed (simp add: agent_init_def)
  with c assms(2) show ?thesis by (auto simp: clean_def)
qed

text \<open>An agent without sources, cancelled at once, with an empty spool.\<close>

lemma idle_run:
  "\<exists>a. agent_reaches demo_libs [] (agent_init () (demo_spool [(active_name, [])] 9 []) 0 True) a
     \<and> a_main a = Returned None"
proof -
  let ?a0 = "agent_init () (demo_spool [(active_name, [])] 9 []) 0 True"
  let ?a1 = "?a0\<lparr>a_cancelled := True\<rparr>"
  let ?a2 = "?a1\<lparr>a_ship := ShipStopped\<rparr>"
  let ?sp = "(demo_spool [(active_name, [])] 9 [])\<lparr>handle_open := False\<rparr>"
  let ?a3 = "?a2\<lparr>a_spool := ?sp, a_main := Flushed, a_trace := [SpoolClosed]\<rparr>"
  have s1: "agent_step demo_libs [] ?a0 ?a1" by (rule agent_step.cancel)
  have s2: "agent_step demo_libs [] ?a1 ?a2" by (rule agent_step.ship_stop) (simp_all add: agent_init_def)
  have close: "spool_close demo_libs ((a_spool ?a2)\<lparr>script := []\<rparr>) = (Inr (), ?sp)"
    by (simp add: spool_close_def agent_init_def demo_spool_def active_name_def bind_act_def act_defs
        handle_close_def syscall_def env_step_def quiet_event_def)
  have "workers_done ?a2" by (simp add: workers_done_def agent_init_def)
  from agent_step.flush [OF _ this _ close] have s3: "agent_step demo_libs [] ?a2 ?a3"
    by (simp add: agent_init_def script_allowed_def)
  define sh :: shipper where "sh = \<lparr>dir = dir ?sp, handle_open = False, mtime = mtime ?sp,
      clock = clock ?sp, minted = minted ?sp, script = [], url_ok = True, min_backoff = 1,
      max_backoff = 1, backoff = 1, replies = [], patience = 0, requests = [], naps = []\<rparr>"
  have "run_ship 1 segments sh = Some (Inr (), sh)"
    by (simp add: segments_def syscall_def env_step_def sh_def quiet_event_def ret_def seg_names_def demo_spool_def)
  moreover have "same_world sh (a_spool ?a3)" by (simp add: same_world_def with_world_def sh_def)
  moreover have "script_allowed ShipStopped (script sh)" by (simp add: script_allowed_def sh_def)
  ultimately obtain b where s4: "agent_step demo_libs [] ?a3 b" and b: "a_main b = Returned None"
    using agent_step.drain [of ?a3 sh 1 "Inr ()" sh demo_libs "[]"] by fastforce
  show ?thesis
    by (rule exI [of _ b]) (intro conjI b agent_reaches.more [OF _ s4] agent_reaches.more [OF _ s3]
        agent_reaches.more [OF _ s2] agent_reaches.more [OF _ s1] agent_reaches.here)
qed

end
