(* ===== verification/Startup.thy ===== *)
theory Startup
  imports AgentProps
begin

text \<open>
  The start of \<open>memauditd\<close>: \<open>internal/config\<close>, \<open>internal/pprofserver\<close>'s address check and
  \<open>cmd/memauditd/main.go\<close>. The YAML decoder, the file system, the host name, \<open>net.Listen\<close> and the
  certificate parser are the environment. Integers of the configuration are Go's \<open>int\<close>, so
  \<open>int\<close> in the model with the 64-bit arithmetic of \<open>time.Duration\<close> written out.
\<close>

section \<open>Addresses\<close>

definition first_index :: "string \<Rightarrow> char \<Rightarrow> nat option" where
  "first_index s c = (if c \<in> set s then Some (length (takeWhile (\<lambda>x. x \<noteq> c) s)) else None)"

definition last_index :: "string \<Rightarrow> char \<Rightarrow> nat option" where
  "last_index s c =
     (if c \<in> set s then Some (length s - 1 - length (takeWhile (\<lambda>x. x \<noteq> c) (rev s))) else None)"

text \<open>\<open>net.SplitHostPort\<close> of the standard library: host and port.\<close>

definition split_host_port :: "string \<Rightarrow> err + string \<times> string" where
  "split_host_port addr =
     (let no_port = Inl (ErrInvalid ''missing port in address'');
          colons = Inl (ErrInvalid ''too many colons in address'');
          finish = (\<lambda>h j k i.
            if CHR ''['' \<in> set (drop j addr) then Inl (ErrInvalid ''unexpected bracket'')
            else if CHR '']'' \<in> set (drop k addr) then Inl (ErrInvalid ''unexpected bracket'')
            else Inr (h, drop (i + 1) addr))
      in case last_index addr CHR '':'' of
           None \<Rightarrow> no_port
         | Some i \<Rightarrow>
             if hd addr = CHR ''['' then
               (case first_index addr CHR '']'' of
                  None \<Rightarrow> Inl (ErrInvalid ''missing bracket'')
                | Some e \<Rightarrow>
                    if e + 1 = length addr then no_port
                    else if e + 1 = i then finish (drop 1 (take e addr)) 1 (e + 1) i
                    else if addr ! (e + 1) = CHR '':'' then colons
                    else no_port)
             else if CHR '':'' \<in> set (take i addr) then colons
             else finish (take i addr) 0 0 i)"

definition loopback_hosts :: "string list" where
  "loopback_hosts = [''127.0.0.1'', ''::1'', ''localhost'']"

definition validate_addr :: "string \<Rightarrow> err option" where
  "validate_addr addr =
     (case split_host_port addr of
        Inl e \<Rightarrow> Some e
      | Inr (h, port) \<Rightarrow>
          if port = [] then Some (ErrInvalid ''missing port'')
          else if h \<in> set loopback_hosts then None
          else Some (ErrInvalid ''host must be a loopback address''))"

text \<open>\<open>Listen\<close>, for a \<open>net.Listen\<close> that answers \<open>net_listen addr\<close>.\<close>

definition pprof_listen :: "(string \<Rightarrow> err option) \<Rightarrow> string \<Rightarrow> err option" where
  "pprof_listen net_listen addr =
     (case validate_addr addr of Some e \<Rightarrow> Some e | None \<Rightarrow> net_listen addr)"

text \<open>
  \<open>Serve\<close>: the event its \<open>select\<close> takes, a cancelled context with what \<open>srv.Shutdown\<close> then answers, or
  the end of \<open>srv.Serve\<close>, and the error it returns.
\<close>

datatype serve_end = ServerClosed | ServeErr "err option"

datatype serve_event = CtxDone "err option" | ServeEnded serve_end

definition pprof_serve :: "serve_event \<Rightarrow> err option" where
  "pprof_serve ev =
     (case ev of
        CtxDone shutdown \<Rightarrow> shutdown
      | ServeEnded ServerClosed \<Rightarrow> None
      | ServeEnded (ServeErr r) \<Rightarrow> r)"

section \<open>Configuration\<close>

record k8s_config =
  kc_Enrich :: bool
  kc_Kubelet :: string
  kc_TokenPath :: string
  kc_CAPath :: string
  kc_InsecureSkipVerify :: bool
  kc_LabelKeys :: "string list"

record spool_config =
  sc_Dir :: string
  sc_MaxBytes :: int

record ship_config =
  shc_Mode :: string
  shc_URL :: string
  shc_TokenFile :: string

record config =
  cf_Site :: string
  cf_IntervalS :: int
  cf_Mode :: string
  cf_Collectors :: collectors_config
  cf_K8s :: k8s_config
  cf_Spool :: spool_config
  cf_Ship :: ship_config
  cf_LogLevel :: string
  cf_PprofAddr :: string

definition default_metric_map :: "(string \<times> string) list" where
  "default_metric_map =
     [(''cache_usage'', ''vllm:gpu_cache_usage_perc''),
      (''prefix_hits'', ''vllm:gpu_prefix_cache_hits_total''),
      (''prefix_queries'', ''vllm:gpu_prefix_cache_queries_total''),
      (''preemptions'', ''vllm:num_preemptions_total''),
      (''running'', ''vllm:num_requests_running''),
      (''waiting'', ''vllm:num_requests_waiting''),
      (''prompt_tokens'', ''vllm:prompt_tokens_total''),
      (''gen_tokens'', ''vllm:generation_tokens_total'')]"

definition default_config :: config where
  "default_config =
     \<lparr>cf_Site = '''', cf_IntervalS = 15, cf_Mode = ''sampling'',
      cf_Collectors =
        \<lparr>cc_Cgroup = \<lparr>cgc_Enabled = True, cgc_Globs = [''system.slice/*.service'', ''kubepods.slice/**''],
           cgc_Max = 500\<rparr>,
         cc_Damon = \<lparr>dc_Enabled = True, dc_SampleUS = 5000, dc_AggrUS = 100000, dc_MaxRegions = 1000\<rparr>,
         cc_NVML_Enabled = ''auto'',
         cc_VLLM = \<lparr>vc_Endpoints = [], vc_MetricMap = default_metric_map\<rparr>\<rparr>,
      cf_K8s = \<lparr>kc_Enrich = False, kc_Kubelet = ''https://127.0.0.1:10250'', kc_TokenPath = '''',
         kc_CAPath = '''', kc_InsecureSkipVerify = False, kc_LabelKeys = [''app'']\<rparr>,
      cf_Spool = \<lparr>sc_Dir = ''/var/lib/memaudit/spool'', sc_MaxBytes = 2 * 1024 * 1024 * 1024\<rparr>,
      cf_Ship = \<lparr>shc_Mode = ''push'', shc_URL = '''', shc_TokenFile = ''''\<rparr>,
      cf_LogLevel = ''info'', cf_PprofAddr = ''''\<rparr>"

section \<open>The environment\<close>

text \<open>
  \<open>yaml text cfg\<close> is \<open>yaml.Unmarshal\<close> onto \<open>cfg\<close>; \<open>spool_at d\<close> is the spool state for the directory
  \<open>d\<close> as it is on disk, before \<open>Open\<close>.
\<close>

record 'w start_env =
  se_read :: "string \<Rightarrow> err + string"
  se_yaml :: "string \<Rightarrow> config \<Rightarrow> err + config"
  se_hostname :: "err + string"
  se_spool_at :: "string \<Rightarrow> spool"
  se_pem_ok :: "string \<Rightarrow> bool"
  se_listen :: "string \<Rightarrow> err option"
  se_now :: int
  se_pods :: "pods_reply list"
  se_libs :: "'w collector_libs"

definition config_load :: "'w start_env \<Rightarrow> string \<Rightarrow> err + config" where
  "config_load E path =
     (case se_read E path of Inl e \<Rightarrow> Inl e | Inr b \<Rightarrow> se_yaml E b default_config)"

definition read_token :: "'w start_env \<Rightarrow> string \<Rightarrow> err + string" where
  "read_token E path =
     (if path = [] then Inr []
      else case se_read E path of Inl e \<Rightarrow> Inl e | Inr b \<Rightarrow> Inr (trim_space b))"

text \<open>The certificate check of \<open>kubeletTransport\<close>, and \<open>NewKubeletClient\<close> as \<open>runCmd\<close> calls it.\<close>

definition kubelet_transport :: "'w start_env \<Rightarrow> string \<Rightarrow> bool \<Rightarrow> err option" where
  "kubelet_transport E ca_path insecure =
     (if \<not> insecure \<and> ca_path \<noteq> [] then
        (case se_read E ca_path of
           Inl e \<Rightarrow> Some e
         | Inr pem \<Rightarrow> if \<not> se_pem_ok E pem then Some (ErrInvalid ''no certificates found'') else None)
      else None)"

definition new_kubelet_client :: "'w start_env \<Rightarrow> k8s_config \<Rightarrow> string \<Rightarrow> err + kubelet" where
  "new_kubelet_client E cfg tok =
     (case kubelet_transport E (kc_CAPath cfg) (kc_InsecureSkipVerify cfg) of
        Some e \<Rightarrow> Inl e
      | None \<Rightarrow> Inr (new_kubelet (kc_Kubelet cfg) tok (kc_LabelKeys cfg) 0 (se_now E) (se_pods E)))"

section \<open>\<open>memauditd run\<close>\<close>

definition second :: int where
  "second = 1000000000"

text \<open>\<open>time.Duration(cfg.IntervalS) * time.Second\<close>, a product of 64-bit integers.\<close>

definition interval_of :: "int \<Rightarrow> int" where
  "interval_of s = go_int64 (s * second)"

text \<open>What \<open>runCmd\<close> comes to: an exit status, or the call of \<open>agent.Run\<close> with its clients.\<close>

datatype 'w start =
    Exit nat
  | StartAgent "'w run_config" "(string \<times> string) option" "kubelet option"

definition start_shipper :: "'w start_env \<Rightarrow> ship_config \<Rightarrow> err + (string \<times> string) option" where
  "start_shipper E cfg =
     (if shc_Mode cfg = ''push'' then
        (if shc_URL cfg = [] then Inl (ErrInvalid ''ship.url'')
         else bind_res (read_token E (shc_TokenFile cfg)) (\<lambda>tok. Inr (Some (shc_URL cfg, tok))))
      else Inr None)"

definition start_kubelet :: "'w start_env \<Rightarrow> k8s_config \<Rightarrow> err + kubelet option" where
  "start_kubelet E cfg =
     (if kc_Enrich cfg then
        bind_res (read_token E (kc_TokenPath cfg)) (\<lambda>tok.
        bind_res (new_kubelet_client E cfg tok) (\<lambda>kc. Inr (Some kc)))
      else Inr None)"

definition start_pprof :: "'w start_env \<Rightarrow> string \<Rightarrow> err + unit" where
  "start_pprof E addr =
     (if addr \<noteq> [] then (case pprof_listen (se_listen E) addr of Some e \<Rightarrow> Inl e | None \<Rightarrow> Inr ())
      else Inr ())"

text \<open>
  \<open>runCmd\<close> up to \<open>agent.Run\<close>; every error ends the process with status 1. The second component is
  the spool as the failed or successful \<open>Open\<close> left it, \<open>None\<close> if it was not reached.
\<close>

definition run_cmd :: "'w start_env \<Rightarrow> string \<Rightarrow> 'w start \<times> spool option" where
  "run_cmd E cfg_path =
     (case config_load E cfg_path of
        Inl _ \<Rightarrow> (Exit 1, None)
      | Inr cfg \<Rightarrow>
          (case se_hostname E of
             Inl _ \<Rightarrow> (Exit 1, None)
           | Inr hn \<Rightarrow>
               (case spool_open \<lparr>opt_RotateBytes = 0, opt_RotateAge = 0,
                      opt_MaxBytes = sc_MaxBytes (cf_Spool cfg), opt_Site = cf_Site cfg, opt_Host = hn\<rparr>
                    (se_spool_at E (sc_Dir (cf_Spool cfg))) of
                  (Inl _, sp) \<Rightarrow> (Exit 1, Some sp)
                | (Inr _, sp) \<Rightarrow>
                    (case bind_res (start_shipper E (cf_Ship cfg)) (\<lambda>shipper.
                          bind_res (start_kubelet E (cf_K8s cfg)) (\<lambda>kc.
                          bind_res (start_pprof E (cf_PprofAddr cfg)) (\<lambda>_.
                          Inr (StartAgent
                            \<lparr>rc_Site = cf_Site cfg, rc_Host = hn,
                             rc_Interval = interval_of (cf_IntervalS cfg),
                             rc_Collectors = cf_Collectors cfg, rc_K8s = (kc \<noteq> None),
                             rc_Spool = Some sp, rc_Shipper = (shipper \<noteq> None),
                             rc_ShutdownTimeout = 0, rc_Libs = se_libs E\<rparr> shipper kc)))) of
                       Inl _ \<Rightarrow> (Exit 1, Some sp)
                     | Inr st \<Rightarrow> (st, Some sp)))))"

text \<open>The exit status after \<open>agent.Run\<close>; an error of the final drain is only a warning.\<close>

definition exit_status :: "'h agent \<Rightarrow> nat option" where
  "exit_status a =
     (case a_main a of
        Returned None \<Rightarrow> Some 0
      | Returned (Some e) \<Rightarrow> Some (if last (a_trace a) = Drained then 0 else 1)
      | _ \<Rightarrow> None)"

text \<open>\<open>main\<close>: the subcommand and its arguments.\<close>

definition subcommand :: "string list \<Rightarrow> string \<times> string list" where
  "subcommand args =
     (case args of
        [] \<Rightarrow> (''run'', [])
      | a # rest \<Rightarrow> if \<not> has_prefix a ''-'' then (a, rest) else (''run'', args))"

datatype command = RunCmd | SelftestCmd | VllmDumpCmd | VersionCmd | Unknown

definition dispatch :: "string list \<Rightarrow> command \<times> string list" where
  "dispatch args =
     (case subcommand args of (sub, rest) \<Rightarrow>
        (if sub = ''run'' then (RunCmd, rest)
         else if sub = ''selftest'' then (SelftestCmd, rest)
         else if sub = ''vllm-dump'' then (VllmDumpCmd, rest)
         else if sub = ''version'' then (VersionCmd, rest)
         else (Unknown, rest)))"

section \<open>Which addresses are accepted\<close>

lemma takeWhile_before: "c \<notin> set a \<Longrightarrow> takeWhile (\<lambda>x. x \<noteq> c) (a @ c # b) = a"
  by (induction a) auto

lemma first_index_split:
  "first_index s c = Some i \<longleftrightarrow> (\<exists>a b. s = a @ c # b \<and> c \<notin> set a \<and> length a = i)"
proof
  assume f: "first_index s c = Some i"
  then have "c \<in> set s" by (simp add: first_index_def split: if_splits)
  then obtain a b where s: "s = a @ c # b" "c \<notin> set a" by (metis split_list_first)
  with f s show "\<exists>a b. s = a @ c # b \<and> c \<notin> set a \<and> length a = i"
    by (auto simp: first_index_def takeWhile_before split: if_splits)
qed (auto simp: first_index_def takeWhile_before)

lemma last_index_split:
  "last_index s c = Some i \<longleftrightarrow> (\<exists>a b. s = a @ c # b \<and> c \<notin> set b \<and> length a = i)"
proof
  assume f: "last_index s c = Some i"
  then have "c \<in> set s" by (simp add: last_index_def split: if_splits)
  then obtain a b where s: "s = a @ c # b" "c \<notin> set b" by (metis split_list_last)
  with f s show "\<exists>a b. s = a @ c # b \<and> c \<notin> set b \<and> length a = i"
    using takeWhile_before [of c "rev b" "rev a"]
    by (auto simp: last_index_def split: if_splits)
next
  assume "\<exists>a b. s = a @ c # b \<and> c \<notin> set b \<and> length a = i"
  then obtain a b where s: "s = a @ c # b" "c \<notin> set b" "length a = i" by blast
  with takeWhile_before [of c "rev b" "rev a"] show "last_index s c = Some i"
    by (simp add: last_index_def)
qed

definition plain_part :: "string \<Rightarrow> bool" where
  "plain_part s \<longleftrightarrow> CHR ''['' \<notin> set s \<and> CHR '']'' \<notin> set s"

lemma split_host_port_Inr:
  assumes "split_host_port addr = Inr (h, p)"
  shows "CHR '':'' \<notin> set p \<and> plain_part p \<and> plain_part h
    \<and> (addr = h @ CHR '':'' # p \<and> CHR '':'' \<notin> set h \<or> addr = CHR ''['' # h @ CHR '']'' # CHR '':'' # p)"
proof -
  from assms obtain i where i: "last_index addr CHR '':'' = Some i"
    by (auto simp: split_host_port_def Let_def split: option.splits)
  then obtain a b where ab: "addr = a @ CHR '':'' # b" "CHR '':'' \<notin> set b" "length a = i"
    by (auto simp: last_index_split)
  show ?thesis
  proof (cases "hd addr = CHR ''[''")
    case True
    with assms i obtain e where e: "first_index addr CHR '']'' = Some e" "e + 1 = i"
      "h = drop 1 (take e addr)" "CHR ''['' \<notin> set (drop 1 addr)" "CHR '']'' \<notin> set (drop (e + 1) addr)"
      "p = drop (i + 1) addr"
      by (auto simp: split_host_port_def Let_def split: option.splits if_splits)
    from e(1) obtain c d where cd: "addr = c @ CHR '']'' # d" "CHR '']'' \<notin> set c" "length c = e"
      by (auto simp: first_index_split)
    have "a = c @ [CHR '']'']"
      using ab cd e(2) by (metis Suc_eq_plus1 append.assoc append_Cons append_Nil append_eq_append_conv
          length_append_singleton)
    moreover from this have "d = CHR '':'' # b" using ab(1) cd(1) by simp
    moreover obtain c' where "c = CHR ''['' # c'"
      using True cd(1) by (cases c) auto
    ultimately show ?thesis using ab cd e by (auto simp: plain_part_def)
  next
    case False
    with assms i ab show ?thesis
      by (auto simp: split_host_port_def Let_def plain_part_def split: if_splits)
  qed
qed

lemma split_host_port_plain:
  assumes "CHR '':'' \<notin> set p" "plain_part p" "plain_part h" "CHR '':'' \<notin> set h"
  shows "split_host_port (h @ CHR '':'' # p) = Inr (h, p)"
proof -
  have "last_index (h @ CHR '':'' # p) CHR '':'' = Some (length h)"
    using assms by (auto simp: last_index_split)
  moreover have "hd (h @ CHR '':'' # p) \<noteq> CHR ''[''"
    using assms(3) by (cases h) (auto simp: plain_part_def)
  ultimately show ?thesis
    using assms by (simp add: split_host_port_def Let_def plain_part_def)
qed

lemma split_host_port_bracket:
  assumes "CHR '':'' \<notin> set p" "plain_part p" "plain_part h"
  shows "split_host_port (CHR ''['' # h @ CHR '']'' # CHR '':'' # p) = Inr (h, p)"
proof -
  let ?a = "CHR ''['' # h @ CHR '']'' # CHR '':'' # p"
  have "last_index ?a CHR '':'' = Some (length h + 2)"
    unfolding last_index_split using assms(1)
    by (intro exI [of _ "CHR ''['' # h @ [CHR '']'']"] exI [of _ p]) simp
  moreover have "first_index ?a CHR '']'' = Some (length h + 1)"
    unfolding first_index_split using assms(3)
    by (intro exI [of _ "CHR ''['' # h"] exI [of _ "CHR '':'' # p"]) (simp add: plain_part_def)
  ultimately show ?thesis
    using assms by (simp add: split_host_port_def Let_def plain_part_def)
qed

text \<open>
  C34: The debug endpoint only ever binds to loopback. An address is accepted exactly when it is one
  of the three loopback hosts, bare (the two without a colon) or in brackets, followed by a colon
  and a non-empty port without colons and brackets. In particular an empty or wildcard host and
  every other name are refused.
\<close>

theorem validate_addr_exact:
  "validate_addr addr = None \<longleftrightarrow>
     (\<exists>h p. h \<in> set loopback_hosts \<and> p \<noteq> [] \<and> CHR '':'' \<notin> set p \<and> plain_part p
        \<and> (addr = h @ '':'' @ p \<and> h \<noteq> ''::1'' \<or> addr = ''['' @ h @ '']:'' @ p))"
  (is "_ \<longleftrightarrow> ?R")
proof
  assume "validate_addr addr = None"
  then obtain h p where h: "split_host_port addr = Inr (h, p)" "p \<noteq> []" "h \<in> set loopback_hosts"
    by (auto simp: validate_addr_def split: sum.splits prod.splits if_splits)
  from split_host_port_Inr [OF h(1)] h(2,3) show ?R
    by (intro exI [of _ h] exI [of _ p]) auto
next
  assume ?R
  then obtain h p where hp: "h \<in> set loopback_hosts" "p \<noteq> []" "CHR '':'' \<notin> set p" "plain_part p"
    "addr = h @ '':'' @ p \<and> h \<noteq> ''::1'' \<or> addr = ''['' @ h @ '']:'' @ p" by blast
  have "plain_part h \<and> (h \<noteq> ''::1'' \<longrightarrow> CHR '':'' \<notin> set h)"
    using hp(1) by (auto simp: loopback_hosts_def plain_part_def)
  with hp(3-5) have "split_host_port addr = Inr (h, p)"
    using split_host_port_plain split_host_port_bracket by auto
  with hp(1,2) show "validate_addr addr = None" by (simp add: validate_addr_def)
qed

section \<open>What a running agent was started with\<close>

lemma spool_open_opts:
  "spool_open opts s = (Inr (), t) \<Longrightarrow> site t = opt_Site opts \<and> host t = opt_Host opts
     \<and> max_bytes t = or_default (opt_MaxBytes opts) default_max_bytes"
  by (auto simp: spool_open_def bind_act_Inr upd_act_def)


text \<open>
  Intervals do not wrap up to 2305843009 seconds: then the interval and the period of every
  tier are the exact products, positive, and within what the jitter accepts.
\<close>

theorem intervals_exact:
  assumes "0 < s" and "s \<le> 2305843009" and "0 < src_tier src" and "src_tier src \<le> tier_slow"
    and "rc_Interval rc = interval_of s"
  shows "rc_Interval rc = s * second \<and> tick_interval rc src = s * second * int (src_tier src)
    \<and> 0 < jitter_range (tick_interval rc src)"
proof -
  have exact: "go_int64 x = x" if "0 \<le> x" "x < 2 ^ 63" for x
    using that by (simp add: go_int64_def signed_of_int signed_take_bit_int_eq_self)
  let ?p = "s * second * int (src_tier src)"
  have i: "rc_Interval rc = s * second"
    using assms by (simp add: interval_of_def exact second_def)
  have "s * second \<le> 2305843009 * second" using assms(2) by (simp add: second_def)
  then have "?p \<le> 2305843009 * second * 4"
    using assms(1,4) by (intro mult_mono) (simp_all add: second_def tier_slow_def)
  moreover have "0 < ?p" using assms(1,3) by (simp add: second_def)
  ultimately have "go_int64 ?p = ?p" "go_int64 (?p + 1) = ?p + 1"
    by (simp_all add: exact second_def)
  with i \<open>0 < ?p\<close> show ?thesis by (simp add: tick_interval_def jitter_range_def)
qed

text \<open>
  Beyond that bound, a slow tier makes the jitter panic, and larger values still wrap to a short
  interval that the agent accepts.
\<close>

lemma intervals_wrap:
  "jitter_range (go_int64 (interval_of 2305843010 * int tier_slow)) < 0"
  "interval_of 18446744074 = 290448384"
  by (simp_all add: jitter_range_def go_int64_def interval_of_def second_def tier_slow_def
      signed_of_int signed_take_bit_eq_take_bit_shift take_bit_int_def)

section \<open>Exit status\<close>

definition drained_last :: "'s source list \<Rightarrow> 's agent \<Rightarrow> bool" where
  "drained_last srcs a \<longleftrightarrow> clean srcs a \<and> (Drained \<in> set (a_trace a) \<longrightarrow> last (a_trace a) = Drained)"

lemma drained_last_step: "agent_step X srcs a b \<Longrightarrow> drained_last srcs a \<Longrightarrow> drained_last srcs b"
proof -
  assume st: "agent_step X srcs a b" and d: "drained_last srcs a"
  then have "clean srcs b" using clean_step by (auto simp: drained_last_def)
  moreover have "Drained \<in> set (a_trace b) \<longrightarrow> last (a_trace b) = Drained"
    using st d
  proof cases
    case (tick i envs h)
    then show ?thesis using d in_order_running [of srcs a i] by (auto simp: drained_last_def clean_def)
  next
    case (wrote i e es evs r sp)
    then show ?thesis using d in_order_running [of srcs a i] by (auto simp: drained_last_def clean_def)
  next
    case (close i c r h)
    then show ?thesis using d in_order_running [of srcs a i] by (auto simp: drained_last_def clean_def)
  qed (auto simp: drained_last_def clean_def in_order_def)
  ultimately show ?thesis by (simp add: drained_last_def)
qed

text \<open>
  The exit status of a finished run. It is 0 or 1; 1 exactly when sealing the last segment
  failed, before any drain; and with a shipper it is 0 only after the final drain, which either
  emptied the spool or is reported as incomplete.
\<close>

theorem exit_status_meaning:
  assumes "agent_reaches X srcs (agent_init h sp (length srcs) True) a" and "exit_status a = Some n"
  shows "n = 0 \<and> a_main a = Returned None \<and> seg_names (dir (a_spool a)) = []
    \<or> n = 0 \<and> Drained \<in> set (a_trace a) \<and> a_main a \<noteq> Returned None
    \<or> n = 1 \<and> Drained \<notin> set (a_trace a) \<and> a_main a \<noteq> Returned None"
proof -
  have "clean srcs (agent_init h sp (length srcs) True)"
    using in_order_init [of srcs h sp True] by (simp add: clean_def agent_init_def)
  then have "drained_last srcs (agent_init h sp (length srcs) True)"
    by (simp add: drained_last_def agent_init_def)
  with assms(1) have d: "drained_last srcs a"
    using drained_last_step by (rule reaches_inv [where P = "drained_last srcs"])
  then consider "a_main a = Returned None" "n = 0" | e where "a_main a = Returned (Some e)"
      "n = (if last (a_trace a) = Drained then 0 else 1)"
    using assms(2) by (auto simp: exit_status_def split: main_phase.splits option.splits)
  then show ?thesis
  proof cases
    case 1
    with clean_returned [OF assms(1)] show ?thesis by simp
  next
    case 2
    from d 2(1) have "a_trace a \<noteq> []"
      by (auto simp: drained_last_def clean_def in_order_def)
    with d 2 show ?thesis by (auto simp: drained_last_def split: if_splits dest: last_in_set)
  qed
qed

theorem exit_status_meaning_witness:
  "\<exists>a. exit_status a = Some 0 \<and> a_main (a :: unit agent) = Returned None \<and> seg_names (dir (a_spool a)) = []"
proof -
  obtain a where a: "agent_reaches demo_libs [] (agent_init () (demo_spool [(active_name, [])] 9 []) (length ([] :: unit source list)) True) a"
    "a_main a = Returned None"
    using idle_run by auto
  then have "exit_status a = Some 0" by (simp add: exit_status_def)
  with exit_status_meaning [OF a(1)] a show ?thesis by blast
qed


section \<open>A start\<close>

text \<open>A host whose configuration ships to one URL and has the debug endpoint on.\<close>

definition demo_config :: config where
  "demo_config = default_config
     \<lparr>cf_Site := ''s'', cf_Ship := \<lparr>shc_Mode = ''push'', shc_URL = ''https://i'', shc_TokenFile = []\<rparr>,
      cf_PprofAddr := ''localhost:6060''\<rparr>"

definition demo_start_env :: "(path \<times> string) start_env" where
  "demo_start_env =
     \<lparr>se_read = (\<lambda>p. Inr []), se_yaml = (\<lambda>b c. Inr demo_config), se_hostname = Inr ''h'',
      se_spool_at = (\<lambda>d. demo_spool [(active_name, ''old'')] 9 []), se_pem_ok = (\<lambda>p. True),
      se_listen = (\<lambda>a. None), se_now = 7, se_pods = [], se_libs = demo_libs_of\<rparr>"

lemma demo_open: "\<exists>t. spool_open opts (demo_spool [(active_name, ''old'')] 9 []) = (Inr (), t)"
proof -
  let ?s = "demo_spool [(active_name, ''old'')] 9 []"
  have "script ?s = []" "good_dir ?s"
    by (simp_all add: demo_spool_def good_dir_def content_of_def file_of_def active_name_def)
  from spool_open_quiet [OF this] show ?thesis by blast
qed

lemma demo_addr: "validate_addr ''localhost:6060'' = None"
proof -
  have "split_host_port (''localhost'' @ CHR '':'' # ''6060'') = Inr (''localhost'', ''6060'')"
    by (rule split_host_port_plain) (simp_all add: plain_part_def)
  then show ?thesis by (simp add: validate_addr_def loopback_hosts_def)
qed

lemma demo_starts:
  "\<exists>rc s. run_cmd demo_start_env ''c.yaml'' = (StartAgent rc (Some (''https://i'', [])) None, Some s)"
proof -
  let ?o = "\<lparr>opt_RotateBytes = 0, opt_RotateAge = 0, opt_MaxBytes = sc_MaxBytes (cf_Spool demo_config),
    opt_Site = cf_Site demo_config, opt_Host = ''h''\<rparr>"
  obtain t where "spool_open ?o (demo_spool [(active_name, ''old'')] 9 []) = (Inr (), t)"
    using demo_open by blast
  moreover have "cf_Ship demo_config = \<lparr>shc_Mode = ''push'', shc_URL = ''https://i'', shc_TokenFile = []\<rparr>"
    "kc_Enrich (cf_K8s demo_config) = False" "cf_PprofAddr demo_config = ''localhost:6060''"
    by (simp_all add: demo_config_def default_config_def)
  ultimately show ?thesis
    by (simp add: run_cmd_def config_load_def demo_start_env_def start_shipper_def read_token_def
        start_kubelet_def start_pprof_def pprof_listen_def demo_addr)
qed


theorem intervals_exact_witness:
  "\<exists>rc :: (path \<times> string) run_config.
     rc_Interval rc = 15 * second \<and> 0 < jitter_range (tick_interval rc demo_source)"
proof -
  let ?rc = "\<lparr>rc_Site = [], rc_Host = [], rc_Interval = interval_of 15,
    rc_Collectors = cf_Collectors default_config, rc_K8s = False, rc_Spool = None, rc_Shipper = False,
    rc_ShutdownTimeout = 0, rc_Libs = demo_libs_of\<rparr>"
  have i: "rc_Interval ?rc = interval_of 15" "0 < src_tier demo_source" "src_tier demo_source \<le> tier_slow"
    by (simp_all add: demo_source_def tier_slow_def)
  have lt: "(0 :: int) < 15" "(15 :: int) \<le> 2305843009" by simp_all
  note exact = intervals_exact [OF lt i(2,3,1)]
  show ?thesis
    by (intro exI [of _ ?rc] conjI) (rule conjunct1 [OF exact], rule conjunct2 [OF conjunct2 [OF exact]])
qed

end
