(* ===== verification/Selftest.thy ===== *)
theory Selftest
  imports DamonSession
begin

text \<open>
  \<open>internal/selftest\<close>: the capability matrix of a host and its verdict. \<open>err_text\<close> is
  \<open>err.Error()\<close>: what the operating system says about a failed access.
\<close>

section \<open>Checks\<close>

record check =
  c_Name :: string
  c_OK :: bool
  c_Detail :: string

record result =
  r_Checks :: "check list"
  r_Verdict :: string

definition host_mem_check_name :: string where
  "host_mem_check_name = ''host memory (/proc/meminfo)''"

definition em_dash :: string where
  "em_dash = [CHR 0xE2, CHR 0x80, CHR 0x94]"

definition host_mem_check :: "(err \<Rightarrow> string) \<Rightarrow> node \<Rightarrow> check" where
  "host_mem_check err_text proc =
     (case os_stat proc [''meminfo''] of
        Inl e \<Rightarrow> \<lparr>c_Name = host_mem_check_name, c_OK = False, c_Detail = err_text e\<rparr>
      | Inr _ \<Rightarrow> \<lparr>c_Name = host_mem_check_name, c_OK = True, c_Detail = []\<rparr>)"

definition kernel_check :: "(err \<Rightarrow> string) \<Rightarrow> node \<Rightarrow> check" where
  "kernel_check err_text proc =
     (case os_read_file proc [''sys'', ''kernel'', ''osrelease''] of
        Inl e \<Rightarrow> \<lparr>c_Name = ''kernel'', c_OK = False, c_Detail = err_text e\<rparr>
      | Inr b \<Rightarrow> \<lparr>c_Name = ''kernel '' @ trim_space b, c_OK = True, c_Detail = []\<rparr>)"

definition cgroup_v2_check :: "(err \<Rightarrow> string) \<Rightarrow> node \<Rightarrow> check" where
  "cgroup_v2_check err_text sys =
     (case os_stat sys [''fs'', ''cgroup'', ''cgroup.controllers''] of
        Inl e \<Rightarrow>
          if e = ErrNotExist
          then \<lparr>c_Name = ''cgroup v2 unified'', c_OK = False,
                c_Detail = ''cgroup v1 host '' @ em_dash @ '' host-level cgroup metrics only''\<rparr>
          else \<lparr>c_Name = ''cgroup v2 unified'', c_OK = False, c_Detail = err_text e\<rparr>
      | Inr _ \<Rightarrow> \<lparr>c_Name = ''cgroup v2 unified'', c_OK = True, c_Detail = []\<rparr>)"

definition psi_check :: "(err \<Rightarrow> string) \<Rightarrow> node \<Rightarrow> check" where
  "psi_check err_text proc =
     (case os_stat proc [''pressure'', ''memory''] of
        Inl e \<Rightarrow>
          if e = ErrNotExist
          then \<lparr>c_Name = ''PSI'', c_OK = False,
                c_Detail = ''PSI unavailable '' @ em_dash @ '' stranded estimate not computed''\<rparr>
          else \<lparr>c_Name = ''PSI'', c_OK = False, c_Detail = err_text e\<rparr>
      | Inr _ \<Rightarrow> \<lparr>c_Name = ''PSI'', c_OK = True, c_Detail = []\<rparr>)"

definition damon_absent_detail :: "bool \<Rightarrow> string" where
  "damon_absent_detail ok =
     (if ok then [] else ''DAMON unavailable '' @ em_dash @ '' cold-page estimate not computed'')"

definition tried_regions_detail :: "bool \<Rightarrow> string" where
  "tried_regions_detail ok =
     (if ok then []
      else ''kernel version suggests no full histogram mode; this check relies on the version string alone and can miss backported support (seen on RHEL-family kernels) ''
        @ em_dash @ '' the agent confirms real availability at startup'')"

definition damon_checks :: "(err \<Rightarrow> string) \<Rightarrow> node \<Rightarrow> node \<Rightarrow> check list" where
  "damon_checks err_text proc sys =
     (case detect_at proc sys of
        Inl e \<Rightarrow>
          [\<lparr>c_Name = ''DAMON sysfs'', c_OK = False, c_Detail = err_text e\<rparr>,
           \<lparr>c_Name = ''DAMON paddr'', c_OK = False, c_Detail = err_text e\<rparr>,
           \<lparr>c_Name = ''DAMON tried_regions (>=6.2)'', c_OK = False, c_Detail = err_text e\<rparr>]
      | Inr c \<Rightarrow>
          [\<lparr>c_Name = ''DAMON sysfs'', c_OK = sysfs c, c_Detail = damon_absent_detail (sysfs c)\<rparr>,
           \<lparr>c_Name = ''DAMON paddr'', c_OK = paddr c, c_Detail = damon_absent_detail (paddr c)\<rparr>,
           \<lparr>c_Name = ''DAMON tried_regions (>=6.2)'', c_OK = tried_regions c,
            c_Detail = tried_regions_detail (tried_regions c)\<rparr>])"

section \<open>The verdict\<close>

fun no_audit :: "check list \<Rightarrow> string option" where
  "no_audit [] = None"
| "no_audit (c # cs) =
     (if c_Name c = host_mem_check_name \<and> \<not> c_OK c
      then Some (''no useful audit possible: '' @ c_Detail c) else no_audit cs)"

definition verdict :: "check list \<Rightarrow> string" where
  "verdict checks =
     (case no_audit checks of
        Some v \<Rightarrow> v
      | None \<Rightarrow>
          let notes = map c_Detail
                (filter (\<lambda>c. \<not> c_OK c \<and> c_Name c \<noteq> host_mem_check_name) checks)
          in if notes = [] then ''sampling mode available''
             else ''sampling mode available ('' @ join ''; '' notes @ '')'')"

definition selftest_run :: "(err \<Rightarrow> string) \<Rightarrow> node \<Rightarrow> node \<Rightarrow> result" where
  "selftest_run err_text proc sys =
     (let checks =
        [host_mem_check err_text proc, kernel_check err_text proc, cgroup_v2_check err_text sys,
         psi_check err_text proc] @ damon_checks err_text proc sys
      in \<lparr>r_Checks = checks, r_Verdict = verdict checks\<rparr>)"

fun failed_in :: "check list \<Rightarrow> bool" where
  "failed_in [] = False"
| "failed_in (c # cs) = (if c_Name c = host_mem_check_name then \<not> c_OK c else failed_in cs)"

definition failed :: "result \<Rightarrow> bool" where
  "failed r = failed_in (r_Checks r)"

definition selftest_exit :: "(err \<Rightarrow> string) \<Rightarrow> node \<Rightarrow> node \<Rightarrow> nat" where
  "selftest_exit err_text proc sys = (if failed (selftest_run err_text proc sys) then 1 else 0)"

section \<open>The printed matrix\<close>

definition matrix_width :: nat where
  "matrix_width = 40"

definition check_status :: "check \<Rightarrow> string" where
  "check_status c =
     (if c_OK c then ''OK'' else if c_Detail c \<noteq> [] then ''FAIL: '' @ c_Detail c else ''FAIL'')"

text \<open>The padding is an \<open>int\<close> in the code: at least one dot, whatever the name's length.\<close>

definition check_line :: "check \<Rightarrow> string" where
  "check_line c =
     (let pad = int matrix_width - int (length (c_Name c)) - 1;
          pad = (if pad < 1 then 1 else pad)
      in c_Name c @ '' '' @ replicate (nat pad) CHR ''.'' @ '' '' @ check_status c @ [newline])"

definition result_string :: "result \<Rightarrow> string" where
  "result_string r = concat (map check_line (r_Checks r)) @ ''verdict: '' @ r_Verdict r @ [newline]"

section \<open>Properties\<close>

definition failed_notes :: "check list \<Rightarrow> string list" where
  "failed_notes checks = map c_Detail (filter (\<lambda>c. \<not> c_OK c) checks)"

lemma damon_names: "c \<in> set (damon_checks f proc sys) \<Longrightarrow> c_Name c \<noteq> host_mem_check_name"
  by (auto simp: damon_checks_def host_mem_check_name_def split: sum.splits)

lemma other_names:
  "c_Name (kernel_check f proc) \<noteq> host_mem_check_name"
  "c_Name (cgroup_v2_check f sys) \<noteq> host_mem_check_name"
  "c_Name (psi_check f proc) \<noteq> host_mem_check_name"
  by (auto simp: kernel_check_def cgroup_v2_check_def psi_check_def host_mem_check_name_def split: sum.splits)

lemma no_audit_others:
  "(\<And>c. c \<in> set cs \<Longrightarrow> c_Name c \<noteq> host_mem_check_name) \<Longrightarrow> no_audit cs = None"
  by (induction cs) auto

lemma host_mem_check_simps:
  "c_Name (host_mem_check f proc) = host_mem_check_name"
  "c_OK (host_mem_check f proc) \<longleftrightarrow> (\<exists>u. os_stat proc [''meminfo''] = Inr u)"
  "os_stat proc [''meminfo''] = Inl e \<Longrightarrow> c_Detail (host_mem_check f proc) = f e"
  by (auto simp: host_mem_check_def split: sum.splits)

text \<open>
  The self-test fails, with exit status 1, exactly when \<open>/proc/meminfo\<close> cannot be accessed, and
  then the verdict says so with the system's message. Every other missing capability leaves the
  status 0, and the verdict is \<open>sampling mode available\<close> followed by the details of the failed
  checks, each of them, in the order of the matrix.
\<close>

theorem selftest_verdict:
  "case os_stat proc [''meminfo''] of
     Inl e \<Rightarrow> selftest_exit f proc sys = 1
       \<and> r_Verdict (selftest_run f proc sys) = ''no useful audit possible: '' @ f e
   | Inr _ \<Rightarrow> selftest_exit f proc sys = 0
       \<and> (let notes = failed_notes (r_Checks (selftest_run f proc sys))
          in r_Verdict (selftest_run f proc sys) = ''sampling mode available''
               @ (if notes = [] then [] else '' ('' @ join ''; '' notes @ '')''))"
proof (cases "os_stat proc [''meminfo'']")
  case (Inl e)
  then show ?thesis
    by (simp add: selftest_exit_def failed_def selftest_run_def verdict_def host_mem_check_simps)
next
  case (Inr u)
  let ?rest = "[kernel_check f proc, cgroup_v2_check f sys, psi_check f proc] @ damon_checks f proc sys"
  have names: "c \<in> set ?rest \<Longrightarrow> c_Name c \<noteq> host_mem_check_name" for c
    using other_names damon_names by auto
  then have "no_audit ?rest = None" by (rule no_audit_others)
  moreover have "filter (\<lambda>c. \<not> c_OK c \<and> c_Name c \<noteq> host_mem_check_name) ?rest = filter (\<lambda>c. \<not> c_OK c) ?rest"
    using names by (intro filter_cong) auto
  ultimately have "verdict (host_mem_check f proc # ?rest) = (let notes = failed_notes (host_mem_check f proc # ?rest)
      in ''sampling mode available'' @ (if notes = [] then [] else '' ('' @ join ''; '' notes @ '')''))"
    using Inr by (simp add: verdict_def failed_notes_def host_mem_check_simps Let_def del: append_Cons append_Nil)
  then show ?thesis
    using Inr by (simp add: selftest_exit_def failed_def selftest_run_def host_mem_check_simps Let_def)
qed

text \<open>
  The matrix is aligned: every row whose check has a name of at most 38 bytes has its status
  from the 42nd byte on, and a longer name is still followed by one dot and the status.
\<close>

theorem check_line_aligned:
  "drop (max 41 (length (c_Name c) + 3)) (check_line c) = check_status c @ [newline]"
proof -
  let ?k = "nat (if int matrix_width - int (length (c_Name c)) - 1 < 1 then 1
                 else int matrix_width - int (length (c_Name c)) - 1)"
  have "check_line c = (c_Name c @ '' '' @ replicate ?k CHR ''.'' @ '' '') @ check_status c @ [newline]"
    by (simp add: check_line_def Let_def)
  moreover have "length (c_Name c @ '' '' @ replicate ?k CHR ''.'' @ '' '') = max 41 (length (c_Name c) + 3)"
    by (simp add: matrix_width_def) linarith
  ultimately show ?thesis by (metis append_eq_conv_conj)
qed

end
