(* ===== verification/AgentQueue.thy ===== *)
theory AgentQueue
  imports AgentProps
begin

text \<open>
  The agent end to end, when nothing fails: the interleaving of its goroutines implements one
  first-in first-out queue of bytes. Every write of every source appends its line, the shipper
  takes whole segments from the front, and nothing else changes the queue.
\<close>

section \<open>Runs in which nothing fails\<close>

primrec lines_of :: "libs \<Rightarrow> obs list \<Rightarrow> string" where
  "lines_of X [] = []"
| "lines_of X (x # xs) =
     (case x of
        Wrote i e \<Rightarrow> (case marshal_envelope (json_codec X) e of Inl _ \<Rightarrow> [] | Inr b \<Rightarrow> b @ [newline])
      | _ \<Rightarrow> []) @ lines_of X xs"

lemma lines_of_append [simp]: "lines_of X (xs @ ys) = lines_of X xs @ lines_of X ys"
  by (induction xs) simp_all

text \<open>
  The steps of the agent whose system calls succeed and whose writes find room. The label lists the
  segments that leave the spool: the shipper takes the oldest first (\<open>ShipProps\<close>), and the
  final drain takes all of them when the endpoint gives each its final reply.
\<close>

inductive calm_step :: "libs \<Rightarrow> 'h source list \<Rightarrow> 'h agent \<Rightarrow> string list \<Rightarrow> 'h agent \<Rightarrow> bool"
  for X :: libs and srcs :: "'h source list" where
  other: "agent_step X srcs a b \<Longrightarrow> a_spool b = a_spool a \<Longrightarrow> a_main b = a_main a
    \<Longrightarrow> lines_of X (a_trace b) = lines_of X (a_trace a) \<Longrightarrow> calm_step X srcs a [] b"
| time: "calm_step X srcs a [] (a\<lparr>a_host := h, a_spool := (a_spool a)\<lparr>clock := clock (a_spool a) + int d\<rparr>\<rparr>)"
| wrote: "i < length (a_phases a) \<Longrightarrow> a_phases a ! i = Locked e es
    \<Longrightarrow> marshal_envelope (json_codec X) e = Inr b \<Longrightarrow> roomy X (a_spool a) (b @ [newline])
    \<Longrightarrow> spool_write X e ((a_spool a)\<lparr>script := []\<rparr>) = (r, sp)
    \<Longrightarrow> calm_step X srcs a [] (a\<lparr>a_spool := sp, a_phases := (a_phases a)[i := Written es],
          a_trace := a_trace a @ [Wrote i e]\<rparr>)"
| remove: "a_ship a = Draining \<Longrightarrow> seg_names (dir (a_spool a)) = n # ns
    \<Longrightarrow> calm_step X srcs a [content_of (a_spool a) n] (a\<lparr>a_spool := del_file n (a_spool a)\<rparr>)"
| flush: "a_main a = Waiting \<Longrightarrow> workers_done a
    \<Longrightarrow> seg_total (a_spool a) + int (length (zenc X (active_of (a_spool a)))) \<le> max_bytes (a_spool a)
    \<Longrightarrow> spool_close X ((a_spool a)\<lparr>script := []\<rparr>) = (Inr (), sp)
    \<Longrightarrow> calm_step X srcs a [] (a\<lparr>a_spool := sp,
          a_main := (if a_ship a = NoShipper then Returned None else Flushed),
          a_trace := a_trace a @ [SpoolClosed]\<rparr>)"
| drain: "a_main a = Flushed \<Longrightarrow> same_world sh (a_spool a) \<Longrightarrow> script sh = [] \<Longrightarrow> url_ok sh
    \<Longrightarrow> length qs = length (seg_names (dir (a_spool a))) \<Longrightarrow> list_all round_ok qs
    \<Longrightarrow> replies sh = concat (map round_replies qs) @ rest \<Longrightarrow> total_failures qs \<le> patience sh
    \<Longrightarrow> run_ship 2 segments sh = Some (Inr (), sh')
    \<Longrightarrow> calm_step X srcs a (map (content_of (a_spool a)) (seg_names (dir (a_spool a))))
          (a\<lparr>a_spool := with_world sh' (a_spool a), a_main := Returned None,
             a_trace := a_trace a @ [Drained]\<rparr>)"

inductive calm_run :: "libs \<Rightarrow> 'h source list \<Rightarrow> 'h agent \<Rightarrow> string list \<Rightarrow> 'h agent \<Rightarrow> bool"
  for X :: libs and srcs :: "'h source list" and a :: "'h agent" where
  here: "calm_run X srcs a [] a"
| more: "calm_run X srcs a sent b \<Longrightarrow> calm_step X srcs b z c \<Longrightarrow> calm_run X srcs a (sent @ z) c"

lemma calm_is_step: "calm_step X srcs a z b \<Longrightarrow> agent_step X srcs a b"
proof (induction rule: calm_step.induct)
  case (time a h d)
  show ?case by (rule agent_step.elapse)
next
  case (wrote i a e es b r sp)
  show ?case by (rule agent_step.wrote [OF wrote(1,2) _ wrote(5)]) (simp add: script_allowed_def)
next
  case (remove a n ns)
  then have "n \<in> set (seg_names (dir (a_spool a)))" by simp
  then have "is_seg n" by (simp add: set_seg_names_file)
  with remove show ?case by (intro agent_step.ship_remove)
next
  case (flush a sp)
  from agent_step.flush [OF flush(1,2) _ flush(4)] show ?case by (simp add: script_allowed_def)
next
  case (drain a sh qs rest sh')
  from agent_step.drain [OF drain(1,2) _ drain(9)] show ?case
    using drain(3) by (simp add: script_allowed_def)
qed

section \<open>The queue\<close>

lemma content_of_del_seg [simp]: "is_seg n \<Longrightarrow> content_of (del_file n s) active_name = content_of s active_name"
  by (simp add: content_of_def)

lemma seg_names_del:
  assumes "good_dir s" and "seg_names (dir s) = n # ns"
  shows "seg_names (dir (del_file n s)) = ns"
proof (rule seg_names_eqI)
  show "good_dir (del_file n s)"
    using assms(1) by (simp add: good_dir_def del_file_def distinct_delete)
  have "sorted (seg_names (dir s))" by (simp add: seg_names_def)
  then show "sorted ns" using assms(2) by simp
  have d: "distinct (n # ns)" using distinct_seg_names [OF assms(1)] assms(2) by simp
  then show "distinct ns" by simp
  show "m \<in> set ns \<longleftrightarrow> is_seg m \<and> file_of (del_file n s) m \<noteq> None" for m
    using d set_seg_names_file [of s] assms(2) by (cases "m = n") auto
qed

lemma queue_del:
  assumes "good_dir s" and "seg_names (dir s) = n # ns"
  shows "queue D s = D (content_of s n) @ queue D (del_file n s)"
proof -
  have "n \<in> set (seg_names (dir s))" using assms(2) by simp
  then have seg: "is_seg n" by (simp add: set_seg_names_file)
  have "n \<notin> set ns" using distinct_seg_names [OF assms(1)] assms(2) by simp
  then have same: "map (\<lambda>m. D (content_of (del_file n s) m)) ns = map (\<lambda>m. D (content_of s m)) ns"
    by (auto simp: content_of_def)
  show ?thesis
    unfolding queue_def assms(2) seg_names_del [OF assms] content_of_del_seg [OF seg] same
    by (simp only: list.map concat.simps append_assoc)
qed

lemma ready_del:
  assumes "ready X s" and "seg_names (dir s) = n # ns"
  shows "ready X (del_file n s)"
proof -
  have g: "good_dir s" using assms(1) by (simp add: ready_def)
  have "n \<in> set (seg_names (dir s))" using assms(2) by simp
  then have "n \<noteq> active_name" by (auto simp: set_seg_names_file)
  then have "file_of (del_file n s) active_name = file_of s active_name" by simp
  moreover have "good_dir (del_file n s)" using g by (simp add: good_dir_def del_file_def distinct_delete)
  moreover have "fresh_ids X (del_file n s)"
    using assms unfolding ready_def fresh_ids_def seg_names_del [OF g assms(2)]
    by (simp add: del_file_def)
  ultimately show ?thesis using assms(1) by (simp add: ready_def)
qed


section \<open>The simulation\<close>

text \<open>
  What holds of the spool in each phase of the main goroutine: it can be written to exactly while
  sources run, its active file is empty after the flush, and the drain leaves nothing.
\<close>

definition calm_state :: "libs \<Rightarrow> (string \<Rightarrow> string) \<Rightarrow> 'h agent \<Rightarrow> bool" where
  "calm_state X D a \<longleftrightarrow>
     (case a_main a of
        Waiting \<Rightarrow> ready X (a_spool a) \<and> size_exact (a_spool a)
      | Flushed \<Rightarrow> good_dir (a_spool a) \<and> active_of (a_spool a) = []
      | Returned r \<Rightarrow> a_ship a = NoShipper \<or> queue D (a_spool a) = [])"

lemma ready_clock [simp]: "ready X (s\<lparr>clock := t\<rparr>) = ready X s"
  by (simp add: ready_def good_dir_def fresh_ids_def)

lemma queue_clock [simp]: "queue D (s\<lparr>clock := t\<rparr>) = queue D s"
  by (simp add: queue_def content_of_def file_of_def)

lemma size_exact_clock [simp]: "size_exact (s\<lparr>clock := t\<rparr>) = size_exact s"
  by (simp add: size_exact_def reliable_def content_of_def file_of_def)

lemma size_exact_del: "is_seg n \<Longrightarrow> size_exact (del_file n s) = size_exact s"
  by (simp add: size_exact_def reliable_def)

lemma script_ready: "ready X s \<Longrightarrow> s\<lparr>script := []\<rparr> = s"
  by (simp add: ready_def)

lemma same_world_dir: "same_world w s \<Longrightarrow> dir w = dir s"
proof -
  assume "same_world w s"
  then have "dir (with_world w s) = dir (s\<lparr>script := script w\<rparr>)" by (simp add: same_world_def)
  then show ?thesis by (simp add: with_world_def)
qed

lemma calm_step_flows:
  assumes "calm_step X srcs a z b" and io: "in_order srcs a" and st: "calm_state X D a"
    and D: "\<And>raw. D (zenc X raw) = raw"
  shows "\<exists>new. calm_state X D b \<and> lines_of X (a_trace b) = lines_of X (a_trace a) @ new
    \<and> queue D (a_spool a) @ new = concat (map D z) @ queue D (a_spool b)"
  using assms(1)
proof cases
  case other
  have ship: "a_main a \<noteq> Waiting \<Longrightarrow> a_ship b = NoShipper \<longleftrightarrow> a_ship a = NoShipper"
    using other(2) io by cases (auto simp: in_order_def workers_done_def)
  show ?thesis
    using other st ship by (intro exI [of _ "[]"]) (auto simp: calm_state_def split: main_phase.splits)
next
  case (time h d)
  then show ?thesis
    using st by (auto simp: calm_state_def good_dir_def content_of_def file_of_def split: main_phase.splits)
next
  case (wrote i e es l r sp)
  have w: "a_main a = Waiting" using in_order_running [OF io wrote(3)] wrote(4) by simp
  then have rd: "ready X (a_spool a)" "size_exact (a_spool a)" using st by (simp_all add: calm_state_def)
  note run = wrote(7) [unfolded script_ready [OF rd(1)]]
  from spool_write_ready [OF rd(1) D wrote(5,6)] run have t: "ready X sp" "queue D sp = queue D (a_spool a) @ l @ [newline]"
    by simp_all
  have "size_exact sp" by (rule keeps_run [OF keeps_sized_write(2) run rd(2)])
  then show ?thesis
    using wrote t w by (intro exI [of _ "l @ [newline]"]) (simp add: calm_state_def)
next
  case (remove n ns)
  have w: "a_main a = Waiting" using io remove(3) by (auto simp: in_order_def workers_done_def)
  then have rd: "ready X (a_spool a)" "size_exact (a_spool a)" using st by (simp_all add: calm_state_def)
  then have g: "good_dir (a_spool a)" by (simp add: ready_def)
  have "n \<in> set (seg_names (dir (a_spool a)))" using remove(4) by simp
  then have "is_seg n" by (simp add: set_seg_names_file)
  then show ?thesis
    using remove w rd ready_del [OF rd(1) remove(4)] queue_del [OF g remove(4), of D]
    by (intro exI [of _ "[]"]) (simp add: calm_state_def size_exact_del)
next
  case (flush sp)
  have rd: "ready X (a_spool a)" "size_exact (a_spool a)" using st flush(3) by (simp_all add: calm_state_def)
  note run = flush(6) [unfolded script_ready [OF rd(1)]]
  from spool_close_ready [OF rd(1) D rd(2) flush(5)] run have
    "queue D sp = queue D (a_spool a)" "active_of sp = []" "good_dir sp" by auto
  with flush show ?thesis by (intro exI [of _ "[]"]) (auto simp: calm_state_def)
next
  case (drain sh qs rest sh')
  have fl: "good_dir (a_spool a)" "active_of (a_spool a) = []" using st drain(3) by (simp_all add: calm_state_def)
  have d: "dir sh = dir (a_spool a)" by (rule same_world_dir [OF drain(4)])
  then have f: "file_of sh n = file_of (a_spool a) n" for n by (simp add: file_of_def)
  have "good_dir sh" using fl(1) d by (simp add: good_dir_def)
  from spool_lister.run_drains_store [OF drain(5) this drain(6) quiet_calls(1) [OF drain(5)], of qs rest]
  have gone: "file_of sh' n = (if is_seg n then None else file_of sh n)" for n
    using drain(7-11) d by auto
  then have "set (seg_names (dir sh')) = {}"
    unfolding set_seg_names_file by auto
  then have "seg_names (dir sh') = []" by simp
  moreover have "content_of (with_world sh' (a_spool a)) active_name = []"
    using fl(2) f gone by (simp add: content_of_def)
  ultimately have "queue D (with_world sh' (a_spool a)) = []"
    by (simp add: queue_def with_world_def)
  moreover have "queue D (a_spool a) = concat (map D z)"
    using drain(1) fl(2) by (simp add: queue_def comp_def)
  ultimately show ?thesis
    using drain(2) by (intro exI [of _ "[]"]) (simp add: calm_state_def)
qed


lemma calm_run_flows:
  assumes "calm_run X srcs a sent b" and "in_order srcs a" and "calm_state X D a"
    and D: "\<And>raw. D (zenc X raw) = raw"
  shows "in_order srcs b \<and> calm_state X D b \<and>
    (\<exists>new. lines_of X (a_trace b) = lines_of X (a_trace a) @ new
      \<and> queue D (a_spool a) @ new = concat (map D sent) @ queue D (a_spool b))"
  using assms(1-3)
proof (induction rule: calm_run.induct)
  case (more sent b z c)
  then obtain new where b: "in_order srcs b" "calm_state X D b" "lines_of X (a_trace b) = lines_of X (a_trace a) @ new"
    "queue D (a_spool a) @ new = concat (map D sent) @ queue D (a_spool b)" by blast
  from calm_step_flows [OF more(2) b(1,2) D] obtain new' where c: "calm_state X D c"
    "lines_of X (a_trace c) = lines_of X (a_trace b) @ new'"
    "queue D (a_spool b) @ new' = concat (map D z) @ queue D (a_spool c)" by blast
  have "in_order srcs c" by (rule in_order_step [OF calm_is_step [OF more(2)] b(1)])
  moreover have "queue D (a_spool a) @ new @ new' = concat (map D (sent @ z)) @ queue D (a_spool c)"
  proof -
    have "queue D (a_spool a) @ new @ new' = concat (map D sent) @ queue D (a_spool b) @ new'"
      using b(4) by (metis append.assoc)
    then show ?thesis using c(3) by simp
  qed
  ultimately show ?case using b(3) c(1,2) by auto
qed simp

lemma calm_run_reaches: "calm_run X srcs a sent b \<Longrightarrow> agent_reaches X srcs a b"
  by (induction rule: calm_run.induct) (auto intro: agent_reaches.intros calm_is_step)



lemma demo_calm_run:
  "\<exists>b a. marshal_envelope (json_codec demo_libs) demo_envelope = Inr b
     \<and> calm_run demo_libs [demo_source] demo_start [] a
     \<and> a_trace a = [Collected 0 [demo_envelope], Wrote 0 demo_envelope]"
proof -
  obtain b where b: "marshal_envelope (json_codec demo_libs) demo_envelope = Inr b"
    "roomy demo_libs (demo_spool [(active_name, ''old'')] 1000 []) (b @ [newline])"
    using demo_line by blast
  have c: "src_collect ([demo_source] ! 0) (a_host demo_start) = (Inr [demo_envelope], ())"
    by (simp add: demo_source_def ret_def)
  have i: "0 < length [demo_source]" "0 < length (a_phases demo_start)" "a_phases demo_start ! 0 = Idle"
    by (simp_all add: demo_start_def agent_init_def)
  let ?a1 = "demo_start\<lparr>a_host := (), a_phases := (a_phases demo_start)[0 := Emitting [demo_envelope]],
    a_trace := a_trace demo_start @ [Collected 0 [demo_envelope]]\<rparr>"
  let ?a2 = "?a1\<lparr>a_phases := (a_phases ?a1)[0 := Locked demo_envelope []], a_mutex := Some 0\<rparr>"
  have s1: "calm_step demo_libs [demo_source] demo_start [] ?a1"
    by (rule calm_step.other [OF agent_step.tick [OF i c]]) simp_all
  have s2: "calm_step demo_libs [demo_source] ?a1 [] ?a2"
    by (rule calm_step.other [OF agent_step.lock]) (simp_all add: demo_start_def agent_init_def)
  obtain r sp where w: "spool_write demo_libs demo_envelope ((a_spool ?a2)\<lparr>script := []\<rparr>) = (r, sp)" by fastforce
  let ?a3 = "?a2\<lparr>a_spool := sp, a_phases := (a_phases ?a2)[0 := Written []],
      a_trace := a_trace ?a2 @ [Wrote 0 demo_envelope]\<rparr>"
  have s3: "calm_step demo_libs [demo_source] ?a2 [] ?a3"
    by (rule calm_step.wrote [OF _ _ b(1) _ w]) (use b(2) i(2) in \<open>simp_all add: demo_start_def agent_init_def\<close>)
  have "a_trace ?a3 = [Collected 0 [demo_envelope], Wrote 0 demo_envelope]"
    by (simp add: demo_start_def agent_init_def)
  moreover have "calm_run demo_libs [demo_source] demo_start [] ?a3"
    using calm_run.more [OF calm_run.more [OF calm_run.more [OF calm_run.here s1] s2] s3] by simp
  ultimately show ?thesis using b(1) by blast
qed


end
