(* ===== verification/SpoolLoss.thy ===== *)
theory SpoolLoss
  imports SpoolProps "HOL-Library.Sublist"
begin

text \<open>
  What a write does to the bytes the spool holds when system calls fail: as long as the cap leaves
  room, none is lost, whatever fails and whenever the shipper runs.
\<close>

section \<open>A cap with room evicts nothing\<close>

lemma keeps_untouched_listing:
  "keeps (untouched s) segments" "keeps (untouched s) (stat_file n)"
  unfolding sys_defs
  by (rule keeps_syscall; (erule untouched_env)?;
      auto simp: keeps_def act_defs untouched_def ships_def split: option.split)+

lemma keeps_untouched_total: "keeps (untouched s) (stat_total ps tot)"
  by (induction ps arbitrary: tot) (auto intro!: keeps_intros keeps_untouched_listing)

lemma stat_file_env: "stat_file n s = (r, t) \<Longrightarrow> t = snd (env_step s)"
  by (auto simp: stat_file_def syscall_def act_defs split: prod.splits option.splits)

lemma stat_total_le:
  assumes "stat_total ps tot s = (Inr k, t)" and "\<forall>n \<in> set ps. is_seg n"
  shows "k \<le> tot + sum_list (map (\<lambda>n. int (length (content_of s n))) ps)"
  using assms
proof (induction ps arbitrary: tot s)
  case (Cons p ps)
  from Cons.prems(1) obtain r u where st: "stat_file p s = (r, u)"
    and rest: "(case r of Inl e \<Rightarrow> if e = ErrNotExist then stat_total ps tot else fail e
       | Inr n \<Rightarrow> stat_total ps (tot + n)) u = (Inr k, t)"
    by (auto simp: bind_act_Inr)
  have fades: "fades s u" using stat_file_env [OF st] fades_env [OF fades_refl] by simp
  have p: "is_seg p" using Cons.prems(2) by simp
  have less: "sum_list (map (\<lambda>n. int (length (content_of u n))) ps)
      \<le> sum_list (map (\<lambda>n. int (length (content_of s n))) ps)"
    using Cons.prems(2) fades_content_length [OF fades] by (intro sum_list_mono) simp
  show ?case
  proof (cases r)
    case (Inl e)
    with rest have "stat_total ps tot u = (Inr k, t)" by (auto split: if_splits)
    from Cons.IH [OF this] Cons.prems(2) less show ?thesis by simp
  next
    case (Inr n)
    with rest have "stat_total ps (tot + n) u = (Inr k, t)" by simp
    moreover have "n = int (length (content_of u p))" using stat_file_Inr st Inr by blast
    then have "n \<le> int (length (content_of s p))" using fades_content_length [OF fades p] by simp
    ultimately show ?thesis using Cons.IH [of "tot + n" u] Cons.prems(2) less by simp
  qed
qed simp

lemma seg_total_mono: "fades s t \<Longrightarrow> good_dir s \<Longrightarrow> good_dir t \<Longrightarrow> seg_total t \<le> seg_total s"
proof -
  assume a: "fades s t" "good_dir s" "good_dir t"
  have "sum_list (map (\<lambda>n. int (length (content_of t n))) (seg_names (dir s))) \<le> seg_total s"
    unfolding seg_total_def
    by (rule sum_list_mono) (use fades_content_length [OF a(1)] in \<open>auto simp: set_seg_names\<close>)
  with seg_total_fades [OF a] show ?thesis by linarith
qed

lemma untouched_fades: "untouched s t \<Longrightarrow> fades s t"
  by (auto simp: untouched_def ships_def fades_def)

lemma cap_iter_roomy:
  assumes "cap_iter X s = (r, t)" and "good_dir s" and "seg_total s \<le> max_bytes s"
  shows "untouched s t \<and> r \<noteq> Inr False"
proof -
  obtain q s1 where l: "segments s = (q, s1)" by fastforce
  have u1: "untouched s s1" by (rule keeps_run [OF keeps_untouched_listing(1) l untouched_refl])
  show ?thesis
  proof (cases q)
    case (Inl e)
    with l u1 assms(1) show ?thesis by (auto simp: cap_iter_def bind_act_def)
  next
    case (Inr segs)
    have segs: "segs = seg_names (dir s1)" "s1 = snd (env_step s)"
      using segments_Inr l Inr by blast+
    have g1: "good_dir s1" by (rule keeps_run [OF keeps_good_dir(1) l assms(2)])
    have m: "max_bytes s1 = max_bytes s"
      using keeps_run [OF keeps_same_config(1) l same_config_refl] by (simp add: same_config_def)
    obtain p s2 where st: "stat_total segs 0 s1 = (p, s2)" by fastforce
    have u2: "untouched s s2" by (rule keeps_run [OF keeps_untouched_total st u1])
    have m2: "max_bytes s2 = max_bytes s"
      using keeps_run [OF keeps_config_stat_total st, of s1] m by (simp add: same_config_def)
    have le: "k \<le> max_bytes s2" if "p = Inr k" for k
    proof -
      have "k \<le> seg_total s1"
        using stat_total_le [OF st [unfolded that]] segs(1) by (simp add: seg_total_def set_seg_names)
      with seg_total_mono [OF untouched_fades [OF u1] assms(2) g1] assms(3) m2 show ?thesis by simp
    qed
    show ?thesis
      using l Inr st u1 u2 le assms(1)
      by (cases p; cases "segs = []") (auto simp: cap_iter_def bind_act_def act_defs)
  qed
qed

lemma enforce_cap_roomy:
  assumes "enforce_cap X s = (r, t)" and "good_dir s" and "seg_total s \<le> max_bytes s"
  shows "untouched s t"
proof -
  obtain q u where c: "cap_iter X s = (q, u)" by fastforce
  from cap_iter_roomy [OF c assms(2,3)] have "untouched s u" "q \<noteq> Inr False" by simp_all
  with assms(1) c show ?thesis by (auto simp: enforce_cap.simps [of X s] split: sum.splits)
qed

section \<open>Bytes that move to segments\<close>

text \<open>
  \<open>G\<close> are the names the shipper takes. \<open>stored\<close>: the segment with id \<open>j\<close> holds \<open>c\<close>, or the shipper has
  taken it. \<open>spared\<close>: every segment of \<open>s\<close> is as it was, or the shipper has taken it. \<open>agrees\<close>: \<open>L\<close>
  says what each segment holds. \<open>named\<close>: and it knows no name that is still to come. \<open>names\<close>: such an
  \<open>L\<close> of \<open>s\<close> extends to one of \<open>t\<close> that says what the new segments \<open>cs\<close> were sealed with, so that no
  name is ever used for two contents. \<open>moved\<close>: the active file followed by \<open>extra\<close> is what new
  segments, in the order of their ids, followed by the active file, hold now.
\<close>

definition stored :: "libs \<Rightarrow> string set \<Rightarrow> spool \<Rightarrow> nat \<times> string \<Rightarrow> bool" where
  "stored X G t jc \<longleftrightarrow>
     file_of t (seg_name X (fst jc)) = Some (zenc X (snd jc)) \<or> seg_name X (fst jc) \<in> G"

definition spared :: "string set \<Rightarrow> spool \<Rightarrow> spool \<Rightarrow> bool" where
  "spared G s t \<longleftrightarrow> (\<forall>n c. is_seg n \<longrightarrow> file_of s n = Some c \<longrightarrow>
     file_of t n = Some c \<or> n \<in> G)"

definition agrees :: "(string \<Rightarrow> string option) \<Rightarrow> 'z world_scheme \<Rightarrow> bool" where
  "agrees L s \<longleftrightarrow> (\<forall>n c. is_seg n \<longrightarrow> file_of s n = Some c \<longrightarrow> L n = Some c)"

definition named :: "libs \<Rightarrow> (string \<Rightarrow> string option) \<Rightarrow> 'z world_scheme \<Rightarrow> bool" where
  "named X L s \<longleftrightarrow> agrees L s \<and> (\<forall>n k. L n \<noteq> None \<longrightarrow> minted s \<le> k \<longrightarrow> n < seg_name X k)"

definition recorded :: "libs \<Rightarrow> (string \<Rightarrow> string option) \<Rightarrow> (nat \<times> string) list \<Rightarrow> bool" where
  "recorded X L cs \<longleftrightarrow> list_all (\<lambda>jc. L (seg_name X (fst jc)) = Some (zenc X (snd jc))) cs"

definition names :: "libs \<Rightarrow> spool \<Rightarrow> spool \<Rightarrow> (nat \<times> string) list \<Rightarrow> bool" where
  "names X s t cs \<longleftrightarrow> (\<forall>L. named X L s \<longrightarrow> (\<exists>M. L \<subseteq>\<^sub>m M \<and> named X M t \<and> recorded X M cs))"

definition moved :: "libs \<Rightarrow> string set \<Rightarrow> spool \<Rightarrow> spool \<Rightarrow> (nat \<times> string) list \<Rightarrow> string \<Rightarrow> bool" where
  "moved X G s t cs extra \<longleftrightarrow> active_of s @ extra = concat (map snd cs) @ active_of t
     \<and> list_all (\<lambda>jc. minted s \<le> fst jc \<and> fst jc < minted t \<and> stored X G t jc) cs
     \<and> sorted_wrt (<) (map fst cs) \<and> minted s \<le> minted t \<and> spared G s t \<and> names X s t cs"

text \<open>A segment with a name that \<open>L\<close> does not know.\<close>

lemma agrees_mono: "agrees L s \<Longrightarrow> L \<subseteq>\<^sub>m M \<Longrightarrow> agrees M s"
  by (force simp: agrees_def map_le_def)

lemma agrees_fades: "agrees L s \<Longrightarrow> fades s t \<Longrightarrow> agrees L t"
  unfolding agrees_def fades_def by (metis option.distinct(1))

lemma recorded_mono: "recorded X L cs \<Longrightarrow> L \<subseteq>\<^sub>m M \<Longrightarrow> recorded X M cs"
  by (force simp: recorded_def map_le_def list_all_iff)

lemma names_fades: "fades s t \<Longrightarrow> minted s \<le> minted t \<Longrightarrow> names X s t []"
  using agrees_fades unfolding names_def named_def recorded_def
  by (metis list.pred_inject(1) map_le_refl order_trans)

lemma names_trans:
  assumes "names X s t cs" and "names X t u ds"
  shows "names X s u (cs @ ds)"
  unfolding names_def
proof (intro allI impI)
  fix L assume "named X L s"
  then obtain M where M: "L \<subseteq>\<^sub>m M" "named X M t" "recorded X M cs" using assms(1) by (auto simp: names_def)
  then obtain N where N: "M \<subseteq>\<^sub>m N" "named X N u" "recorded X N ds" using assms(2) by (auto simp: names_def)
  then have "recorded X N (cs @ ds)" using recorded_mono M(3) by (auto simp: recorded_def)
  with M(1) N show "\<exists>M. L \<subseteq>\<^sub>m M \<and> named X M u \<and> recorded X M (cs @ ds)" by (meson map_le_trans)
qed

lemma names_seal:
  assumes "minted t = Suc (minted s)" and "fresh_ids X s"
    and "\<And>n c. is_seg n \<Longrightarrow> file_of t n = Some c \<Longrightarrow>
      file_of s n = Some c \<or> n = seg_name X (minted s) \<and> c = zenc X d"
  shows "names X s t [(minted s, d)]"
  unfolding names_def
proof (intro allI impI)
  fix L assume L: "named X L s"
  let ?M = "L(seg_name X (minted s) \<mapsto> zenc X d)"
  have new: "L (seg_name X (minted s)) = None" using L unfolding named_def by blast
  then have "L \<subseteq>\<^sub>m ?M" by (auto simp: map_le_def)
  moreover have "agrees ?M t" using L new assms(3) unfolding named_def agrees_def by fastforce
  moreover have "n < seg_name X k" if "?M n \<noteq> None" "minted t \<le> k" for n k
    using that L assms(1,2) by (auto simp: named_def fresh_ids_def split: if_splits)
  ultimately show "\<exists>M. L \<subseteq>\<^sub>m M \<and> named X M t \<and> recorded X M [(minted s, d)]"
    by (intro exI [of _ ?M]) (auto simp: named_def recorded_def)
qed

lemma is_seg_name [simp]: "is_seg (seg_name X j)"
  by (simp add: is_seg_def seg_name_def has_suffix_append)

lemma stored_later: "stored X G t jc \<Longrightarrow> spared H t u \<Longrightarrow> H \<subseteq> G \<Longrightarrow> stored X G u jc"
  unfolding stored_def spared_def using is_seg_name by blast

lemma moved_trans:
  assumes "moved X G s t cs x" and "moved X H t u ds y" and "H \<subseteq> G"
  shows "moved X G s u (cs @ ds) (x @ y)"
proof -
  note m = assms(1,2) [unfolded moved_def]
  have "list_all (\<lambda>jc. minted s \<le> fst jc \<and> fst jc < minted u \<and> stored X G u jc) cs"
    using m stored_later [of X G t _ H u] assms(3) by (fastforce simp: list_all_iff)
  moreover have "list_all (\<lambda>jc. minted s \<le> fst jc \<and> fst jc < minted u \<and> stored X G u jc) ds"
    using m assms(3) unfolding list_all_iff stored_def by fastforce
  moreover have "sorted_wrt (<) (map fst (cs @ ds))"
    using m by (fastforce simp: sorted_wrt_append list_all_iff)
  moreover have "spared G s u" using m assms(3) unfolding spared_def by blast
  moreover have a: "active_of s @ x = concat (map snd cs) @ active_of t" "active_of t @ y = concat (map snd ds) @ active_of u"
    using m by simp_all
  have "active_of s @ x @ y = (concat (map snd cs) @ active_of t) @ y" unfolding a(1) [symmetric] by simp
  then have "active_of s @ x @ y = concat (map snd (cs @ ds)) @ active_of u" by (simp add: a(2))
  moreover have "minted s \<le> minted u" using m by auto
  moreover have "names X s u (cs @ ds)" using m names_trans by blast
  ultimately show ?thesis by (simp add: moved_def)
qed

lemma moved_untouched: "untouched s t \<Longrightarrow> minted s \<le> minted t \<Longrightarrow> moved X (shipped s) s t [] []"
  using untouched_fades [of s t] by (auto simp: moved_def untouched_def ships_def spared_def content_of_def names_fades)

lemma moved_refl: "moved X G s s [] []"
  by (simp add: moved_def spared_def names_fades fades_refl)

text \<open>Ids and what the shipper will take, across the calls.\<close>

lemma keeps_ids:
  "keeps (\<lambda>t. minted t = k) segments" "keeps (\<lambda>t. minted t = k) (stat_file n)"
  "keeps (\<lambda>t. minted t = k) (remove_file n)" "keeps (\<lambda>t. minted t = k) sync_file"
  "keeps (\<lambda>t. minted t = k) (create_file n)" "keeps (\<lambda>t. minted t = k) (append_file n b)"
  "keeps (\<lambda>t. minted t = k) (handle_write b)" "keeps (\<lambda>t. minted t = k) open_trunc"
  "keeps (\<lambda>t. minted t = k) (rename_file m n)"
  unfolding sys_defs
  by (rule keeps_syscall; (auto simp: keeps_def act_defs split: option.split))+

lemma keeps_ids_total: "keeps (\<lambda>t. minted t = k) (stat_total ps tot)"
  by (induction ps arbitrary: tot) (auto intro!: keeps_intros keeps_ids)

lemma keeps_ids_cap: "keeps (\<lambda>t. minted t = k) (enforce_cap X)"
  by (rule keeps_enforce_cap, unfold cap_iter_def write_warning_def)
    (intro keeps_intros keeps_ids keeps_ids_total keeps_upd; simp)

lemma keeps_ids_compress: "keeps (\<lambda>t. minted t = k) (compress X tmp raw)"
  unfolding compress_def by (intro keeps_intros keeps_ids)

lemma keeps_ids_publish: "keeps (\<lambda>t. minted t = k) (publish seg)"
  unfolding publish_def by (intro keeps_intros keeps_ids keeps_upd) simp

lemma keeps_shipped:
  "keeps (\<lambda>t. shipped t \<subseteq> G) handle_sync" "keeps (\<lambda>t. shipped t \<subseteq> G) handle_close"
  "keeps (\<lambda>t. shipped t \<subseteq> G) (read_file n)" "keeps (\<lambda>t. shipped t \<subseteq> G) sync_file"
  "keeps (\<lambda>t. shipped t \<subseteq> G) (create_file n)" "keeps (\<lambda>t. shipped t \<subseteq> G) (append_file n b)"
  "keeps (\<lambda>t. shipped t \<subseteq> G) open_trunc" "keeps (\<lambda>t. shipped t \<subseteq> G) (rename_file m n)"
  "keeps (\<lambda>t. shipped t \<subseteq> G) (handle_write b)"
  unfolding sys_defs
  by (rule keeps_syscall; (use env_gone_shipped(2) in blast)?;
      auto simp: keeps_def act_defs split: option.split)+

lemma keeps_shipped_seal: "keeps (\<lambda>t. shipped t \<subseteq> G) (seal X)"
  unfolding seal_def prepare_def publish_def compress_def
  by (intro keeps_intros keeps_shipped keeps_upd) simp_all

lemma keeps_config_seal: "keeps (same_config s) (seal X)"
  unfolding seal_def prepare_def publish_def compress_def
  by (intro keeps_intros keeps_same_config keeps_upd) simp_all

lemma prepare_mints:
  assumes "prepare X s = (r, t)"
  shows "minted s \<le> minted t \<and> (r \<noteq> Inr seg \<or> minted t = Suc (minted s))"
proof -
  have le: "keeps (\<lambda>t. k \<le> minted t) (prepare X)" for k
    unfolding prepare_def compress_def sys_defs
    by (intro keeps_intros keeps_syscall keeps_upd)
      (auto simp: keeps_def act_defs split: option.split)
  have "minted t = Suc (minted s)" if "prepare X s = (Inr seg, t)"
  proof -
    from that obtain s1 s2 s3 raw where
      sy: "handle_sync s = (Inr (), s1)" and cl: "handle_close s1 = (Inr (), s2)"
      and rd: "read_file active_name s2 = (Inr raw, s3)"
      and co: "compress X (seg @ ''.tmp'') raw (s3\<lparr>minted := minted s3 + 1\<rparr>) = (Inr (), t)"
      unfolding prepare_def by (auto simp: bind_act_Inr)
    have "minted s3 = minted s"
      by (rule keeps_run [OF keeps_minted(3) rd]) (rule keeps_run [OF keeps_minted(2) cl],
          rule keeps_run [OF keeps_minted(1) sy], rule refl)
    then show ?thesis by (intro keeps_run [OF keeps_ids_compress co]) simp
  qed
  with assms keeps_run [OF le assms] show ?thesis by auto
qed

lemma seal_ids:
  assumes "seal X s = (r, t)"
  shows "minted t = Suc (minted s) \<or> minted s \<le> minted t \<and> fades s t \<and> r \<noteq> Inr ()"
proof -
  obtain p u where p: "prepare X s = (p, u)" by fastforce
  show ?thesis
  proof (cases p)
    case (Inl e)
    with assms p have "r = Inl e" "t = u" by (auto simp: seal_def bind_act_def)
    with prepare_mints [OF p] keeps_run [OF keeps_untouched_prepare p untouched_refl] untouched_fades
    show ?thesis by auto
  next
    case (Inr seg)
    with assms p have "publish seg u = (r, t)" by (simp add: seal_def bind_act_def)
    from keeps_run [OF keeps_ids_publish this] prepare_mints [OF p, of seg] Inr show ?thesis by auto
  qed
qed

lemma fresh_absent: "fresh_ids X s \<Longrightarrow> file_of s (next_seg X s) = None"
proof -
  assume "fresh_ids X s"
  then have "next_seg X s \<notin> set (seg_names (dir s))"
    unfolding fresh_ids_def next_seg_name by fastforce
  then show ?thesis by (simp add: set_seg_names_file)
qed

lemma fresh_ids_next:
  assumes "fresh_ids X s" and "minted t = Suc (minted s)"
    and "set (seg_names (dir t)) \<subseteq> insert (next_seg X s) (set (seg_names (dir s)))"
  shows "fresh_ids X t"
  using assms unfolding fresh_ids_def next_seg_name by (auto dest: Suc_leD)

lemma fades_names: "fades s t \<Longrightarrow> set (seg_names (dir t)) \<subseteq> set (seg_names (dir s))"
  unfolding set_seg_names_file fades_def by fastforce

lemma fresh_ids_fades: "fresh_ids X s \<Longrightarrow> fades s t \<Longrightarrow> minted s \<le> minted t \<Longrightarrow> fresh_ids X t"
  using fades_names [of s t] unfolding fresh_ids_def by (meson order_trans subsetD)

lemma seal_names:
  "seal X s = (r, t) \<Longrightarrow> set (seg_names (dir t)) \<subseteq> insert (next_seg X s) (set (seg_names (dir s)))"
  using seal_result(1) unfolding set_seg_names_file by fastforce

lemma seal_fresh: "seal X s = (r, t) \<Longrightarrow> fresh_ids X s \<Longrightarrow> fresh_ids X t"
  using seal_ids [of X s r t] seal_names [of X s r t] fresh_ids_next [of X s t] fresh_ids_fades [of X s t] by blast

lemma seal_moved:
  assumes "seal X s = (r, t)" and "fresh_ids X s"
  shows "moved X (shipped s) s t (if r = Inr () then [(minted s, active_of s)] else []) []"
proof -
  have "spared (shipped s) s t"
    unfolding spared_def
    using seal_result(1) [OF assms(1)] fresh_absent [OF assms(2)] by fastforce
  moreover have "stored X (shipped s) t (minted s, active_of s)" "active_of t = []" if "r = Inr ()"
    using seal_result(3) [OF assms(1) that] by (auto simp: stored_def next_seg_name content_of_def)
  moreover have "active_of t = active_of s" if "r \<noteq> Inr ()"
    using that seal_result(2) [OF assms(1)] by (cases r) (auto simp: content_of_def)
  moreover have "names X s t (if r = Inr () then [(minted s, active_of s)] else [])"
  proof (cases "minted t = Suc (minted s)")
    case True
    have "names X s t [(minted s, active_of s)]"
      by (rule names_seal [OF True assms(2)]) (use seal_result(1) [OF assms(1)] in \<open>fastforce simp: next_seg_name\<close>)
    then show ?thesis by (auto simp: names_def recorded_def)
  next
    case False
    with seal_ids [OF assms(1)] show ?thesis by (auto intro: names_fades)
  qed
  ultimately show ?thesis using seal_ids [OF assms(1)] by (auto simp: moved_def)
qed

lemma seal_total:
  assumes "seal X s = (r, t)" and "fresh_ids X s" and "good_dir s"
  shows "seg_total t \<le> seg_total s + int (length (zenc X (active_of s)))"
proof -
  let ?seg = "next_seg X s" and ?z = "int (length (zenc X (active_of s)))"
  have new: "?seg \<notin> set (seg_names (dir s))"
    using fresh_absent [OF assms(2)] by (simp add: set_seg_names_file)
  have size: "int (length (content_of t n)) \<le> (if n = ?seg then ?z else int (length (content_of s n)))" if "is_seg n" for n
    using seal_result(1) [OF assms(1) that] fresh_absent [OF assms(2)] by (auto simp: content_of_def)
  have g: "good_dir t" by (rule keeps_run [OF keeps_good_seal assms(1,3)])
  have "seg_total t = (\<Sum>n \<in> set (seg_names (dir t)). int (length (content_of t n)))"
    using distinct_seg_names [OF g] by (simp add: seg_total_def sum_list_distinct_conv_sum_set)
  also have "\<dots> \<le> (\<Sum>n \<in> set (seg_names (dir t)). if n = ?seg then ?z else int (length (content_of s n)))"
    by (rule sum_mono) (use size in \<open>simp add: set_seg_names_file\<close>)
  also have "\<dots> \<le> (\<Sum>n \<in> insert ?seg (set (seg_names (dir s))). if n = ?seg then ?z else int (length (content_of s n)))"
    by (rule sum_mono2) (use seal_names [OF assms(1)] in auto)
  also have "\<dots> = ?z + (\<Sum>n \<in> set (seg_names (dir s)). int (length (content_of s n)))"
    using new by (simp add: sum.insert_if) (rule sum.cong; auto)
  also have "\<dots> = seg_total s + ?z"
    using distinct_seg_names [OF assms(3)] by (simp add: seg_total_def sum_list_distinct_conv_sum_set)
  finally show ?thesis .
qed

text \<open>
  What every operation keeps: distinct file names, fresh ids, the cap, and what the shipper will take. A rotation that finds room;
  a line.
\<close>

definition sound :: "libs \<Rightarrow> spool \<Rightarrow> spool \<Rightarrow> bool" where
  "sound X s t \<longleftrightarrow> good_dir t \<and> fresh_ids X t \<and> max_bytes t = max_bytes s \<and> shipped t \<subseteq> shipped s"

lemma rotate_moved:
  assumes "rotate_spool X s = (r, t)" and "sound X s s"
    and "seg_total s + int (length (zenc X (active_of s))) \<le> max_bytes s"
  shows "\<exists>cs. moved X (shipped s) s t cs [] \<and> sound X s t \<and> (r = Inr () \<longrightarrow> active_of t = []
    \<and> seg_total t \<le> seg_total s + int (length (zenc X (active_of s))))"
proof -
  obtain q u where q: "seal X s = (q, u)" by fastforce
  have s: "good_dir s" "fresh_ids X s" using assms(2) by (simp_all add: sound_def)
  note mv = seal_moved [OF q s(2)]
  have g: "good_dir u" by (rule keeps_run [OF keeps_good_seal q s(1)])
  have f: "fresh_ids X u" by (rule seal_fresh [OF q s(2)])
  have m: "max_bytes u = max_bytes s"
    using keeps_run [OF keeps_config_seal q same_config_refl] by (simp add: same_config_def)
  have sh: "shipped u \<subseteq> shipped s" by (rule keeps_run [OF keeps_shipped_seal q]) simp
  show ?thesis
  proof (cases q)
    case (Inl e)
    with q assms(1) have "r = Inl e" "t = u" by (auto simp: rotate_spool_def bind_act_def)
    with mv Inl g f m sh show ?thesis by (auto simp: sound_def)
  next
    case (Inr w)
    with assms(1) q have c: "enforce_cap X u = (r, t)" by (simp add: rotate_spool_def bind_act_def)
    have un: "untouched u t"
      by (rule enforce_cap_roomy [OF c g]) (use seal_total [OF q s(2,1)] m assms(3) in linarith)
    have mt: "minted t = minted u" by (rule keeps_run [OF keeps_ids_cap c refl])
    have gt: "good_dir t" by (rule keeps_run [OF keeps_good_enforce_cap c g])
    have "moved X (shipped s) s t ([(minted s, active_of s)] @ []) ([] @ [])"
      by (rule moved_trans [OF _ moved_untouched [OF un] sh]) (use mv Inr mt in simp_all)
    moreover have "active_of t = []"
      using un seal_result(3) [OF q] Inr by (simp add: untouched_def content_of_def)
    moreover have "seg_total t \<le> seg_total u" by (rule seg_total_mono [OF untouched_fades [OF un] g gt])
    moreover have "sound X s t"
      using gt m enforce_cap_config [OF c] fresh_ids_fades [OF f untouched_fades [OF un]] mt sh un
      by (auto simp: sound_def untouched_def ships_def)
    ultimately show ?thesis
      using seal_total [OF q s(2,1)] by (intro exI [of _ "[(minted s, active_of s)]"]) simp
  qed
qed

definition line_of :: "libs \<Rightarrow> envelope \<Rightarrow> string" where
  "line_of X e = (case marshal_envelope (json_codec X) e of Inl _ \<Rightarrow> [] | Inr b \<Rightarrow> b @ [newline])"

lemma keeps_good_line: "keeps good_dir (write_line X e)"
  unfolding write_line_def
  by (intro keeps_intros keeps_good_dir keeps_upd) (simp add: good_dir_def)

lemma handle_write_prefix:
  assumes "handle_write l s = (q, u)"
  shows "\<exists>k. active_of u = active_of s @ take k l \<and> (isl q \<or> k = length l)"
proof -
  obtain ev s1 where e: "env_step s = (ev, s1)" by fastforce
  have a: "active_of s1 = active_of s" using content_of_env [of active_name s] e by simp
  show ?thesis
  proof (cases "handle_open s1")
    case False
    with assms e a show ?thesis
      by (intro exI [of _ 0]) (auto simp: handle_write_def syscall_def fail_def split: option.splits)
  next
    case True
    with assms e a show ?thesis
      by (intro exI [of _ "case ev_fail ev of None \<Rightarrow> length l | Some n \<Rightarrow> n"])
        (auto simp: handle_write_def syscall_def split: option.splits)
  qed
qed

lemma write_line_moved:
  assumes "write_line X e s = (r, t)" and "sound X s s"
  shows "\<exists>k. moved X (shipped s) s t [] (take k (line_of X e)) \<and> active_of t = active_of s @ take k (line_of X e)
    \<and> sound X s t \<and> seg_total t \<le> seg_total s \<and> (r = Inr () \<longrightarrow> k = length (line_of X e) \<and> line_of X e \<noteq> [])"
proof (cases "marshal_envelope (json_codec X) e")
  case (Inl err)
  with assms show ?thesis
    using moved_refl [of X "shipped s" s] by (intro exI [of _ 0]) (auto simp: write_line_def)
next
  case (Inr b)
  let ?l = "b @ [newline]"
  have l: "line_of X e = ?l" using Inr by (simp add: line_of_def)
  have g: "good_dir t" by (rule keeps_run [OF keeps_good_line assms(1)]) (use assms(2) in \<open>simp add: sound_def\<close>)
  obtain q u where h: "handle_write ?l s = (q, u)" by fastforce
  have t: "\<exists>i. t = u\<lparr>active_size := i\<rparr> \<or> t = u" and r: "r = Inr () \<longrightarrow> \<not> isl q"
    using assms(1) Inr h by (auto simp: write_line_def bind_act_def upd_act_def split: sum.splits)
  obtain k where k: "active_of u = active_of s @ take k ?l" "isl q \<or> k = length ?l"
    using handle_write_prefix [OF h] by blast
  have sh: "ships (shipped s) s u" by (rule keeps_run [OF keeps_ships(7) h ships_refl])
  have m: "minted t = minted s" using t keeps_run [OF keeps_ids(7) h refl] by auto
  have x: "max_bytes t = max_bytes s"
    using t keeps_run [OF keeps_same_config(8) h same_config_refl] by (auto simp: same_config_def)
  have f: "fades s t" "spared (shipped s) s t" "shipped t \<subseteq> shipped s"
    using t sh by (auto simp: ships_def fades_def spared_def)
  have a: "active_of t = active_of s @ take k ?l" using t k(1) by auto
  have "sound X s t" using assms(2) g x f(3) fresh_ids_fades [OF _ f(1)] m by (simp add: sound_def)
  moreover have "seg_total t \<le> seg_total s"
    by (rule seg_total_mono [OF f(1) _ g]) (use assms(2) in \<open>simp add: sound_def\<close>)
  ultimately show ?thesis
    using a m f k(2) r unfolding l by (intro exI [of _ k]) (auto simp: moved_def names_fades [OF f(1)])
qed

section \<open>No write loses a byte\<close>

lemma first_moved:
  assumes "(if too_old s then rotate_spool X else ret ()) s = (q, u)"
    and "sound X s s" and "roomy X s ln"
  shows "\<exists>cs. moved X (shipped s) s u cs [] \<and> sound X s u \<and> (q = Inr () \<longrightarrow>
      seg_total u + int (length (zenc X (active_of u @ ln))) \<le> max_bytes s)"
proof (cases "too_old s")
  case False
  with assms show ?thesis
    using moved_refl [of X "shipped s" s] by (intro exI [of _ "[]"]) (auto simp: roomy_def)
next
  case True
  with assms(1) have rot: "rotate_spool X s = (q, u)" by simp
  have "seg_total s + int (length (zenc X (active_of s))) \<le> max_bytes s"
    using assms(3) by (simp add: roomy_def)
  from rotate_moved [OF rot assms(2) this] obtain cs where cs: "moved X (shipped s) s u cs []" "sound X s u"
    "q = Inr () \<longrightarrow> active_of u = [] \<and> seg_total u \<le> seg_total s + int (length (zenc X (active_of s)))" by blast
  with assms(3) show ?thesis by (intro exI [of _ cs]) (auto simp: roomy_def)
qed

lemma sound_step: "sound X s t \<Longrightarrow> sound X t t" "sound X s t \<Longrightarrow> sound X t u \<Longrightarrow> sound X s u"
  by (auto simp: sound_def)

lemma write_moved:
  assumes "spool_write X e s = (r, t)" and "sound X s s" and "roomy X s (line_of X e)"
  shows "\<exists>cs k. moved X (shipped s) s t cs (take k (line_of X e)) \<and> sound X s t
    \<and> (r = Inr () \<longrightarrow> k = length (line_of X e) \<and> line_of X e \<noteq> [])"
proof -
  let ?l = "line_of X e"
  obtain q u where first: "(if too_old s then rotate_spool X else ret ()) s = (q, u)" by fastforce
  obtain cs where mu: "moved X (shipped s) s u cs []" "sound X s u"
    and room: "q = Inr () \<longrightarrow> seg_total u + int (length (zenc X (active_of u @ ?l))) \<le> max_bytes s"
    using first_moved [OF first assms(2,3)] by blast
  show ?thesis
  proof (cases q)
    case (Inl err)
    with first assms(1) have "t = u" "r \<noteq> Inr ()" by (auto simp: spool_write_def bind_act_def act_defs)
    with mu show ?thesis by (intro exI [of _ cs] exI [of _ 0]) simp
  next
    case (Inr w)
    obtain p v where line: "write_line X e u = (p, v)" by fastforce
    have sub: "shipped u \<subseteq> shipped s" using mu(2) by (simp add: sound_def)
    obtain k where k: "moved X (shipped u) u v [] (take k ?l)" "active_of v = active_of u @ take k ?l" "sound X u v"
      "seg_total v \<le> seg_total u" "p = Inr () \<longrightarrow> k = length ?l \<and> ?l \<noteq> []"
      using write_line_moved [OF line sound_step(1) [OF mu(2)]] by blast
    have mv: "moved X (shipped s) s v cs (take k ?l)" using moved_trans [OF mu(1) k(1) sub] by simp
    have sv: "sound X s v" by (rule sound_step(2) [OF mu(2) k(3)])
    show ?thesis
    proof (cases "p = Inr () \<and> too_big v")
      case False
      with first Inr line assms(1) have "t = v" "r = Inr () \<longrightarrow> p = Inr ()"
        by (auto simp: spool_write_def bind_act_def act_defs split: sum.splits)
      with mv sv k(5) show ?thesis by (intro exI [of _ cs] exI [of _ k]) simp
    next
      case True
      with first Inr line assms(1) have rot: "rotate_spool X v = (r, t)"
        by (simp add: spool_write_def bind_act_def act_defs)
      have len: "k = length ?l \<and> ?l \<noteq> []" using True k(5) by simp
      have "seg_total v + int (length (zenc X (active_of v))) \<le> max_bytes v"
        using room Inr k(2,4) len sv by (simp add: sound_def)
      from rotate_moved [OF rot sound_step(1) [OF sv] this] obtain ds where ds: "moved X (shipped v) v t ds []" "sound X v t"
        by blast
      have "shipped v \<subseteq> shipped s" using sv by (simp add: sound_def)
      from moved_trans [OF mv ds(1) this] len sound_step(2) [OF sv ds(2)] show ?thesis
        by (intro exI [of _ "cs @ ds"] exI [of _ k]) simp
    qed
  qed
qed

section \<open>A sequence of writes\<close>

text \<open>
  What a source does with the envelopes of its ticks: it hands them to \<open>Write\<close> one by one and goes on
  after an error. The result says which writes succeeded. \<open>rooms\<close>: each of them finds room.
\<close>

fun writes :: "libs \<Rightarrow> envelope list \<Rightarrow> spool \<Rightarrow> bool list \<times> spool" where
  "writes X [] s = ([], s)"
| "writes X (e # es) s =
     (case spool_write X e s of (r, t) \<Rightarrow>
      (case writes X es t of (oks, u) \<Rightarrow> ((\<not> isl r) # oks, u)))"

fun rooms :: "libs \<Rightarrow> envelope list \<Rightarrow> spool \<Rightarrow> bool" where
  "rooms X [] s \<longleftrightarrow> True"
| "rooms X (e # es) s \<longleftrightarrow> roomy X s (line_of X e) \<and> rooms X es (snd (spool_write X e s))"

definition lands :: "libs \<Rightarrow> string \<Rightarrow> envelope \<times> bool \<Rightarrow> bool" where
  "lands X p eo \<longleftrightarrow> prefix p (line_of X (fst eo)) \<and> (snd eo \<longrightarrow> p = line_of X (fst eo) \<and> p \<noteq> [])"

lemma writes_moved:
  "writes X es s = (oks, t) \<Longrightarrow> sound X s s \<Longrightarrow> rooms X es s \<Longrightarrow>
     \<exists>ps cs. list_all2 (lands X) ps (zip es oks) \<and> moved X (shipped s) s t cs (concat ps)"
proof (induction X es s arbitrary: oks t rule: writes.induct)
  case (1 X s)
  then show ?case using moved_refl [of X "shipped s" s] by (intro exI [of _ "[]"]) simp
next
  case (2 X e es s)
  obtain r u where w: "spool_write X e s = (r, u)" by fastforce
  obtain oks' v where rest: "writes X es u = (oks', v)" by fastforce
  have oks: "oks = (\<not> isl r) # oks'" "v = t" using 2(2) w rest by simp_all
  have "roomy X s (line_of X e)" "rooms X es u" using 2(4) w by simp_all
  from write_moved [OF w 2(3) this(1)] obtain cs k where
    k: "moved X (shipped s) s u cs (take k (line_of X e))" "sound X s u"
      "r = Inr () \<longrightarrow> k = length (line_of X e) \<and> line_of X e \<noteq> []" by blast
  from 2(1) [OF w [symmetric] rest [unfolded oks(2)] sound_step(1) [OF k(2)] \<open>rooms X es u\<close>]
  obtain ps ds where ps: "list_all2 (lands X) ps (zip es oks')" "moved X (shipped u) u t ds (concat ps)" by blast
  have "shipped u \<subseteq> shipped s" using k(2) by (simp add: sound_def)
  note all = moved_trans [OF k(1) ps(2) this]
  have "lands X (take k (line_of X e)) (e, \<not> isl r)"
    using k(3) by (cases r) (auto simp: lands_def take_is_prefix)
  with ps oks all show ?case
    by (intro exI [of _ "take k (line_of X e) # ps"] exI [of _ "cs @ ds"]) simp
qed

text \<open>
  At least once, whatever fails. Take any sequence of writes that find room under the cap, and
  any script: before each system call the shipper may remove segments, and each call may fail, a
  write after some of its bytes. Then the bytes that were in the active file, followed by the whole
  line of every write that returned no error and a prefix of the line of every other, in the
  order of the writes, are the contents of the segments sealed meanwhile, in the order of
  their ids, followed by the active file. Each of these segments is complete unless the shipper has taken
  it, and every older segment is as it was unless the shipper has taken it.
\<close>

theorem writes_no_loss:
  assumes "writes X es s = (oks, t)" and "good_dir s" and "fresh_ids X s" and "rooms X es s"
  shows "\<exists>ps cs. list_all2 (lands X) ps (zip es oks)
    \<and> active_of s @ concat ps = concat (map snd cs) @ active_of t
    \<and> sorted_wrt (<) (map fst cs)
    \<and> list_all (\<lambda>(j, c). minted s \<le> j
         \<and> (file_of t (seg_name X j) = Some (zenc X c) \<or> seg_name X j \<in> shipped s)) cs
    \<and> (\<forall>n c. is_seg n \<longrightarrow> file_of s n = Some c \<longrightarrow> file_of t n = Some c \<or> n \<in> shipped s)"
proof -
  have "sound X s s" using assms(2,3) by (simp add: sound_def)
  from writes_moved [OF assms(1) this assms(4)] obtain ps cs where
    "list_all2 (lands X) ps (zip es oks)" "moved X (shipped s) s t cs (concat ps)" by blast
  then show ?thesis unfolding moved_def spared_def stored_def
    by (intro exI [of _ ps] exI [of _ cs]) (auto simp: list_all_iff)
qed

lemma demo_fresh: "fresh_ids demo_libs (demo_spool [(active_name, raw)] cap evs)"
proof -
  have "seg_names [(active_name, raw)] = []" by (simp add: seg_names_def)
  then show ?thesis by (simp add: demo_spool_def fresh_ids_def demo_names_less)
qed

theorem writes_no_loss_witness:
  "\<exists>p (cs :: (nat \<times> string) list) oks t. writes demo_libs [demo_envelope]
       (demo_spool [(active_name, ''old'')] 1000 [quiet_event\<lparr>ev_fail := Some 2\<rparr>]) = (oks, t)
     \<and> prefix p (line_of demo_libs demo_envelope) \<and> ''old'' @ p = concat (map snd cs) @ active_of t"
proof -
  let ?s = "demo_spool [(active_name, ''old'')] 1000 [quiet_event\<lparr>ev_fail := Some 2\<rparr>]"
  obtain b where b: "marshal_envelope (json_codec demo_libs) demo_envelope = Inr b"
    "roomy demo_libs (demo_spool [(active_name, ''old'')] 1000 []) (b @ [newline])" using demo_line by blast
  have "content_of ?s = content_of (demo_spool [(active_name, ''old'')] 1000 [])"
    by (simp add: demo_spool_def content_of_def file_of_def fun_eq_iff)
  then have "roomy demo_libs ?s (b @ [newline])"
    using b(2) by (simp add: roomy_def seg_total_def) (simp add: demo_spool_def)
  then have rooms: "rooms demo_libs [demo_envelope] ?s" using b(1) by (simp add: line_of_def)
  obtain oks t where w: "writes demo_libs [demo_envelope] ?s = (oks, t)" by fastforce
  have act: "active_of ?s = ''old''" "good_dir ?s"
    by (simp_all add: demo_spool_def content_of_def file_of_def good_dir_def)
  from writes_no_loss [OF w act(2) demo_fresh rooms] obtain ps and cs :: "(nat \<times> string) list" where
    p: "list_all2 (lands demo_libs) ps (zip [demo_envelope] oks)"
      "''old'' @ concat ps = concat (map snd cs) @ active_of t" unfolding act by blast
  obtain ok where "oks = [ok]" using w by (auto split: prod.splits)
  with p(1) obtain q where "ps = [q]" "prefix q (line_of demo_libs demo_envelope)"
    by (auto simp: list_all2_Cons2 lands_def)
  with p(2) w show ?thesis by (intro exI [of _ q] exI [of _ cs] exI [of _ oks] exI [of _ t]) simp
qed

section \<open>A torn line\<close>

lemma torn_write:
  assumes "ready X s" and "\<not> too_old s" and "marshal_envelope (json_codec X) e = Inr b"
  shows "spool_write X e (s\<lparr>script := [quiet_event\<lparr>ev_fail := Some k\<rparr>]\<rparr>)
    = (Inl ErrIO, append_active (take k (b @ [newline])) s)"
proof -
  let ?s = "s\<lparr>script := [quiet_event\<lparr>ev_fail := Some k\<rparr>]\<rparr>"
  have "env_step ?s = (quiet_event\<lparr>ev_fail := Some k\<rparr>, s)"
    using assms(1) by (simp add: env_step_def quiet_event_def ready_def)
  then have "handle_write (b @ [newline]) ?s = (Inl ErrIO, append_active (take k (b @ [newline])) s)"
    using assms(1) by (simp add: handle_write_def syscall_def ready_def)
  moreover have "\<not> too_old ?s" using assms(2) by (simp add: too_old_def)
  ultimately show ?thesis using assms(3) by (simp add: spool_write_def write_line_def bind_act_def act_defs)
qed

lemma ready_append:
  assumes "ready X s"
  shows "ready X (append_active c s)" and "queue D (append_active c s) = queue D s @ c"
proof -
  have segs: "seg_names (dir (append_active c s)) = seg_names (dir s)" by (simp add: seg_names_files)
  moreover have "good_dir (append_active c s)" using assms by (simp add: ready_def good_dir_def distinct_update)
  ultimately show "ready X (append_active c s)" using assms by (simp add: ready_def fresh_ids_def)
  have "\<forall>n \<in> set (seg_names (dir s)). content_of (append_active c s) n = content_of s n"
    by (auto simp: set_seg_names content_of_def)
  with segs show "queue D (append_active c s) = queue D s @ c"
    by (simp add: queue_def content_of_def cong: map_cong)
qed

text \<open>
  C22: A torn line takes the next one with it. When the file's \<open>Write\<close> fails after \<open>k\<close> bytes, short of the
  newline, the spool stays open and the next \<open>Write\<close> succeeds and reports no error, but its line does not start one: in what
  the spool holds the \<open>k\<close> bytes and the next record are one line, so that an intact record is lost
  to a reader.
\<close>

theorem torn_line_merges:
  assumes "ready X s" and "\<not> too_old s" and "\<And>raw. D (zenc X raw) = raw" and "codec_ok (json_codec X)"
    and "marshal_envelope (json_codec X) e = Inr b" and "k \<le> length b"
    and "marshal_envelope (json_codec X) e' = Inr b'"
    and "roomy X (append_active (take k b) s) (b' @ [newline])"
  shows "\<exists>u t. spool_write X e (s\<lparr>script := [quiet_event\<lparr>ev_fail := Some k\<rparr>]\<rparr>) = (Inl ErrIO, u)
    \<and> spool_write X e' u = (Inr (), t)
    \<and> queue D t = queue D s @ (take k b @ b') @ [newline] \<and> newline \<notin> set (take k b @ b')"
proof -
  let ?u = "append_active (take k b) s"
  have u: "spool_write X e (s\<lparr>script := [quiet_event\<lparr>ev_fail := Some k\<rparr>]\<rparr>) = (Inl ErrIO, ?u)"
    using torn_write [OF assms(1,2,5), of k] assms(6) by simp
  obtain t where "spool_write X e' ?u = (Inr (), t)" "queue D t = queue D ?u @ b' @ [newline]"
    using spool_write_ready [OF ready_append(1) [OF assms(1)] assms(3,7,8)] by blast
  moreover have "newline \<notin> set b" "newline \<notin> set b'"
    using marshal_envelope_printable [OF assms(4,5)] marshal_envelope_printable [OF assms(4,7)] printable_no_newline by blast+
  ultimately show ?thesis using u ready_append(2) [OF assms(1)] set_take_subset [of k b] by auto
qed

theorem torn_line_merges_witness:
  "\<exists>b u t. marshal_envelope (json_codec demo_libs) demo_envelope = Inr b
     \<and> spool_write demo_libs demo_envelope (demo_spool [(active_name, [])] 2000 [quiet_event\<lparr>ev_fail := Some 2\<rparr>]) = (Inl ErrIO, u)
     \<and> spool_write demo_libs demo_envelope u = (Inr (), t)
     \<and> queue (\<lambda>z. z) t = take 2 b @ b @ [newline] \<and> newline \<notin> set (take 2 b @ b)"
proof -
  let ?s = "demo_spool [(active_name, [])] 2000 []"
  obtain b where b: "marshal_envelope (json_codec demo_libs) demo_envelope = Inr b"
    and room: "roomy demo_libs (demo_spool [(active_name, ''old'')] 1000 []) (b @ [newline])" using demo_line by blast
  have len: "length b \<le> 1000" using room by (simp add: roomy_def seg_total_def demo_spool_def seg_names_def)
  have s: "\<not> too_old ?s" "active_of ?s = []" "seg_names (dir ?s) = []" "max_bytes ?s = 2000"
    by (simp_all add: demo_spool_def too_old_def content_of_def file_of_def seg_names_def)
  have "seg_names (dir (append_active (take 2 b) ?s)) = []" using s(3) by (simp add: seg_names_files)
  moreover have "max_bytes (append_active (take 2 b) ?s) = 2000" using s(4) by (simp add: append_active_def put_file_def)
  ultimately have r: "roomy demo_libs (append_active (take 2 b) ?s) (b @ [newline])"
    using len s(2) by (simp add: roomy_def seg_total_def)
  have "2 \<le> length b" using b by (auto simp: marshal_envelope_def demo_libs_def split: if_splits)
  from torn_line_merges [OF demo_ready s(1) demo_zenc demo_codec_ok b this b r] s(2,3) b
  show ?thesis by (auto simp: queue_def demo_spool_def)
qed

end
