(* ===== verification/AgentLoss.thy ===== *)
theory AgentLoss
  imports AgentProps SpoolLoss
begin

text \<open>
  The agent end to end under failures: whatever system calls fail and however the goroutines
  interleave, as long as the cap leaves room no byte that was handed to a spool write in full is
  lost before the shipper has taken its segment.
\<close>

section \<open>Closing the spool\<close>

lemma close_moved:
  assumes "spool_close X s = (r, t)" and "sound X s s"
    and "seg_total s + int (length (zenc X (active_of s))) \<le> max_bytes s"
  shows "\<exists>cs. moved X (shipped s) s t cs []"
proof -
  obtain q u where flush: "(if 0 < active_size s then rotate_spool X else ret ()) s = (q, u)" by fastforce
  obtain cs where cs: "moved X (shipped s) s u cs []" "sound X s u"
  proof (cases "0 < active_size s")
    case True
    with flush have "rotate_spool X s = (q, u)" by simp
    from rotate_moved [OF this assms(2,3)] that show ?thesis by blast
  next
    case False
    with flush assms(2) moved_refl [of X "shipped s" s] that show ?thesis by simp
  qed
  show ?thesis
  proof (cases q)
    case (Inl e)
    with flush assms(1) have "t = u" by (auto simp: spool_close_def bind_act_def act_defs)
    with cs show ?thesis by blast
  next
    case (Inr w)
    with flush assms(1) have c: "handle_close u = (r, t)" by (simp add: spool_close_def bind_act_def act_defs)
    have "untouched u t" by (rule keeps_run [OF keeps_untouched(4) c untouched_refl])
    moreover have "minted t = minted u" by (rule keeps_run [OF keeps_minted(2) c refl])
    ultimately have "moved X (shipped u) u t [] []" by (simp add: moved_untouched)
    moreover have "shipped u \<subseteq> shipped s" using cs(2) by (simp add: sound_def)
    ultimately have "moved X (shipped s) s t (cs @ []) ([] @ [])" by (rule moved_trans [OF cs(1)])
    then show ?thesis by auto
  qed
qed

section \<open>Runs in which anything may fail\<close>

primrec wrotes :: "obs list \<Rightarrow> envelope list" where
  "wrotes [] = []"
| "wrotes (x # xs) = (case x of Wrote i e \<Rightarrow> [e] | _ \<Rightarrow> []) @ wrotes xs"

lemma wrotes_append [simp]: "wrotes (xs @ ys) = wrotes xs @ wrotes ys"
  by (induction xs) simp_all

text \<open>
  A run of the agent with its ledger: the envelopes handed to \<open>Write\<close> with the outcome of each call, and
  the names of the segments the shipper has removed. The only thing asked of the steps is that a
  write and the final flush find room under the cap.
\<close>

inductive ledger_run ::
  "libs \<Rightarrow> 'h source list \<Rightarrow> 'h agent \<Rightarrow> (envelope \<times> bool) list \<Rightarrow> string set \<Rightarrow> 'h agent \<Rightarrow> bool"
  for X :: libs and srcs :: "'h source list" and a :: "'h agent" where
  here: "ledger_run X srcs a [] {} a"
| other: "ledger_run X srcs a ws G b \<Longrightarrow> agent_step X srcs b c \<Longrightarrow> a_spool c = a_spool b
    \<Longrightarrow> a_main c = a_main b \<Longrightarrow> wrotes (a_trace c) = wrotes (a_trace b) \<Longrightarrow> ledger_run X srcs a ws G c"
| time: "ledger_run X srcs a ws G b \<Longrightarrow> ledger_run X srcs a ws G
      (b\<lparr>a_host := h, a_spool := (a_spool b)\<lparr>clock := clock (a_spool b) + int d\<rparr>\<rparr>)"
| wrote: "ledger_run X srcs a ws G b \<Longrightarrow> i < length (a_phases b) \<Longrightarrow> a_phases b ! i = Locked e es
    \<Longrightarrow> script_allowed (a_ship b) evs \<Longrightarrow> roomy X (a_spool b) (line_of X e)
    \<Longrightarrow> spool_write X e ((a_spool b)\<lparr>script := evs\<rparr>) = (r, sp)
    \<Longrightarrow> ledger_run X srcs a (ws @ [(e, r = Inr ())]) (G \<union> shipped ((a_spool b)\<lparr>script := evs\<rparr>))
          (b\<lparr>a_spool := sp, a_phases := (a_phases b)[i := Written es], a_trace := a_trace b @ [Wrote i e]\<rparr>)"
| remove: "ledger_run X srcs a ws G b \<Longrightarrow> a_ship b = Draining \<Longrightarrow> is_seg n
    \<Longrightarrow> ledger_run X srcs a ws (insert n G) (b\<lparr>a_spool := del_file n (a_spool b)\<rparr>)"
| flush: "ledger_run X srcs a ws G b \<Longrightarrow> a_main b = Waiting \<Longrightarrow> workers_done b
    \<Longrightarrow> script_allowed (a_ship b) evs
    \<Longrightarrow> seg_total (a_spool b) + int (length (zenc X (active_of (a_spool b)))) \<le> max_bytes (a_spool b)
    \<Longrightarrow> spool_close X ((a_spool b)\<lparr>script := evs\<rparr>) = (r, sp)
    \<Longrightarrow> ledger_run X srcs a ws (G \<union> shipped ((a_spool b)\<lparr>script := evs\<rparr>))
          (b\<lparr>a_spool := sp,
             a_main := (case r of Inl e \<Rightarrow> Returned (Some e)
                        | Inr _ \<Rightarrow> if a_ship b = NoShipper then Returned None else Flushed),
             a_trace := a_trace b @ [SpoolClosed]\<rparr>)"
| drain: "ledger_run X srcs a ws G b \<Longrightarrow> a_main b = Flushed \<Longrightarrow> same_world sh (a_spool b)
    \<Longrightarrow> script_allowed ShipStopped (script sh) \<Longrightarrow> run_ship k segments sh = Some (r, sh')
    \<Longrightarrow> ledger_run X srcs a ws
          (G \<union> {n. is_seg n \<and> file_of sh' n = None
                \<and> (\<exists>c q. file_of sh n = Some c \<and> (batch_id n, c, q) \<in> set (requests sh') \<and> final q)})
          (b\<lparr>a_spool := with_world sh' (a_spool b),
             a_main := Returned (case r of Inl e \<Rightarrow> Some e | Inr _ \<Rightarrow> None),
             a_trace := a_trace b @ [Drained]\<rparr>)"

lemma ledger_reaches: "ledger_run X srcs a ws G b \<Longrightarrow> agent_reaches X srcs a b"
proof (induction rule: ledger_run.induct)
  case (wrote ws G b i e es evs r sp)
  show ?case by (rule agent_reaches.more [OF wrote(7) agent_step.wrote [OF wrote(2-4,6)]])
next
  case (flush ws G b evs r sp)
  show ?case by (rule agent_reaches.more [OF flush(7) agent_step.flush [OF flush(2-4,6)]])
next
  case (drain ws G b sh k r sh')
  show ?case by (rule agent_reaches.more [OF drain(6) agent_step.drain [OF drain(2-5)]])
qed (auto intro: agent_reaches.intros agent_step.elapse agent_step.ship_remove)

section \<open>The ledger balances\<close>

lemma moved_mono: "moved X G s t cs x \<Longrightarrow> G \<subseteq> H \<Longrightarrow> moved X H s t cs x"
  unfolding moved_def stored_def spared_def list_all_iff by blast

lemma named_cong:
  "file_of s' = file_of s \<Longrightarrow> minted s' = minted s \<Longrightarrow> named X L s' = named X L s"
  by (simp add: named_def agrees_def)

lemma moved_later:
  "moved X G s t cs x \<Longrightarrow> moved X H t u ds y \<Longrightarrow> moved X (G \<union> H) s u (cs @ ds) (x @ y)"
  using moved_mono [of X G s t cs x "G \<union> H"] moved_trans by blast

lemma moved_cong:
  assumes "file_of s' = file_of s" and "minted s' = minted s"
  shows "moved X G s' t cs x = moved X G s t cs x" "moved X G t s' cs x = moved X G t s cs x"
  using assms by (simp_all add: moved_def stored_def spared_def content_of_def names_def named_cong [OF assms])

lemma moved_del: "is_seg n \<Longrightarrow> moved X {n} s (del_file n s) [] []"
  by (auto simp: moved_def spared_def content_of_def fades_def intro!: names_fades)

lemma sound_cong: "dir s' = dir s \<Longrightarrow> minted s' = minted s \<Longrightarrow> sound X s s = sound X s' s'"
  by (simp add: sound_def good_dir_def fresh_ids_def)

lemma sound_del: "sound X s s \<Longrightarrow> sound X (del_file n s) (del_file n s)"
  using fresh_ids_fades [of X s "del_file n s"]
  by (auto simp: sound_def good_dir_def distinct_delete fades_def)

lemma drain_moved:
  assumes "same_world sh sp" and "script_allowed ShipStopped (script sh)"
    and "run_ship k segments sh = Some (r, sh')"
  shows "moved X {n. is_seg n \<and> file_of sh' n = None
      \<and> (\<exists>c q. file_of sh n = Some c \<and> (batch_id n, c, q) \<in> set (requests sh') \<and> final q)}
    sp (with_world sh' sp) [] []" (is "moved X ?G sp _ [] []")
proof -
  have d: "delivered sh sh'" by (rule delivered_run [OF assms(3)])
  have "shipped sh = {}" using assms(2) by (auto simp: script_allowed_def shipped_def list_all_iff)
  moreover have f: "file_of sp n = file_of sh n" for n by (rule same_world_files [OF assms(1)])
  moreover have "minted sh = minted sp"
  proof -
    have "minted (with_world sh sp) = minted (sp\<lparr>script := script sh\<rparr>)"
      using assms(1) by (simp only: same_world_def)
    then show ?thesis by (simp add: with_world_def)
  qed
  moreover have "file_of sh' active_name = file_of sh active_name"
    using d is_seg_active unfolding delivered_def by metis
  moreover have "minted (with_world sh' sp) = minted sh'" by (simp add: with_world_def)
  moreover have "minted sh' = minted sh" using d by (simp add: delivered_def)
  moreover have "fades sp (with_world sh' sp)"
    using d f unfolding fades_def delivered_def by (metis file_of_with_world)
  moreover have "spared ?G sp (with_world sh' sp)"
    unfolding spared_def
  proof (intro allI impI)
    fix n c assume n: "is_seg n" "file_of sp n = Some c"
    then have "file_of sh n = Some c" using f by simp
    moreover from d have "file_of sh' n = file_of sh n \<or> file_of sh' n = None
        \<and> (\<exists>c r. file_of sh n = Some c \<and> (batch_id n, c, r) \<in> set (requests sh') \<and> final r)"
      using \<open>shipped sh = {}\<close> unfolding delivered_def by blast
    ultimately show "file_of (with_world sh' sp) n = Some c \<or> n \<in> ?G" using n(1) by auto
  qed
  ultimately show ?thesis by (simp add: moved_def content_of_def names_fades)
qed

lemma ledger_balances:
  assumes "ledger_run X srcs a ws G b" and "in_order srcs a" and "a_main a = Waiting"
    and "sound X (a_spool a) (a_spool a)"
  shows "in_order srcs b \<and> (a_main b = Waiting \<longrightarrow> sound X (a_spool b) (a_spool b))
    \<and> wrotes (a_trace b) = wrotes (a_trace a) @ map fst ws
    \<and> (\<exists>ps cs. list_all2 (lands X) ps ws \<and> moved X G (a_spool a) (a_spool b) cs (concat ps))"
  using assms(1)
proof (induction rule: ledger_run.induct)
  case here
  then show ?case using assms(2,4) moved_refl [of X "{}" "a_spool a"] by (intro conjI exI [of _ "[]"]) auto
next
  case (other ws G b c)
  then show ?case using in_order_step [OF other(2)] by simp
next
  case (time ws G b d h)
  let ?u = "(a_spool b)\<lparr>clock := clock (a_spool b) + int d\<rparr>"
  have "in_order srcs (b\<lparr>a_host := h, a_spool := ?u\<rparr>)"
    by (rule in_order_step [OF agent_step.elapse]) (use time in blast)
  moreover have "moved X G (a_spool a) ?u cs x = moved X G (a_spool a) (a_spool b) cs x" for cs x
    by (rule moved_cong(2)) simp_all
  moreover have "sound X ?u ?u = sound X (a_spool b) (a_spool b)" by (rule sound_cong [symmetric]) simp_all
  ultimately show ?case using time by simp
next
  case (wrote ws G b i e es evs r sp)
  let ?s = "(a_spool b)\<lparr>script := evs\<rparr>"
  have io: "in_order srcs b" using wrote(7) by blast
  have step: "in_order srcs (b\<lparr>a_spool := sp, a_phases := (a_phases b)[i := Written es], a_trace := a_trace b @ [Wrote i e]\<rparr>)"
    by (rule in_order_step [OF agent_step.wrote [OF wrote(2-4,6)] io])
  have "a_main b = Waiting" using in_order_running [OF io wrote(2)] wrote(3) by simp
  then have "sound X ?s ?s" using wrote(7) sound_cong [of ?s "a_spool b" X] by simp
  moreover have same: "file_of ?s = file_of (a_spool b)" by (rule file_of_same_dir) simp
  then have "roomy X ?s (line_of X e)" using wrote(5) by (simp add: roomy_def seg_total_def content_of_def)
  ultimately obtain ds k where ds: "moved X (shipped ?s) ?s sp ds (take k (line_of X e))" "sound X ?s sp"
    "r = Inr () \<longrightarrow> k = length (line_of X e) \<and> line_of X e \<noteq> []" using write_moved [OF wrote(6)] by blast
  have lands: "lands X (take k (line_of X e)) (e, r = Inr ())"
    using ds(3) by (auto simp: lands_def take_is_prefix)
  obtain ps cs where ps: "list_all2 (lands X) ps ws" "moved X G (a_spool a) (a_spool b) cs (concat ps)"
    using wrote(7) by blast
  have "moved X (shipped ?s) (a_spool b) sp ds (take k (line_of X e))"
    using ds(1) moved_cong(1) [OF same] by simp
  from moved_later [OF ps(2) this] ps(1) lands
  have "\<exists>ps cs. list_all2 (lands X) ps (ws @ [(e, r = Inr ())])
      \<and> moved X (G \<union> shipped ?s) (a_spool a) sp cs (concat ps)"
    by (intro exI [of _ "ps @ [take k (line_of X e)]"] exI [of _ "cs @ ds"]) (simp add: list_all2_appendI)
  then show ?case using step wrote(7) sound_step(1) [OF ds(2)] by simp
next
  case (remove ws G b n)
  have io: "in_order srcs (b\<lparr>a_spool := del_file n (a_spool b)\<rparr>)"
    by (rule in_order_step [OF agent_step.ship_remove [OF remove(2,3)]]) (use remove in blast)
  obtain ps cs where ps: "list_all2 (lands X) ps ws" "moved X G (a_spool a) (a_spool b) cs (concat ps)"
    using remove(4) by blast
  have "moved X (G \<union> {n}) (a_spool a) (del_file n (a_spool b)) (cs @ []) (concat ps @ [])"
    by (rule moved_later [OF ps(2) moved_del [OF remove(3)]])
  with io ps(1) remove(4) sound_del [of X "a_spool b" n] show ?case by auto
next
  case (flush ws G b evs r sp)
  let ?s = "(a_spool b)\<lparr>script := evs\<rparr>"
  have io: "in_order srcs b" using flush(7) by blast
  note step = in_order_step [OF agent_step.flush [OF flush(2-4,6)] io]
  have "sound X ?s ?s" using flush(2,7) sound_cong [of ?s "a_spool b" X] by simp
  moreover have same: "file_of ?s = file_of (a_spool b)" by (rule file_of_same_dir) simp
  then have "seg_total ?s + int (length (zenc X (active_of ?s))) \<le> max_bytes ?s"
    using flush(5) by (simp add: seg_total_def content_of_def)
  ultimately obtain ds where "moved X (shipped ?s) ?s sp ds []" using close_moved [OF flush(6)] by blast
  then have ds: "moved X (shipped ?s) (a_spool b) sp ds []" using moved_cong(1) [OF same] by simp
  obtain ps cs where ps: "list_all2 (lands X) ps ws" "moved X G (a_spool a) (a_spool b) cs (concat ps)"
    using flush(7) by blast
  from moved_later [OF ps(2) ds] have "moved X (G \<union> shipped ?s) (a_spool a) sp (cs @ ds) (concat ps)" by simp
  with ps(1) step flush(7) show ?case by (auto split: sum.splits)
next
  case (drain ws G b sh k r sh')
  note step = in_order_step [OF agent_step.drain [OF drain(2-5)]]
  obtain ps cs where ps: "list_all2 (lands X) ps ws" "moved X G (a_spool a) (a_spool b) cs (concat ps)"
    using drain(6) by blast
  from moved_later [OF ps(2) drain_moved [OF drain(3-5)]] ps(1) step drain(6) show ?case by auto
qed

text \<open>
  End to end, at least once. Take any run of the agent in which the writes and the final flush find
  room under the cap: any schedule of the sources, the shipper and the shutdown, and any system
  call of the spool may fail, a write after some of its bytes. Then what the active file held at
  the start, followed by the whole line of every envelope whose write returned no error and a
  prefix of the line of every other one handed to \<open>Write\<close>, in the order of the writes, is held by
  segments in the order of their ids followed by the active file. Each of these segments is on disk,
  complete, or its name is among those the shipper has removed, and so is every segment there was at the
  start.
\<close>

theorem agent_loses_nothing:
  assumes "ledger_run X srcs (agent_init h sp (length srcs) shipping) ws G a"
    and "good_dir sp" and "fresh_ids X sp"
  shows "map fst ws = wrotes (a_trace a)
    \<and> (\<exists>ps cs. list_all2 (lands X) ps ws
      \<and> active_of sp @ concat ps = concat (map snd cs) @ active_of (a_spool a)
      \<and> sorted_wrt (<) (map fst cs)
      \<and> list_all (\<lambda>(j, c). minted sp \<le> j
           \<and> (file_of (a_spool a) (seg_name X j) = Some (zenc X c) \<or> seg_name X j \<in> G)) cs)
    \<and> (\<forall>n c. is_seg n \<longrightarrow> file_of sp n = Some c \<longrightarrow> file_of (a_spool a) n = Some c \<or> n \<in> G)"
proof -
  let ?a = "agent_init h sp (length srcs) shipping"
  have init: "a_main ?a = Waiting" "a_spool ?a = sp" "a_trace ?a = []" by (simp_all add: agent_init_def)
  have "sound X (a_spool ?a) (a_spool ?a)" using assms(2,3) init by (simp add: sound_def)
  from ledger_balances [OF assms(1) in_order_init init(1) this]
  have w: "wrotes (a_trace a) = map fst ws" and
    "\<exists>ps cs. list_all2 (lands X) ps ws \<and> moved X G sp (a_spool a) cs (concat ps)"
    unfolding init by simp_all
  then obtain ps cs where "list_all2 (lands X) ps ws" "moved X G sp (a_spool a) cs (concat ps)" by blast
  then have "list_all2 (lands X) ps ws
      \<and> active_of sp @ concat ps = concat (map snd cs) @ active_of (a_spool a) \<and> sorted_wrt (<) (map fst cs)
      \<and> list_all (\<lambda>(j, c). minted sp \<le> j
           \<and> (file_of (a_spool a) (seg_name X j) = Some (zenc X c) \<or> seg_name X j \<in> G)) cs"
    and old: "spared G sp (a_spool a)"
    by (auto simp: moved_def stored_def list_all_iff)
  with w show ?thesis unfolding spared_def by auto
qed

lemma demo_ledger_run:
  "\<exists>r G (a :: unit agent). ledger_run demo_libs [demo_source] demo_start [(demo_envelope, r)] G a"
proof -
  obtain b where b: "marshal_envelope (json_codec demo_libs) demo_envelope = Inr b"
    "roomy demo_libs (demo_spool [(active_name, ''old'')] 1000 []) (b @ [newline])"
    using demo_line by blast
  have c: "src_collect ([demo_source] ! 0) (a_host demo_start) = (Inr [demo_envelope], ())"
    by (simp add: demo_source_def ret_def)
  have i: "0 < length [demo_source]" "0 < length (a_phases demo_start)" "a_phases demo_start ! 0 = Idle"
    by (simp_all add: demo_start_def agent_init_def)
  let ?a1 = "demo_start\<lparr>a_host := (), a_phases := (a_phases demo_start)[0 := Emitting [demo_envelope]],
    a_trace := a_trace demo_start @ [Collected 0 [demo_envelope]]\<rparr>"
  let ?a2 = "?a1\<lparr>a_phases := (a_phases ?a1)[0 := Locked demo_envelope []], a_mutex := Some 0\<rparr>"
  let ?evs = "[quiet_event\<lparr>ev_fail := Some 2\<rparr>]"
  have r1: "ledger_run demo_libs [demo_source] demo_start [] {} ?a1"
    by (rule ledger_run.other [OF ledger_run.here agent_step.tick [OF i c]]) simp_all
  have r2: "ledger_run demo_libs [demo_source] demo_start [] {} ?a2"
    by (rule ledger_run.other [OF r1 agent_step.lock]) (simp_all add: demo_start_def agent_init_def)
  obtain r sp where w: "spool_write demo_libs demo_envelope ((a_spool ?a2)\<lparr>script := ?evs\<rparr>) = (r, sp)" by fastforce
  have "line_of demo_libs demo_envelope = b @ [newline]" using b(1) by (simp add: line_of_def)
  then have room: "roomy demo_libs (a_spool ?a2) (line_of demo_libs demo_envelope)"
    using b(2) by (simp add: demo_start_def agent_init_def)
  have p: "0 < length (a_phases ?a2)" "a_phases ?a2 ! 0 = Locked demo_envelope []" "script_allowed (a_ship ?a2) ?evs"
    using i(2) by (simp_all add: script_allowed_def quiet_event_def)
  from ledger_run.wrote [OF r2 p room w] show ?thesis by auto
qed

theorem agent_loses_nothing_witness:
  "\<exists>r G (a :: unit agent) p (cs :: (nat \<times> string) list).
     ledger_run demo_libs [demo_source] demo_start [(demo_envelope, r)] G a
     \<and> prefix p (line_of demo_libs demo_envelope) \<and> ''old'' @ p = concat (map snd cs) @ active_of (a_spool a)"
proof -
  let ?sp = "demo_spool [(active_name, ''old'')] 1000 []"
  obtain r G a where run: "ledger_run demo_libs [demo_source] demo_start [(demo_envelope, r)] G (a :: unit agent)"
    using demo_ledger_run by blast
  have act: "active_of ?sp = ''old''" "good_dir ?sp"
    by (simp_all add: demo_spool_def content_of_def file_of_def good_dir_def)
  note balance = agent_loses_nothing [OF run [unfolded demo_start_def] act(2) demo_fresh]
  then obtain ps and cs :: "(nat \<times> string) list" where
    p: "list_all2 (lands demo_libs) ps [(demo_envelope, r)]"
      "''old'' @ concat ps = concat (map snd cs) @ active_of (a_spool a)" unfolding act by blast
  then obtain q where "ps = [q]" "prefix q (line_of demo_libs demo_envelope)"
    by (auto simp: list_all2_Cons2 lands_def)
  with p(2) run show ?thesis by (intro exI [of _ q] exI conjI) simp_all
qed

end
