(* ===== verification/ShipSteps.thy ===== *)
theory ShipSteps
  imports ShipProps SpoolLoss
begin

text \<open>
  The shipper of \<open>internal/ship/ship.go\<close> at the grain of its system calls, which is where the agent
  interleaves it with the spool. \<open>ship_pc\<close> is where \<open>Run\<close> stands; \<open>pump_next\<close> makes the next call and
  what the code does up to the one after. Alone, these steps are \<open>run_ship\<close>; among others, they still
  remove only what has been answered.
\<close>

section \<open>The steps\<close>

text \<open>
  \<open>Listing\<close>: about to call \<open>list\<close>. \<open>Picking ns\<close>: in the loop over the segments, \<open>ns\<close> still to ship.
  \<open>Posting\<close>: the head has been read. \<open>Removing\<close>: it has a 2xx or 4xx reply. \<open>Napping\<close>: it is to be
  tried again after the back-off. \<open>Finished\<close>: \<open>Run\<close> has returned.
\<close>

datatype ship_pc =
    Listing
  | Picking "string list"
  | Posting string string "string list"
  | Removing string "string list"
  | Napping string "string list"
  | Finished "err + unit"

fun pump_next :: "ship_pc \<Rightarrow> shipper \<Rightarrow> (ship_pc \<times> shipper) option" where
  "pump_next Listing s =
     (case segments s of
        (Inl e, s1) \<Rightarrow> Some (Finished (Inl e), s1)
      | (Inr ns, s1) \<Rightarrow> Some (if ns = [] then Finished (Inr ()) else Picking ns, s1))"
| "pump_next (Picking []) s = Some (Listing, s)"
| "pump_next (Picking (path # ns)) s =
     (case read_file path s of
        (Inl e, s1) \<Rightarrow> Some (Picking ns, reset_backoff s1)
      | (Inr raw, s1) \<Rightarrow>
          if url_ok s1 then Some (Posting path raw ns, s1) else Some (Picking ns, reset_backoff s1))"
| "pump_next (Posting path raw ns) s =
     (case http_do (batch_id path) raw s of
        (Inl e, s1) \<Rightarrow> Some (Finished (Inl e), s1)
      | (Inr resp, s1) \<Rightarrow> Some (if final resp then Removing path ns else Napping path ns, s1))"
| "pump_next (Removing path ns) s =
     (case remove_file path s of (r, s1) \<Rightarrow> Some (Picking ns, reset_backoff s1))"
| "pump_next (Napping path ns) s =
     (case nap s of
        (Inl e, s1) \<Rightarrow> Some (Finished (Inl e), s1)
      | (Inr _, s1) \<Rightarrow> Some (Picking (path # ns), double_backoff s1))"
| "pump_next (Finished r) s = None"

fun pump_for :: "nat \<Rightarrow> ship_pc \<Rightarrow> shipper \<Rightarrow> ship_pc \<times> shipper" where
  "pump_for 0 pc s = (pc, s)"
| "pump_for (Suc n) pc s =
     (case pump_next pc s of None \<Rightarrow> (pc, s) | Some (pc', s') \<Rightarrow> pump_for n pc' s')"

section \<open>Alone, the steps are \<open>Run\<close>\<close>

lemma pump_for_add: "pump_for (m + n) pc s = (case pump_for m pc s of (pc', s') \<Rightarrow> pump_for n pc' s')"
proof (induction m pc s rule: pump_for.induct)
  case (2 m pc s)
  have "pump_for n pc s = (pc, s)" if "pump_next pc s = None" using that by (cases n) simp_all
  with 2 show ?case by (auto split: option.split)
qed simp

text \<open>Once returned, \<open>Run\<close> stays returned; and there is one way it goes.\<close>

lemma pump_for_end:
  assumes "pump_for m pc s = (Finished r, t)" and "m \<le> n"
  shows "pump_for n pc s = (Finished r, t)"
proof -
  obtain d where d: "n = m + d" using assms(2) le_Suc_ex by blast
  have "pump_for d (Finished r) t = (Finished r, t)" by (cases d) simp_all
  with assms(1) show ?thesis unfolding d pump_for_add by simp
qed

lemma pump_for_meet:
  assumes "pump_for n pc s = (Finished r, t)" and "pump_for m pc s = (pc', s')"
  shows "m \<le> n \<and> pump_for (n - m) pc' s' = (Finished r, t) \<or> (pc', s') = (Finished r, t)"
proof (cases "m \<le> n")
  case True
  then have "pump_for n pc s = pump_for (n - m) pc' s'"
    using pump_for_add [of m "n - m" pc s] assms(2) by simp
  with assms(1) True show ?thesis by simp
next
  case False
  with pump_for_end [OF assms(1), of m] assms(2) show ?thesis by simp
qed

definition pumps :: "ship_pc \<Rightarrow> shipper \<Rightarrow> ship_pc \<Rightarrow> shipper \<Rightarrow> bool" where
  "pumps pc s pc' s' \<longleftrightarrow> (\<exists>n. pump_for n pc s = (pc', s'))"

lemma pumps_trans: "pumps a s b t \<Longrightarrow> pumps b t c u \<Longrightarrow> pumps a s c u"
  unfolding pumps_def by (metis pump_for_add case_prod_conv)

lemma pumps_next: "pump_next pc s = Some (pc', s') \<Longrightarrow> pumps pc s pc' s'"
  unfolding pumps_def by (rule exI [of _ 1]) simp

lemma pumps_more: "pump_next a s = Some (b, t) \<Longrightarrow> pumps b t c u \<Longrightarrow> pumps a s c u"
  using pumps_next pumps_trans by blast

lemma http_answers: "\<exists>resp s1. http_do b raw s = (Inr resp, s1)"
  by (cases "replies s") (auto simp: http_do_def)

lemma pumps_ship:
  "\<exists>retry err t. ship path s = (Inr (retry, err), t)
     \<and> (if err = None \<or> \<not> retry then pumps (Picking (path # ns)) s (Picking ns) (reset_backoff t)
        else pumps (Picking (path # ns)) s (Napping path ns) t)"
proof -
  obtain r s1 where rd: "read_file path s = (r, s1)" by fastforce
  show ?thesis
  proof (cases "\<exists>raw. r = Inr raw \<and> url_ok s1")
    case False
    then have "pumps (Picking (path # ns)) s (Picking ns) (reset_backoff s1)"
      by (intro pumps_next) (use rd in \<open>auto split: sum.split\<close>)
    with False rd show ?thesis by (cases r) (auto simp: ship_def bind_try ret_def)
  next
    case True
    then obtain raw where raw: "r = Inr raw" "url_ok s1" by blast
    obtain resp s2 where post: "http_do (batch_id path) raw s1 = (Inr resp, s2)" using http_answers by blast
    obtain q s3 where rm: "remove_file path s2 = (q, s3)" by fastforce
    have p: "pumps (Picking (path # ns)) s (if final resp then Removing path ns else Napping path ns) s2"
      using rd raw post by (intro pumps_more [of _ _ "Posting path raw ns" s1, OF _ pumps_next]) simp_all
    have "pumps (Removing path ns) s2 (Picking ns) (reset_backoff s3)" using rm by (intro pumps_next) simp
    with p pumps_trans have "final resp \<Longrightarrow> pumps (Picking (path # ns)) s (Picking ns) (reset_backoff s3)" by auto
    with p have p': "if final resp then pumps (Picking (path # ns)) s (Picking ns) (reset_backoff s3)
        else pumps (Picking (path # ns)) s (Napping path ns) s2" by (cases "final resp") simp_all
    show ?thesis
    proof (cases "final resp")
      case True
      with rd raw post rm obtain err where "ship path s = (Inr (False, err), s3)"
        by (cases resp; cases q) (auto simp: ship_def bind_try bind_act_def [of "http_do _ _"] ret_def final_def)
      with p' True show ?thesis by (intro exI [of _ False] exI [of _ err] exI [of _ s3]) simp
    next
      case False
      with rd raw post have "\<exists>err. ship path s = (Inr (True, Some err), s2)"
        by (cases resp) (auto simp: ship_def bind_try bind_act_def [of "http_do _ _"] ret_def final_def)
      with p' False show ?thesis by auto
    qed
  qed
qed

lemma pumps_retry:
  "ship_with_retry path s = (r, t) \<Longrightarrow>
     pumps (Picking (path # ns)) s (case r of Inl e \<Rightarrow> Finished (Inl e) | Inr _ \<Rightarrow> Picking ns) t"
proof (induction path s rule: ship_with_retry.induct)
  case (1 path s)
  obtain retry err s1 where sh: "ship path s = (Inr (retry, err), s1)"
    and p: "if err = None \<or> \<not> retry then pumps (Picking (path # ns)) s (Picking ns) (reset_backoff s1)
        else pumps (Picking (path # ns)) s (Napping path ns) s1" using pumps_ship by blast
  show ?case
  proof (cases "err = None \<or> \<not> retry")
    case True
    then show ?thesis using p sh 1(2) by (auto simp: ship_with_retry.simps [of path s])
  next
    case False
    obtain z s2 where np: "nap s1 = (z, s2)" by fastforce
    show ?thesis
    proof (cases z)
      case (Inl e)
      then have "pumps (Napping path ns) s1 (Finished (Inl e)) s2" by (intro pumps_next) (simp add: np)
      then show ?thesis using p pumps_trans False sh np Inl 1(2) by (auto simp: ship_with_retry.simps [of path s])
    next
      case (Inr w)
      then have "pumps (Napping path ns) s1 (Picking (path # ns)) (double_backoff s2)"
        by (intro pumps_next) (simp add: np)
      then have "pumps (Picking (path # ns)) s (Picking (path # ns)) (double_backoff s2)"
        using p False pumps_trans by auto
      moreover have "ship_with_retry path (double_backoff s2) = (r, t)"
        using 1(2) sh np Inr False by (simp add: ship_with_retry.simps [of path s])
      ultimately show ?thesis using 1(1) [OF sh [symmetric] refl refl _ np [symmetric] Inr] False pumps_trans by blast
    qed
  qed
qed

lemma pumps_iter:
  "iter_act ship_with_retry ns s = (r, t) \<Longrightarrow>
     pumps (Picking ns) s (case r of Inl e \<Rightarrow> Finished (Inl e) | Inr _ \<Rightarrow> Picking []) t"
proof (induction ns arbitrary: s)
  case Nil
  then show ?case by (auto simp: ret_def pumps_def intro: exI [of _ 0])
next
  case (Cons n ns)
  obtain q u where q: "ship_with_retry n s = (q, u)" by fastforce
  note step = pumps_retry [OF q, of ns]
  show ?case
  proof (cases q)
    case (Inl e)
    with Cons.prems q step show ?thesis by (auto simp: bind_act_def)
  next
    case (Inr w)
    with Cons.prems q have "iter_act ship_with_retry ns u = (r, t)" by (simp add: bind_act_def)
    from pumps_trans [OF _ Cons.IH [OF this]] step Inr show ?thesis by simp
  qed
qed

lemma pumps_run: "run_ship k segments s = Some (r, t) \<Longrightarrow> pumps Listing s (Finished r) t"
proof (induction k arbitrary: s)
  case (Suc k)
  obtain q s1 where ls: "segments s = (q, s1)" by fastforce
  show ?case
  proof (cases "\<exists>ns. q = Inr ns \<and> ns \<noteq> []")
    case False
    with Suc.prems ls show ?thesis by (intro pumps_next) (cases q; simp)
  next
    case True
    then obtain ns where ns: "q = Inr ns" "ns \<noteq> []" by blast
    obtain z s2 where z: "iter_act ship_with_retry ns s1 = (z, s2)" by fastforce
    have p: "pumps Listing s (case z of Inl e \<Rightarrow> Finished (Inl e) | Inr _ \<Rightarrow> Picking []) s2"
      by (rule pumps_more [OF _ pumps_iter [OF z]]) (simp add: ls ns)
    show ?thesis
    proof (cases z)
      case (Inl e)
      with Suc.prems ls ns z p show ?thesis by auto
    next
      case (Inr w)
      with Suc.prems ls ns z have "run_ship k segments s2 = Some (r, t)" by simp
      then have "pumps (Picking []) s2 (Finished r) t" by (intro pumps_more [OF _ Suc.IH]) simp_all
      with p Inr pumps_trans show ?thesis by simp
    qed
  qed
qed simp

lemma run_of_pump: "pump_for n Listing s = (Finished r, t) \<Longrightarrow> \<exists>k. run_ship k segments s = Some (r, t)"
proof (induction n arbitrary: s rule: less_induct)
  case (less n)
  obtain q s1 where ls: "segments s = (q, s1)" by fastforce
  obtain m where m: "n = Suc m" using less.prems by (cases n) simp_all
  show ?case
  proof (cases "\<exists>ns. q = Inr ns \<and> ns \<noteq> []")
    case False
    then have "\<exists>x. pump_next Listing s = Some (Finished x, s1) \<and> run_ship 1 segments s = Some (x, s1)"
      using ls by (cases q) simp_all
    moreover have "pump_for m (Finished x) s1 = (Finished x, s1)" for x by (cases m) simp_all
    ultimately show ?thesis using less.prems m by (auto intro!: exI [of _ 1])
  next
    case True
    then obtain ns where ns: "q = Inr ns" "ns \<noteq> []" by blast
    have rest: "pump_for m (Picking ns) s1 = (Finished r, t)" using less.prems m ls ns by simp
    obtain z s2 where z: "iter_act ship_with_retry ns s1 = (z, s2)" by fastforce
    obtain j where j: "pump_for j (Picking ns) s1 = (case z of Inl e \<Rightarrow> Finished (Inl e) | Inr _ \<Rightarrow> Picking [], s2)"
      using pumps_iter [OF z] by (auto simp: pumps_def)
    show ?thesis
    proof (cases z)
      case (Inl e)
      with pump_for_meet [OF rest] j have "pump_for (m - j) (Finished (Inl e)) s2 = (Finished r, t) \<or> r = Inl e \<and> t = s2"
        by auto
      then have "r = Inl e \<and> t = s2" by (cases "m - j") auto
      with Inl ls ns z show ?thesis by (intro exI [of _ 1]) simp
    next
      case (Inr w)
      with pump_for_meet [OF rest] j have d: "j \<le> m" "pump_for (m - j) (Picking []) s2 = (Finished r, t)" by auto
      then obtain i where "m - j = Suc i" by (cases "m - j") simp_all
      with d m have "i < n" "pump_for i Listing s2 = (Finished r, t)" by simp_all
      from less.IH [OF this] obtain k where "run_ship k segments s2 = Some (r, t)" by blast
      with Inr ls ns z show ?thesis by (intro exI [of _ "Suc k"]) simp
    qed
  qed
qed

section \<open>Among others\<close>

text \<open>
  What a step of the shipper takes away. Between two of its steps others may do to the directory what
  they like, create and seal segments, evict them, as long as a name always stands for the same
  bytes: \<open>L\<close> says which. The endpoint, the clock and the context belong to the others too; the counters of
  the shipper are its own. When \<open>Run\<close> has returned, a later tick may call it again.
\<close>

definition takes :: "ship_pc \<Rightarrow> shipper \<Rightarrow> string set" where
  "takes pc s = (case pc of
       Removing path ns \<Rightarrow> (case fst (remove_file path s) of Inl e \<Rightarrow> {} | Inr _ \<Rightarrow> {path})
     | _ \<Rightarrow> {})"

definition same_private :: "shipper \<Rightarrow> shipper \<Rightarrow> bool" where
  "same_private s t \<longleftrightarrow> requests t = requests s \<and> naps t = naps s \<and> url_ok t = url_ok s
     \<and> backoff t = backoff s \<and> min_backoff t = min_backoff s \<and> max_backoff t = max_backoff s"

inductive pump_run ::
  "(string \<Rightarrow> string option) \<Rightarrow> ship_pc \<Rightarrow> shipper \<Rightarrow> string set \<Rightarrow> ship_pc \<Rightarrow> shipper \<Rightarrow> bool"
  for L pc s where
  here: "pump_run L pc s {} pc s"
| own: "pump_run L pc s R pc' s' \<Longrightarrow> pump_next pc' s' = Some (pc'', s'')
    \<Longrightarrow> pump_run L pc s (R \<union> takes pc' s') pc'' s''"
| others: "pump_run L pc s R pc' s' \<Longrightarrow> same_private s' s'' \<Longrightarrow> agrees L s'' \<Longrightarrow> pump_run L pc s R pc' s''"
| again: "pump_run L pc s R (Finished r) s' \<Longrightarrow> pump_run L pc s R Listing s'"

text \<open>
  \<open>answered\<close>: a POST of the bytes of the segment, under its batch id, has got a 2xx or 4xx reply.
  \<open>owns\<close>: what the shipper holds where it stands. A segment it is about to remove has been answered.
\<close>

definition answered :: "(string \<Rightarrow> string option) \<Rightarrow> shipper \<Rightarrow> string \<Rightarrow> bool" where
  "answered L s n \<longleftrightarrow> (\<exists>c q. L n = Some c \<and> (batch_id n, c, q) \<in> set (requests s) \<and> final q)"

fun owns :: "(string \<Rightarrow> string option) \<Rightarrow> shipper \<Rightarrow> ship_pc \<Rightarrow> bool" where
  "owns L s (Picking ns) \<longleftrightarrow> list_all is_seg ns"
| "owns L s (Posting path raw ns) \<longleftrightarrow> is_seg path \<and> L path = Some raw \<and> list_all is_seg ns"
| "owns L s (Removing path ns) \<longleftrightarrow> is_seg path \<and> answered L s path \<and> list_all is_seg ns"
| "owns L s (Napping path ns) \<longleftrightarrow> is_seg path \<and> list_all is_seg ns"
| "owns L s pc \<longleftrightarrow> True"

lemma answered_mono: "answered L s n \<Longrightarrow> L \<subseteq>\<^sub>m M \<Longrightarrow> set (requests s) \<subseteq> set (requests t) \<Longrightarrow> answered M t n"
  by (force simp: answered_def map_le_def)

lemma owns_mono: "owns L s pc \<Longrightarrow> L \<subseteq>\<^sub>m M \<Longrightarrow> set (requests s) \<subseteq> set (requests t) \<Longrightarrow> owns M t pc"
  by (cases "(L, s, pc)" rule: owns.cases) (auto simp: answered_mono, force simp: map_le_def)

lemma agrees_env: "agrees L s \<Longrightarrow> agrees L (snd (env_step s))"
  by (rule agrees_fades [OF _ fades_env [OF fades_refl]])

lemma requests_env [simp]: "requests (snd (env_step s)) = requests s"
  by (simp add: env_step_def split: list.split)

lemma requests_backoff [simp]:
  "requests (reset_backoff s) = requests s" "requests (double_backoff s) = requests s"
  by (simp_all add: reset_backoff_def double_backoff_def Let_def)

lemma agrees_backoff [simp]:
  "agrees L (reset_backoff s) = agrees L s" "agrees L (double_backoff s) = agrees L s"
  by (simp_all add: agrees_def file_of_def reset_backoff_def double_backoff_def Let_def)

text \<open>What each call of the shipper returns and leaves behind.\<close>

lemma segments_run: "segments s = (r, t) \<Longrightarrow> t = snd (env_step s) \<and> (\<forall>ns. r = Inr ns \<longrightarrow> ns = seg_names (dir t))"
  by (auto simp: segments_def syscall_def act_defs split: prod.splits option.splits)

lemma read_file_run: "read_file n s = (r, t) \<Longrightarrow> t = snd (env_step s) \<and> (\<forall>c. r = Inr c \<longrightarrow> file_of t n = Some c)"
  by (auto simp: read_file_def syscall_def act_defs split: prod.splits option.splits)

lemma remove_file_run:
  "remove_file n s = (r, t) \<Longrightarrow> t = (if isl r then snd (env_step s) else del_file n (snd (env_step s)))"
  by (auto simp: remove_file_def syscall_def act_defs split: prod.splits option.splits)

lemma http_do_run:
  "http_do b raw s = (r, t) \<Longrightarrow> \<exists>q. r = Inr q \<and> t = s\<lparr>replies := tl (replies s), requests := requests s @ [(b, raw, q)]\<rparr>"
  by (cases "replies s") (auto simp: http_do_def)

lemma nap_run: "nap s = (r, t) \<Longrightarrow> t = s \<or> (\<exists>k ns. t = s\<lparr>patience := k, naps := ns\<rparr>)"
  by (auto simp: nap_def split: if_splits)

lemmas call_runs = segments_run read_file_run remove_file_run http_do_run nap_run

lemma agrees_upd [simp]:
  "agrees L (s\<lparr>replies := rs, requests := qs\<rparr>) = agrees L s"
  "agrees L (s\<lparr>patience := k, naps := ns\<rparr>) = agrees L s"
  by (simp_all add: agrees_def file_of_def)

lemma owns_next:
  assumes "pump_next pc s = Some (pc', t)" and "owns L s pc" and "agrees L s"
  shows "owns L t pc' \<and> agrees L t \<and> set (requests s) \<subseteq> set (requests t)
    \<and> (\<forall>n \<in> takes pc s. is_seg n \<and> answered L t n)"
proof (cases "(pc, s)" rule: pump_next.cases)
  case (1 u)
  obtain r v where ls: "segments s = (r, v)" by fastforce
  with assms 1 segments_run [OF ls] agrees_env [OF assms(3)] show ?thesis
    by (auto simp: takes_def list_all_iff set_seg_names split: sum.splits)
next
  case (2 u)
  with assms show ?thesis by (auto simp: takes_def)
next
  case (3 path ns u)
  obtain r v where rd: "read_file path s = (r, v)" by fastforce
  have v: "v = snd (env_step s)" "agrees L v" using read_file_run [OF rd] agrees_env [OF assms(3)] by simp_all
  have "L path = Some c" if "r = Inr c" for c
    using that read_file_run [OF rd] v(2) assms(2) 3 unfolding agrees_def by auto
  with assms 3 rd v show ?thesis by (auto simp: takes_def split: sum.splits if_splits)
next
  case (4 path raw ns u)
  obtain r v where post: "http_do (batch_id path) raw s = (r, v)" by fastforce
  then obtain q where q: "r = Inr q" "v = s\<lparr>replies := tl (replies s), requests := requests s @ [(batch_id path, raw, q)]\<rparr>"
    using http_do_run by blast
  then have "agrees L v" "final q \<Longrightarrow> answered L v path" using assms 4 by (auto simp: answered_def)
  with assms 4 post q show ?thesis by (auto simp: takes_def split: if_splits)
next
  case (5 path ns u)
  obtain r v where rm: "remove_file path s = (r, v)" by fastforce
  have "requests (del_file path (snd (env_step s))) = requests s" by simp
  moreover have "agrees L (del_file path (snd (env_step s)))"
    using agrees_env [OF assms(3)] by (simp add: agrees_def)
  ultimately have "agrees L v \<and> requests v = requests s"
    using remove_file_run [OF rm] agrees_env [OF assms(3)] by simp
  with assms 5 rm show ?thesis by (auto simp: takes_def answered_def split: sum.splits)
next
  case (6 path ns u)
  obtain r v where np: "nap s = (r, v)" by fastforce
  then have "v = s \<or> (\<exists>k xs. v = s\<lparr>patience := k, naps := xs\<rparr>)" by (rule nap_run)
  with assms 6 np show ?thesis by (auto simp: takes_def split: sum.splits)
next
  case (7 r u)
  with assms show ?thesis by simp
qed

lemma pump_run_owns:
  assumes "pump_run L pc s R pc' t" and "owns L s pc" and "agrees L s"
  shows "owns L t pc' \<and> agrees L t \<and> set (requests s) \<subseteq> set (requests t)
    \<and> (\<forall>n \<in> R. is_seg n \<and> answered L t n)"
  using assms(1)
proof (induction rule: pump_run.induct)
  case (own R pc' s' pc'' s'')
  then show ?case using owns_next [OF own(2), of L] answered_mono [OF _ map_le_refl] by blast
next
  case (others R pc' s' s'')
  then have "requests s'' = requests s'" by (simp add: same_private_def)
  with others show ?case using owns_mono [OF _ map_le_refl] answered_mono [OF _ map_le_refl]
    by (metis order_refl)
qed (use assms in auto)

text \<open>What a step of the shipper does to the directory.\<close>

definition left_by :: "ship_pc \<Rightarrow> shipper \<Rightarrow> 'z world_scheme \<Rightarrow> 'z world_scheme" where
  "left_by pc s w = (case pc of
       Removing path ns \<Rightarrow> if takes pc s = {} then w else del_file path w
     | _ \<Rightarrow> w)"

lemma pump_world:
  assumes "pump_next pc s = Some (pc', t)"
  shows "world.truncate t = world.truncate (left_by pc s s)
    \<or> world.truncate t = world.truncate (left_by pc s (snd (env_step s)))"
proof (cases "(pc, s)" rule: pump_next.cases)
  case (1 u)
  obtain r v where ls: "segments s = (r, v)" by fastforce
  with assms 1 segments_run [OF ls] show ?thesis by (auto simp: left_by_def split: sum.splits)
next
  case (2 u)
  with assms show ?thesis by (auto simp: left_by_def)
next
  case (3 path ns u)
  obtain r v where rd: "read_file path s = (r, v)" by fastforce
  with assms 3 read_file_run [OF rd] show ?thesis
    by (auto simp: left_by_def world.truncate_def reset_backoff_def split: sum.splits if_splits)
next
  case (4 path raw ns u)
  obtain r v where post: "http_do (batch_id path) raw s = (r, v)" by fastforce
  then obtain q where "r = Inr q" "v = s\<lparr>replies := tl (replies s), requests := requests s @ [(batch_id path, raw, q)]\<rparr>"
    using http_do_run by blast
  with assms 4 post show ?thesis by (auto simp: left_by_def world.truncate_def)
next
  case (5 path ns u)
  obtain r v where rm: "remove_file path s = (r, v)" by fastforce
  with assms 5 remove_file_run [OF rm] show ?thesis
    by (auto simp: left_by_def takes_def world.truncate_def reset_backoff_def del_file_def split: sum.splits)
next
  case (6 path ns u)
  obtain r v where np: "nap s = (r, v)" by fastforce
  then have "v = s \<or> (\<exists>k xs. v = s\<lparr>patience := k, naps := xs\<rparr>)" by (rule nap_run)
  with assms 6 np show ?thesis
    by (auto simp: left_by_def world.truncate_def double_backoff_def Let_def split: sum.splits)
next
  case (7 r u)
  with assms show ?thesis by simp
qed

lemma pump_files:
  assumes "pump_next pc s = Some (pc', t)"
  shows "file_of t n = file_of s n \<or> n \<in> env_gone s \<and> is_seg n \<or> n \<in> takes pc s \<and> file_of t n = None"
proof -
  have "dir t = dir (left_by pc s s) \<or> dir t = dir (left_by pc s (snd (env_step s)))"
    using pump_world [OF assms] by (auto simp: world.truncate_def)
  then have "file_of t n = file_of (left_by pc s s) n \<or> file_of t n = file_of (left_by pc s (snd (env_step s))) n"
    by (auto simp: file_of_def)
  moreover have "path \<in> takes pc s" if "pc = Removing path ns" "takes pc s \<noteq> {}" for path ns
    using that by (auto simp: takes_def split: sum.splits)
  ultimately show ?thesis
    by (auto simp: left_by_def file_of_env split: ship_pc.splits if_splits)
qed

section \<open>Properties\<close>


text \<open>
  C4: Nothing is removed unanswered, whoever else is at work. Start \<open>Run\<close>, and let others create,
  seal and take segments between any two of its calls, as long as one name never stands for two
  contents. If the next call of the shipper changes a file which no one else takes at that
  moment, then that file is a segment, it is gone, and what it held up to then was POSTed under its
  batch id and got a 2xx or 4xx reply.
\<close>

theorem shipper_removes_only_answered:
  assumes "pump_run L Listing s R pc t" and "agrees L s"
    and "pump_next pc t = Some (pc', u)" and "file_of u n \<noteq> file_of t n" and "n \<notin> env_gone t"
  shows "is_seg n \<and> file_of u n = None
    \<and> (\<forall>c. file_of t n = Some c \<longrightarrow>
         (\<exists>reply. (batch_id n, c, reply) \<in> set (requests u) \<and> final reply))"
proof -
  have o: "owns L t pc" "agrees L t" using pump_run_owns [OF assms(1)] assms(2) by simp_all
  have "n \<in> takes pc t" "file_of u n = None" using pump_files [OF assms(3), of n] assms(4,5) by auto
  moreover from this(1) have "is_seg n" "answered L u n" using owns_next [OF assms(3) o] by auto
  ultimately show ?thesis using o(2) by (auto simp: answered_def agrees_def)
qed

theorem shipper_removes_only_answered_witness:
  "\<exists>u. pump_next (Removing ''a.jsonl.zst'' [''b.jsonl.zst''])
        (posted ''a.jsonl.zst'' ''12345'' (Status 200)
           (demo_shipper True [Status 200] 9\<lparr>dir := [(''a.jsonl.zst'', ''12345''), (''c.jsonl.zst'', ''new'')]\<rparr>))
      = Some (Picking [''b.jsonl.zst''], u)
     \<and> (\<exists>reply. (''a'', ''12345'', reply) \<in> set (requests u) \<and> final reply)"
proof -
  let ?s = "demo_shipper True [Status 200] 9"
  let ?t = "?s\<lparr>dir := [(''a.jsonl.zst'', ''12345''), (''c.jsonl.zst'', ''new'')]\<rparr>"
  let ?v = "posted ''a.jsonl.zst'' ''12345'' (Status 200) ?t"
  let ?L = "[''a.jsonl.zst'' \<mapsto> ''12345'', ''b.jsonl.zst'' \<mapsto> ''xyz'', ''c.jsonl.zst'' \<mapsto> ''new'']"
  have a: "agrees ?L ?s" "agrees ?L ?t"
    by (simp_all add: agrees_def demo_shipper_def file_of_def)
  have r1: "pump_run ?L Listing ?s ({} \<union> takes Listing ?s) (Picking [''a.jsonl.zst'', ''b.jsonl.zst'']) ?s"
    by (rule pump_run.own [OF pump_run.here]) (simp add: quiet_calls(1))
  have r2: "pump_run ?L Listing ?s ({} \<union> takes Listing ?s \<union> takes (Picking [''a.jsonl.zst'', ''b.jsonl.zst'']) ?s)
      (Posting ''a.jsonl.zst'' ''12345'' [''b.jsonl.zst'']) ?s"
    by (rule pump_run.own [OF r1]) (simp add: quiet_calls(4))
  have "same_private ?s ?t" by (simp add: same_private_def)
  from pump_run.others [OF r2 this a(2)] obtain R where
    r3: "pump_run ?L Listing ?s R (Posting ''a.jsonl.zst'' ''12345'' [''b.jsonl.zst'']) ?t" by blast
  have b: "batch_id ''a.jsonl.zst'' = ''a''" by (simp add: batch_id_def seg_suffix_def cut_eval)
  have "pump_next (Posting ''a.jsonl.zst'' ''12345'' [''b.jsonl.zst'']) ?t = Some (Removing ''a.jsonl.zst'' [''b.jsonl.zst''], ?v)"
    by (simp add: http_do_def posted_def final_def)
  from pump_run.own [OF r3 this] obtain R where
    r4: "pump_run ?L Listing ?s R (Removing ''a.jsonl.zst'' [''b.jsonl.zst'']) ?v" by blast
  let ?u = "reset_backoff (del_file ''a.jsonl.zst'' ?v)"
  have f: "file_of ?v ''a.jsonl.zst'' = Some ''12345''" by (simp add: file_of_def)
  then have next4: "pump_next (Removing ''a.jsonl.zst'' [''b.jsonl.zst'']) ?v = Some (Picking [''b.jsonl.zst''], ?u)"
    using quiet_calls(3) [of ?v "''a.jsonl.zst''" "''12345''"] by simp
  have "file_of ?u ''a.jsonl.zst'' \<noteq> file_of ?v ''a.jsonl.zst''"
    unfolding f by (simp add: reset_backoff_def file_of_def delete_conv)
  from shipper_removes_only_answered [OF r4 a(1) next4 this] f b next4 show ?thesis
    by (simp add: env_gone_def)
qed

end
