(* ===== verification/AgentShip.thy ===== *)
theory AgentShip
  imports AgentLoss ShipSteps
begin

text \<open>
  The agent with its shipper in full: \<open>internal/agent\<close> and \<open>internal/ship\<close> together. The goroutines
  around the spool are those of \<open>Agent\<close>; the shipper makes the calls of \<open>ShipSteps\<close> on the same
  directory. Calls of the shipper happen between the steps of the others, and during a write as
  many of them as there is time for.
\<close>

section \<open>Two state machines on one directory\<close>

text \<open>
  The state is the agent, the place of the shipper in \<open>Run\<close> and its own state, and a ledger that the
  code does not keep: what the name of every segment stands for, the envelopes handed to \<open>Write\<close>
  with the outcome of each call, and the segments sealed, with their ids. \<open>lend\<close> is the directory as
  the shipper sees it; the failures, the replies and the context of its next call are anything.
\<close>

record 'h joint =
  j_agent :: "'h agent"
  j_pc :: ship_pc
  j_ship :: shipper
  j_lives :: "string \<Rightarrow> string option"
  j_writes :: "(envelope \<times> bool) list"
  j_sealed :: "(nat \<times> string) list"

definition lend :: "spool \<Rightarrow> event list \<Rightarrow> reply list \<Rightarrow> nat \<Rightarrow> shipper \<Rightarrow> shipper" where
  "lend sp evs rs p sh = sh\<lparr>dir := dir sp, handle_open := handle_open sp, mtime := mtime sp,
     clock := clock sp, minted := minted sp, script := evs, replies := rs, patience := p\<rparr>"

definition hand_back :: "shipper \<Rightarrow> spool \<Rightarrow> spool" where
  "hand_back sh sp = (with_world sh sp)\<lparr>script := script sp\<rparr>"

definition joint_init :: "'h \<Rightarrow> spool \<Rightarrow> nat \<Rightarrow> bool \<Rightarrow> shipper \<Rightarrow> 'h joint" where
  "joint_init h sp n shipping sh =
     \<lparr>j_agent = agent_init h sp n shipping, j_pc = Listing, j_ship = sh,
      j_lives = (\<lambda>m. if is_seg m then file_of sp m else None), j_writes = [], j_sealed = []\<rparr>"

text \<open>
  What a call on the spool adds to the ledger: \<open>cs\<close> are the segments it sealed, out of the active file and
  the first \<open>k\<close> bytes of the line \<open>l\<close>, all of them if it returned no error, and \<open>M\<close> knows their names.
\<close>

definition entered ::
  "libs \<Rightarrow> spool \<Rightarrow> spool \<Rightarrow> string \<Rightarrow> bool \<Rightarrow> nat \<Rightarrow> (nat \<times> string) list
   \<Rightarrow> (string \<Rightarrow> string option) \<Rightarrow> (string \<Rightarrow> string option) \<Rightarrow> bool" where
  "entered X s t l ok k cs L M \<longleftrightarrow> moved X (shipped s) s t cs (take k l)
     \<and> (ok \<longrightarrow> k = length l \<and> l \<noteq> []) \<and> L \<subseteq>\<^sub>m M \<and> named X M t \<and> recorded X M cs"

inductive joint_step :: "libs \<Rightarrow> 'h source list \<Rightarrow> 'h joint \<Rightarrow> 'h joint \<Rightarrow> bool"
  for X :: libs and srcs :: "'h source list" where
  work: "agent_step X srcs (j_agent j) b \<Longrightarrow> a_spool b = a_spool (j_agent j) \<Longrightarrow> a_main b = a_main (j_agent j)
    \<Longrightarrow> a_ship b = a_ship (j_agent j) \<Longrightarrow> wrotes (a_trace b) = wrotes (a_trace (j_agent j))
    \<Longrightarrow> joint_step X srcs j (j\<lparr>j_agent := b\<rparr>)"
| time: "joint_step X srcs j (j\<lparr>j_agent := (j_agent j)\<lparr>a_host := h,
      a_spool := (a_spool (j_agent j))\<lparr>clock := clock (a_spool (j_agent j)) + int d\<rparr>\<rparr>\<rparr>)"
| drain_tick: "a_ship (j_agent j) = ShipIdle
    \<Longrightarrow> joint_step X srcs j (j\<lparr>j_agent := (j_agent j)\<lparr>a_ship := Draining\<rparr>, j_pc := Listing\<rparr>)"
| ship_call: "a_ship (j_agent j) = Draining \<Longrightarrow> script_allowed ShipIdle evs
    \<Longrightarrow> pump_next (j_pc j) (lend (a_spool (j_agent j)) evs rs p (j_ship j)) = Some (pc, sh)
    \<Longrightarrow> joint_step X srcs j (j\<lparr>j_agent := (j_agent j)\<lparr>a_spool := hand_back sh (a_spool (j_agent j))\<rparr>,
          j_pc := pc, j_ship := sh\<rparr>)"
| ship_return: "a_ship (j_agent j) = Draining \<Longrightarrow> j_pc j = Finished r
    \<Longrightarrow> joint_step X srcs j (j\<lparr>j_agent := (j_agent j)\<lparr>a_ship := ShipIdle\<rparr>\<rparr>)"
| ship_halt: "a_ship (j_agent j) = ShipIdle \<Longrightarrow> a_cancelled (j_agent j)
    \<Longrightarrow> joint_step X srcs j (j\<lparr>j_agent := (j_agent j)\<lparr>a_ship := ShipStopped\<rparr>\<rparr>)"
| write_line: "j_agent j = a \<Longrightarrow> i < length (a_phases a) \<Longrightarrow> a_phases a ! i = Locked e es
    \<Longrightarrow> roomy X (a_spool a) (line_of X e)
    \<Longrightarrow> spool_write X e ((a_spool a)\<lparr>script := evs\<rparr>) = (r, sp)
    \<Longrightarrow> entered X ((a_spool a)\<lparr>script := evs\<rparr>) sp (line_of X e) (r = Inr ()) k cs (j_lives j) L
    \<Longrightarrow> pump_run L (j_pc j) (lend (a_spool a) evs' rs p (j_ship j)) G pc sh
    \<Longrightarrow> shipped ((a_spool a)\<lparr>script := evs\<rparr>) \<subseteq> G
    \<Longrightarrow> a_ship a = Draining \<or> G = {} \<and> pc = j_pc j \<and> same_private (j_ship j) sh
    \<Longrightarrow> joint_step X srcs j (j\<lparr>j_agent := a\<lparr>a_spool := sp, a_phases := (a_phases a)[i := Written es],
            a_trace := a_trace a @ [Wrote i e]\<rparr>,
          j_pc := pc, j_ship := sh, j_lives := L, j_writes := j_writes j @ [(e, r = Inr ())],
          j_sealed := j_sealed j @ cs\<rparr>)"
| final_flush: "j_agent j = a \<Longrightarrow> a_main a = Waiting \<Longrightarrow> workers_done a \<Longrightarrow> script_allowed ShipIdle evs
    \<Longrightarrow> seg_total (a_spool a) + int (length (zenc X (active_of (a_spool a)))) \<le> max_bytes (a_spool a)
    \<Longrightarrow> spool_close X ((a_spool a)\<lparr>script := evs\<rparr>) = (r, sp)
    \<Longrightarrow> entered X ((a_spool a)\<lparr>script := evs\<rparr>) sp [] False 0 cs (j_lives j) L
    \<Longrightarrow> joint_step X srcs j (j\<lparr>j_agent := a\<lparr>a_spool := sp,
            a_main := (case r of Inl e \<Rightarrow> Returned (Some e)
                       | Inr _ \<Rightarrow> if a_ship a = NoShipper then Returned None else Flushed),
            a_trace := a_trace a @ [SpoolClosed]\<rparr>,
          j_lives := L, j_sealed := j_sealed j @ cs\<rparr>)"
| final_drain: "j_agent j = a \<Longrightarrow> a_main a = Flushed \<Longrightarrow> script_allowed ShipIdle evs
    \<Longrightarrow> run_ship k segments (lend (a_spool a) evs rs p (j_ship j)) = Some (r, sh)
    \<Longrightarrow> joint_step X srcs j (j\<lparr>j_agent := a\<lparr>a_spool := with_world sh (a_spool a),
            a_main := Returned (case r of Inl e \<Rightarrow> Some e | Inr _ \<Rightarrow> None),
            a_trace := a_trace a @ [Drained]\<rparr>,
          j_ship := sh\<rparr>)"

inductive joint_run :: "libs \<Rightarrow> 'h source list \<Rightarrow> 'h joint \<Rightarrow> 'h joint \<Rightarrow> bool"
  for X :: libs and srcs :: "'h source list" and j :: "'h joint" where
  start: "joint_run X srcs j j"
| further: "joint_run X srcs j k \<Longrightarrow> joint_step X srcs k l \<Longrightarrow> joint_run X srcs j l"

section \<open>What a call of the shipper does to the directory\<close>

lemma lend_simps [simp]:
  "dir (lend sp evs rs p sh) = dir sp" "handle_open (lend sp evs rs p sh) = handle_open sp"
  "mtime (lend sp evs rs p sh) = mtime sp" "clock (lend sp evs rs p sh) = clock sp"
  "minted (lend sp evs rs p sh) = minted sp" "script (lend sp evs rs p sh) = evs"
  "requests (lend sp evs rs p sh) = requests sh" "file_of (lend sp evs rs p sh) = file_of sp"
  "agrees L (lend sp evs rs p sh) = agrees L sp"
  by (simp_all add: lend_def file_of_def agrees_def fun_eq_iff)

lemma hand_back_simps [simp]:
  "minted (hand_back sh sp) = minted sh" "file_of (hand_back sh sp) = file_of sh"
  "max_bytes (hand_back sh sp) = max_bytes sp"
  by (simp_all add: hand_back_def with_world_def file_of_def fun_eq_iff)

lemma shipped_none: "script_allowed ShipIdle (script s) \<longleftrightarrow> shipped s = {}"
  by (auto simp: script_allowed_def shipped_def list_all_iff)

lemma env_no_ships:
  "shipped s = {} \<Longrightarrow> \<exists>d. dir (snd (env_step s)) = dir s \<and> clock (snd (env_step s)) = clock s + int d"
  by (cases "script s") (auto simp: env_step_def shipped_def)

lemma hand_back_cases:
  assumes "pump_next pc (lend sp evs rs p sh) = Some (pc', sh')" and "script_allowed ShipIdle evs"
  shows "\<exists>d. hand_back sh' sp = sp\<lparr>clock := clock sp + int d\<rparr>
    \<or> (\<exists>n \<in> takes pc (lend sp evs rs p sh). hand_back sh' sp = (del_file n sp)\<lparr>clock := clock sp + int d\<rparr>)"
proof -
  let ?s = "lend sp evs rs p sh"
  obtain w where w: "w = ?s \<or> w = snd (env_step ?s)"
    and t: "world.truncate sh' = world.truncate (left_by pc ?s w)"
    using pump_world [OF assms(1)] by blast
  have "shipped ?s = {}" using assms(2) shipped_none [of ?s] by simp
  from env_no_ships [OF this] obtain d' where d': "dir (snd (env_step ?s)) = dir sp"
    "clock (snd (env_step ?s)) = clock sp + int d'" by auto
  obtain d where d: "dir w = dir sp" "clock w = clock sp + int d"
  proof (cases "w = ?s")
    case True
    then show thesis using that [of 0] by simp
  next
    case False
    with w d' show thesis using that [of d'] by simp
  qed
  have same: "handle_open w = handle_open sp" "mtime w = mtime sp" "minted w = minted sp" using w by auto
  have handed: "hand_back sh' sp = sp\<lparr>dir := dir v, clock := clock v\<rparr>"
    if "world.truncate sh' = world.truncate v" "handle_open v = handle_open sp" "mtime v = mtime sp" "minted v = minted sp" for v :: shipper
    using that by (simp add: hand_back_def with_world_def world.truncate_def)
  show ?thesis
  proof (cases "\<exists>path ns. pc = Removing path ns \<and> takes pc ?s \<noteq> {}")
    case False
    then have "left_by pc ?s w = w" by (auto simp: left_by_def split: ship_pc.split)
    with handed [of w] t same d have "hand_back sh' sp = sp\<lparr>clock := clock sp + int d\<rparr>" by simp
    then show ?thesis by blast
  next
    case True
    then obtain path ns where pc: "pc = Removing path ns" "takes pc ?s \<noteq> {}" by blast
    then have "path \<in> takes pc ?s" by (auto simp: takes_def split: sum.splits)
    moreover have "left_by pc ?s w = del_file path w" using pc by (simp add: left_by_def)
    with handed [of "del_file path w"] t same d
    have "hand_back sh' sp = (del_file path sp)\<lparr>clock := clock sp + int d\<rparr>" by (simp add: del_file_def)
    ultimately show ?thesis by blast
  qed
qed

section \<open>The agent with any shipper is refined\<close>

lemma allowed_no_ships: "script_allowed ShipIdle evs \<Longrightarrow> script_allowed sh evs"
  by (simp add: script_allowed_def)

lemma reaches_step: "agent_step X srcs a b \<Longrightarrow> agent_reaches X srcs a b"
  by (rule agent_reaches.more [OF agent_reaches.here])

lemma same_world_lend: "same_world (lend sp evs rs p sh) sp"
  by (simp add: same_world_def with_world_def)

lemma joint_refines_step:
  assumes "joint_step X srcs j l" and "owns (j_lives j) (j_ship j) (j_pc j)"
    and "agrees (j_lives j) (a_spool (j_agent j))"
  shows "agent_reaches X srcs (j_agent j) (j_agent l)"
  using assms(1)
proof cases
  case (work b)
  then show ?thesis using reaches_step by simp
next
  case (time d h)
  then show ?thesis using reaches_step [OF agent_step.elapse [of X srcs "j_agent j" d h]] by simp
next
  case drain_tick
  then show ?thesis using reaches_step [OF agent_step.ship_tick] by simp
next
  case (ship_call evs rs p pc sh)
  let ?a = "j_agent j"
  let ?s = "lend (a_spool ?a) evs rs p (j_ship j)"
  from hand_back_cases [OF ship_call(4,3)] obtain d where
    "hand_back sh (a_spool ?a) = (a_spool ?a)\<lparr>clock := clock (a_spool ?a) + int d\<rparr>
     \<or> (\<exists>n \<in> takes (j_pc j) ?s. hand_back sh (a_spool ?a) = (del_file n (a_spool ?a))\<lparr>clock := clock (a_spool ?a) + int d\<rparr>)"
    by blast
  then show ?thesis
  proof (elim disjE bexE)
    assume b: "hand_back sh (a_spool ?a) = (a_spool ?a)\<lparr>clock := clock (a_spool ?a) + int d\<rparr>"
    show ?thesis
      using reaches_step [OF agent_step.elapse [of X srcs ?a d "a_host ?a"]] ship_call(1) by (simp add: b)
  next
    fix n assume n: "n \<in> takes (j_pc j) ?s"
      and b: "hand_back sh (a_spool ?a) = (del_file n (a_spool ?a))\<lparr>clock := clock (a_spool ?a) + int d\<rparr>"
    have "owns (j_lives j) ?s (j_pc j)" using owns_mono [OF assms(2) map_le_refl, of ?s] by simp
    from owns_next [OF ship_call(4) this] n assms(3) have "is_seg n" by simp
    let ?b = "?a\<lparr>a_spool := del_file n (a_spool ?a)\<rparr>"
    have "agent_reaches X srcs ?a ?b" by (rule reaches_step [OF agent_step.ship_remove]) (use ship_call(2) \<open>is_seg n\<close> in simp_all)
    from agent_reaches.more [OF this agent_step.elapse [of X srcs ?b d "a_host ?a"]] ship_call(1)
    show ?thesis by (simp add: b)
  qed
next
  case (ship_return r)
  then show ?thesis using reaches_step [OF agent_step.ship_done] by simp
next
  case ship_halt
  then show ?thesis using reaches_step [OF agent_step.ship_stop] by simp
next
  case (write_line a i e es evs r sp k cs L evs' rs p G pc sh)
  have "script_allowed (a_ship a) evs"
    using write_line(9,10) shipped_none [of "(a_spool a)\<lparr>script := evs\<rparr>"] allowed_no_ships
    by (auto simp: script_allowed_def)
  from reaches_step [OF agent_step.wrote [OF write_line(3,4) this write_line(6)]] write_line(1,2)
  show ?thesis by simp
next
  case (final_flush a evs r sp cs L)
  from reaches_step [OF agent_step.flush [OF final_flush(3,4) allowed_no_ships [OF final_flush(5)] final_flush(7)]]
    final_flush(1,2) show ?thesis by simp
next
  case (final_drain a evs k rs p r sh)
  have "script_allowed ShipStopped (script (lend (a_spool a) evs rs p (j_ship j)))"
    using allowed_no_ships [OF final_drain(4)] by simp
  from reaches_step [OF agent_step.drain [OF final_drain(3) same_world_lend this final_drain(5)]] final_drain(1,2)
  show ?thesis by simp
qed

section \<open>The ledger balances\<close>

text \<open>
  What holds in every state: the names and what they stand for are known, the shipper holds what
  it should, and every byte is accounted for, with the answered segments as those that may be gone.
\<close>

definition balanced :: "libs \<Rightarrow> spool \<Rightarrow> 'h joint \<Rightarrow> bool" where
  "balanced X sp j \<longleftrightarrow> (\<exists>ps. list_all2 (lands X) ps (j_writes j)
     \<and> moved X {n. answered (j_lives j) (j_ship j) n} sp (a_spool (j_agent j)) (j_sealed j) (concat ps))"

definition joint_ok :: "libs \<Rightarrow> 'h source list \<Rightarrow> spool \<Rightarrow> 'h joint \<Rightarrow> bool" where
  "joint_ok X srcs sp j \<longleftrightarrow> in_order srcs (j_agent j)
     \<and> (a_main (j_agent j) = Waiting \<longrightarrow> sound X (a_spool (j_agent j)) (a_spool (j_agent j)))
     \<and> wrotes (a_trace (j_agent j)) = map fst (j_writes j)
     \<and> named X (j_lives j) (a_spool (j_agent j)) \<and> owns (j_lives j) (j_ship j) (j_pc j)
     \<and> recorded X (j_lives j) (j_sealed j) \<and> agrees (j_lives j) sp
     \<and> balanced X sp j"

lemma in_order_reaches: "agent_reaches X srcs a b \<Longrightarrow> in_order srcs a \<Longrightarrow> in_order srcs b"
  by (rule reaches_inv [where P = "in_order srcs"]) (use in_order_step in blast)+

lemma joint_in_order: "joint_step X srcs j l \<Longrightarrow> joint_ok X srcs sp j \<Longrightarrow> in_order srcs (j_agent l)"
  using joint_refines_step in_order_reaches unfolding joint_ok_def named_def by blast

lemma balanced_step:
  assumes "balanced X sp j" and "moved X G (a_spool (j_agent j)) (a_spool (j_agent l)) ds x"
    and "j_sealed l = j_sealed j @ ds" and "j_writes l = j_writes j @ ws" and "list_all2 (lands X) qs ws"
    and "x = concat qs" and "j_lives j \<subseteq>\<^sub>m j_lives l" and "set (requests (j_ship j)) \<subseteq> set (requests (j_ship l))"
    and "\<forall>n \<in> G. answered (j_lives l) (j_ship l) n"
  shows "balanced X sp l"
proof -
  let ?A = "{n. answered (j_lives j) (j_ship j) n}" and ?B = "{n. answered (j_lives l) (j_ship l) n}"
  obtain ps where ps: "list_all2 (lands X) ps (j_writes j)"
    "moved X ?A sp (a_spool (j_agent j)) (j_sealed j) (concat ps)" using assms(1) by (auto simp: balanced_def)
  have "?A \<union> G \<subseteq> ?B" using answered_mono [OF _ assms(7,8)] assms(9) by auto
  from moved_mono [OF moved_later [OF ps(2) assms(2)] this]
  have "moved X ?B sp (a_spool (j_agent l)) (j_sealed l) (concat (ps @ qs))" using assms(3,6) by simp
  moreover have "list_all2 (lands X) (ps @ qs) (j_writes l)"
    using ps(1) assms(4,5) by (simp add: list_all2_appendI)
  ultimately show ?thesis unfolding balanced_def by blast
qed

lemma balanced_quiet:
  assumes "balanced X sp j" and "file_of (a_spool (j_agent l)) = file_of (a_spool (j_agent j))"
    and "minted (a_spool (j_agent l)) = minted (a_spool (j_agent j))"
    and "j_sealed l = j_sealed j" "j_writes l = j_writes j" "j_lives l = j_lives j" "j_ship l = j_ship j"
  shows "balanced X sp l"
  using assms(1) moved_cong(2) [OF assms(2,3)] unfolding balanced_def assms(4-7) by simp

lemma named_fades: "named X L s \<Longrightarrow> fades s t \<Longrightarrow> minted s \<le> minted t \<Longrightarrow> named X L t"
  using agrees_fades unfolding named_def by (meson order_trans)

text \<open>Steps that leave the directory alone.\<close>

lemma ok_quiet:
  assumes "joint_step X srcs j l" and "joint_ok X srcs sp j"
    and "dir (a_spool (j_agent l)) = dir (a_spool (j_agent j))"
    and "minted (a_spool (j_agent l)) = minted (a_spool (j_agent j))"
    and "j_sealed l = j_sealed j" "j_writes l = j_writes j" "j_lives l = j_lives j" "j_ship l = j_ship j"
    and "owns (j_lives j) (j_ship j) (j_pc j) \<Longrightarrow> owns (j_lives j) (j_ship j) (j_pc l)"
    and "wrotes (a_trace (j_agent l)) = wrotes (a_trace (j_agent j))"
    and "a_main (j_agent l) = a_main (j_agent j)"
  shows "joint_ok X srcs sp l"
proof -
  note ok = assms(2) [unfolded joint_ok_def]
  have f: "file_of (a_spool (j_agent l)) = file_of (a_spool (j_agent j))" by (rule file_of_same_dir [OF assms(3)])
  have "balanced X sp l" by (rule balanced_quiet [OF _ f assms(4-8)]) (use ok in simp)
  then show ?thesis
    using ok assms joint_in_order [OF assms(1,2)] named_cong [OF f assms(4)] sound_cong [OF assms(3,4)]
    unfolding joint_ok_def by simp
qed

lemma ok_ship_call:
  assumes "joint_step X srcs j l" and "joint_ok X srcs sp j"
    and "l = j\<lparr>j_agent := (j_agent j)\<lparr>a_spool := hand_back sh (a_spool (j_agent j))\<rparr>, j_pc := pc, j_ship := sh\<rparr>"
    and "script_allowed ShipIdle evs"
    and "pump_next (j_pc j) (lend (a_spool (j_agent j)) evs rs p (j_ship j)) = Some (pc, sh)"
  shows "joint_ok X srcs sp l"
proof -
  let ?sp = "a_spool (j_agent j)" and ?s = "lend (a_spool (j_agent j)) evs rs p (j_ship j)" and ?t = "hand_back sh (a_spool (j_agent j))"
  note ok = assms(2) [unfolded joint_ok_def]
  have ow: "owns (j_lives j) ?s (j_pc j)" using owns_mono [OF _ map_le_refl, of "j_lives j" "j_ship j"] ok by simp
  have ag: "agrees (j_lives j) ?s" using ok by (simp add: named_def)
  note own = owns_next [OF assms(5) ow ag]
  have moves: "moved X (takes (j_pc j) ?s) ?sp ?t [] [] \<and> (sound X ?sp ?sp \<longrightarrow> sound X ?t ?t)
      \<and> minted ?t = minted ?sp \<and> fades ?sp ?t"
  proof -
    obtain d where d: "?t = ?sp\<lparr>clock := clock ?sp + int d\<rparr> \<or> (\<exists>n \<in> takes (j_pc j) ?s. ?t = (del_file n ?sp)\<lparr>clock := clock ?sp + int d\<rparr>)"
      using hand_back_cases [OF assms(5,4)] by blast
    have cong: "moved X G ?sp (u\<lparr>clock := c\<rparr>) [] [] = moved X G ?sp u [] []"
      "sound X (u\<lparr>clock := c\<rparr>) (u\<lparr>clock := c\<rparr>) = sound X u u" for G u c
      by (rule moved_cong(2), simp_all) (rule sound_cong [symmetric], simp_all)
    have "moved X (takes (j_pc j) ?s) ?sp (del_file n ?sp) [] []" if "n \<in> takes (j_pc j) ?s" for n
      by (rule moved_mono [OF moved_del]) (use that own in auto)
    then have "moved X (takes (j_pc j) ?s) ?sp u [] [] \<and> (sound X ?sp ?sp \<longrightarrow> sound X u u) \<and> minted u = minted ?sp \<and> fades ?sp u"
      if "u = ?sp\<lparr>clock := clock ?sp + int d\<rparr> \<or> (\<exists>n \<in> takes (j_pc j) ?s. u = (del_file n ?sp)\<lparr>clock := clock ?sp + int d\<rparr>)" for u
      using that sound_del [of X ?sp] moved_refl by (auto simp: cong fades_def split: if_splits)
    from this [OF d] show ?thesis .
  qed
  have "balanced X sp l"
    by (rule balanced_step [where j = j and ws = "[]" and qs = "[]" and G = "takes (j_pc j) ?s"]) (use ok moves own assms(3) in simp_all)
  moreover have "named X (j_lives j) ?t"
    using ok named_fades [of X "j_lives j" ?sp ?t] moves by simp
  ultimately show ?thesis
    using ok moves own joint_in_order [OF assms(1,2)] unfolding joint_ok_def assms(3) by simp
qed

text \<open>What a call on the spool enters into the ledger keeps it balanced.\<close>

lemma moved_script: "moved X G (s\<lparr>script := evs\<rparr>) t cs x = moved X G s t cs x"
  by (rule moved_cong(1)) (simp_all add: file_of_def fun_eq_iff)

lemma sound_script: "sound X s s \<Longrightarrow> sound X (s\<lparr>script := evs\<rparr>) (s\<lparr>script := evs\<rparr>)"
  by (rule sound_cong [THEN iffD2, rotated -1]) simp_all

lemma ok_entered:
  assumes "joint_step X srcs j l" and "joint_ok X srcs sp j"
    and "entered X ((a_spool (j_agent j))\<lparr>script := evs\<rparr>) (a_spool (j_agent l)) line ok k cs (j_lives j) (j_lives l)"
    and "pump_run (j_lives l) (j_pc j) (lend (a_spool (j_agent j)) evs' rs p (j_ship j)) G pc sh"
    and "shipped ((a_spool (j_agent j))\<lparr>script := evs\<rparr>) \<subseteq> G"
    and "j_pc l = pc" "requests (j_ship l) = requests sh" "j_sealed l = j_sealed j @ cs" "j_writes l = j_writes j @ ws"
    and "list_all2 (lands X) qs ws" and "take k line = concat qs"
    and "a_main (j_agent l) = Waiting \<Longrightarrow> sound X (a_spool (j_agent l)) (a_spool (j_agent l))"
    and "wrotes (a_trace (j_agent l)) = wrotes (a_trace (j_agent j)) @ map fst ws"
  shows "joint_ok X srcs sp l"
proof -
  let ?sp = "a_spool (j_agent j)" and ?s = "lend (a_spool (j_agent j)) evs' rs p (j_ship j)"
  note ok = assms(2) [unfolded joint_ok_def]
  note e = assms(3) [unfolded entered_def moved_script]
  have ow: "owns (j_lives l) ?s (j_pc j)" using owns_mono [of "j_lives j" "j_ship j" _ "j_lives l" ?s] ok e by simp
  have ag: "agrees (j_lives l) ?s" using agrees_mono [of "j_lives j" ?sp] ok e by (simp add: named_def)
  have run: "owns (j_lives l) (j_ship l) pc" "set (requests (j_ship j)) \<subseteq> set (requests (j_ship l))"
    "\<forall>n \<in> G. answered (j_lives l) (j_ship l) n"
    using pump_run_owns [OF assms(4) ow ag] assms(7) owns_mono [OF _ map_le_refl, of "j_lives l" sh pc "j_ship l"]
    by (simp_all add: answered_def)
  have "moved X G ?sp (a_spool (j_agent l)) cs (take k line)"
    by (rule moved_mono [OF _ assms(5)]) (use e in blast)
  from balanced_step [OF _ this assms(8-11), where sp = sp] ok e run assms(7)
  have "balanced X sp l" by simp
  moreover have "recorded X (j_lives l) (j_sealed l)"
    using ok e recorded_mono [of X "j_lives j" "j_sealed j" "j_lives l"] by (simp add: assms(8) recorded_def)
  moreover have "agrees (j_lives l) sp" using ok e agrees_mono by blast
  ultimately show ?thesis
    using ok e run assms(6,7,9,12,13) joint_in_order [OF assms(1,2)] unfolding joint_ok_def by simp
qed

lemma joint_ok_step:
  assumes step: "joint_step X srcs j l" and ok: "joint_ok X srcs sp j"
  shows "joint_ok X srcs sp l"
  using step
proof cases
  case (ship_call evs rs p pc sh)
  then show ?thesis using ok_ship_call [OF step ok] by blast
next
  case (write_line a i e es evs r t k cs L evs' rs p G pc sh)
  let ?s = "(a_spool a)\<lparr>script := evs\<rparr>"
  note o = ok [unfolded joint_ok_def]
  have "a_main a = Waiting" using in_order_running(1) [of srcs a i] o write_line(2-4) by auto
  then have s: "sound X ?s ?s" using o write_line(2) sound_script by blast
  have "roomy X ?s (line_of X e)"
    using write_line(5) file_of_same_dir [of ?s "a_spool a"] by (simp add: roomy_def seg_total_def content_of_def)
  with write_moved [OF write_line(6) s] have t: "sound X t t" using sound_step(1) by blast
  have "lands X (take k (line_of X e)) (e, r = Inr ())"
    using write_line(7) by (auto simp: entered_def lands_def take_is_prefix)
  then show ?thesis
    by (intro ok_entered [OF step ok, where evs = evs and G = G and pc = pc and sh = sh and cs = cs and k = k
          and line = "line_of X e" and ok = "r = Inr ()" and ws = "[(e, r = Inr ())]" and qs = "[take k (line_of X e)]"
          and evs' = evs' and rs = rs and p = p])
      (use write_line t o \<open>a_main a = Waiting\<close> in auto)
next
  case (final_flush a evs r t cs L)
  let ?s = "(a_spool a)\<lparr>script := evs\<rparr>"
  note o = ok [unfolded joint_ok_def]
  have "shipped ?s = {}" using final_flush(5) shipped_none [of ?s] by simp
  then show ?thesis
    by (intro ok_entered [OF step ok, where evs = evs and G = "{}" and pc = "j_pc j" and sh = "lend (a_spool a) [] [] 0 (j_ship j)" and cs = cs
          and k = 0 and line = "[]" and ok = False and ws = "[]" and qs = "[]" and evs' = "[]" and rs = "[]" and p = 0])
      (use final_flush o pump_run.here in \<open>auto split: sum.splits if_splits\<close>)
next
  case (final_drain a evs k rs p r sh)
  let ?s = "lend (a_spool a) evs rs p (j_ship j)"
  note o = ok [unfolded joint_ok_def]
  have allowed: "script_allowed ShipStopped (script ?s)" using allowed_no_ships [OF final_drain(4)] by simp
  have d: "delivered ?s sh" by (rule delivered_run [OF final_drain(5)])
  then have q: "set (requests (j_ship j)) \<subseteq> set (requests sh)" by (simp add: delivered_def)
  have answers: "answered (j_lives j) sh n" if "is_seg n" "file_of ?s n = Some c" "(batch_id n, c, w) \<in> set (requests sh)" "final w" for n c w
    using that o final_drain(2) unfolding answered_def named_def agrees_def by auto
  let ?G = "{n. is_seg n \<and> file_of sh n = None \<and> (\<exists>c w. file_of ?s n = Some c \<and> (batch_id n, c, w) \<in> set (requests sh) \<and> final w)}"
  have m: "moved X ?G (a_spool a) (with_world sh (a_spool a)) [] []"
    by (rule drain_moved [OF same_world_lend allowed final_drain(5)])
  have f: "fades (a_spool a) (with_world sh (a_spool a))"
    using d unfolding delivered_def fades_def by auto
  have "minted (a_spool a) \<le> minted (with_world sh (a_spool a))" using m unfolding moved_def by blast
  from named_fades [OF _ f this] have "named X (j_lives j) (with_world sh (a_spool a))"
    using o final_drain(2) by blast
  moreover have "balanced X sp l"
    by (rule balanced_step [where j = j and ws = "[]" and qs = "[]" and G = ?G])
      (use o final_drain m q answers in auto)
  moreover have "owns (j_lives j) sh (j_pc j)" using o q owns_mono [OF _ map_le_refl] by blast
  ultimately show ?thesis
    using o joint_in_order [OF step ok] final_drain(1,2) unfolding joint_ok_def by simp
qed (rule ok_quiet [OF step ok]; simp)+

text \<open>The ledger never stands in the way: whatever a write or the flush does, it can be entered.\<close>

lemma write_entered:
  assumes "joint_ok X srcs sp j" and "a_main (j_agent j) = Waiting"
    and "roomy X (a_spool (j_agent j)) (line_of X e)"
    and "spool_write X e ((a_spool (j_agent j))\<lparr>script := evs\<rparr>) = (r, t)"
  shows "\<exists>k cs L. entered X ((a_spool (j_agent j))\<lparr>script := evs\<rparr>) t (line_of X e) (r = Inr ()) k cs (j_lives j) L"
proof -
  let ?s = "(a_spool (j_agent j))\<lparr>script := evs\<rparr>"
  note o = assms(1) [unfolded joint_ok_def]
  have "sound X ?s ?s" using o assms(2) sound_script by blast
  moreover have "roomy X ?s (line_of X e)"
    using assms(3) file_of_same_dir [of ?s "a_spool (j_agent j)"] by (simp add: roomy_def seg_total_def content_of_def)
  ultimately obtain cs k where m: "moved X (shipped ?s) ?s t cs (take k (line_of X e))"
    "r = Inr () \<longrightarrow> k = length (line_of X e) \<and> line_of X e \<noteq> []" using write_moved [OF assms(4)] by blast
  have "named X (j_lives j) ?s"
    using o named_cong [OF file_of_same_dir, of ?s "a_spool (j_agent j)"] by simp
  then obtain L where "j_lives j \<subseteq>\<^sub>m L" "named X L t" "recorded X L cs"
    using m(1) unfolding moved_def names_def by blast
  with m have "entered X ?s t (line_of X e) (r = Inr ()) k cs (j_lives j) L" by (simp add: entered_def)
  then show ?thesis by blast
qed

lemma flush_entered:
  assumes "joint_ok X srcs sp j" and "a_main (j_agent j) = Waiting"
    and "seg_total (a_spool (j_agent j)) + int (length (zenc X (active_of (a_spool (j_agent j))))) \<le> max_bytes (a_spool (j_agent j))"
    and "spool_close X ((a_spool (j_agent j))\<lparr>script := evs\<rparr>) = (r, t)"
  shows "\<exists>cs L. entered X ((a_spool (j_agent j))\<lparr>script := evs\<rparr>) t [] False 0 cs (j_lives j) L"
proof -
  let ?s = "(a_spool (j_agent j))\<lparr>script := evs\<rparr>"
  note o = assms(1) [unfolded joint_ok_def]
  have "sound X ?s ?s" using o assms(2) sound_script by blast
  moreover have "seg_total ?s + int (length (zenc X (active_of ?s))) \<le> max_bytes ?s"
    using assms(3) file_of_same_dir [of ?s "a_spool (j_agent j)"] by (simp add: seg_total_def content_of_def)
  ultimately obtain cs where m: "moved X (shipped ?s) ?s t cs []" using close_moved [OF assms(4)] by blast
  have "named X (j_lives j) ?s"
    using o named_cong [OF file_of_same_dir, of ?s "a_spool (j_agent j)"] by simp
  then obtain L where "j_lives j \<subseteq>\<^sub>m L" "named X L t" "recorded X L cs"
    using m unfolding moved_def names_def by blast
  with m have "entered X ?s t [] False 0 cs (j_lives j) L" by (simp add: entered_def)
  then show ?thesis by blast
qed

lemma joint_ok_init:
  assumes "good_dir sp" and "fresh_ids X sp"
  shows "joint_ok X srcs sp (joint_init h sp (length srcs) shipping sh)"
proof -
  have "n < seg_name X k" if "is_seg n" "file_of sp n \<noteq> None" "minted sp \<le> k" for n k
    using assms(2) that unfolding fresh_ids_def set_seg_names_file by auto
  moreover have "balanced X sp (joint_init h sp (length srcs) shipping sh)"
    using moved_refl by (auto simp: balanced_def joint_init_def agent_init_def intro!: exI [of _ "[]"])
  ultimately show ?thesis
    using assms in_order_init [of srcs h sp shipping]
    by (auto simp: joint_ok_def joint_init_def sound_def named_def agrees_def recorded_def agent_init_def
        split: if_splits)
qed

lemma joint_run_ok: "joint_run X srcs j l \<Longrightarrow> joint_ok X srcs sp j \<Longrightarrow> joint_ok X srcs sp l"
  by (induction rule: joint_run.induct) (use joint_ok_step in blast)+

lemma joint_reaches:
  assumes "joint_run X srcs (joint_init h sp (length srcs) shipping sh) l"
    and "good_dir sp" and "fresh_ids X sp"
  shows "agent_reaches X srcs (agent_init h sp (length srcs) shipping) (j_agent l)"
  using assms(1)
proof (induction rule: joint_run.induct)
  case start
  then show ?case by (simp add: joint_init_def agent_reaches.here)
next
  case (further j l)
  from joint_run_ok [OF further(1) joint_ok_init [OF assms(2,3)]] have "joint_ok X srcs sp j" .
  then have "agent_reaches X srcs (j_agent j) (j_agent l)"
    using joint_refines_step [OF further(2)] by (simp add: joint_ok_def named_def)
  then show ?case using further(3) by (rule reaches_trans)
qed

text \<open>A POST of \<open>c\<close> as the segment \<open>n\<close> has got a final reply.\<close>

definition acked :: "'h joint \<Rightarrow> string \<Rightarrow> string \<Rightarrow> bool" where
  "acked j n c \<longleftrightarrow> (\<exists>reply. (batch_id n, c, reply) \<in> set (requests (j_ship j)) \<and> final reply)"

lemma joint_account:
  assumes "joint_run X srcs (joint_init h sp (length srcs) shipping sh) l"
    and "good_dir sp" and "fresh_ids X sp"
  shows "\<exists>ps. list_all2 (lands X) ps (j_writes l)
      \<and> active_of sp @ concat ps = concat (map snd (j_sealed l)) @ active_of (a_spool (j_agent l))"
    and "map fst (j_writes l) = wrotes (a_trace (j_agent l))" and "sorted_wrt (<) (map fst (j_sealed l))"
    and "list_all (\<lambda>(i, c). file_of (a_spool (j_agent l)) (seg_name X i) = Some (zenc X c)
      \<or> acked l (seg_name X i) (zenc X c)) (j_sealed l)"
    and "is_seg n \<Longrightarrow> file_of sp n = Some c \<Longrightarrow> file_of (a_spool (j_agent l)) n = Some c \<or> acked l n c"
proof -
  note ok = joint_run_ok [OF assms(1) joint_ok_init [OF assms(2,3)], unfolded joint_ok_def]
  then obtain ps where ps: "list_all2 (lands X) ps (j_writes l)"
    and m: "moved X {n. answered (j_lives l) (j_ship l) n} sp (a_spool (j_agent l)) (j_sealed l) (concat ps)"
    by (auto simp: balanced_def)
  note m' = m [unfolded moved_def]
  from ps m' show "\<exists>ps. list_all2 (lands X) ps (j_writes l)
      \<and> active_of sp @ concat ps = concat (map snd (j_sealed l)) @ active_of (a_spool (j_agent l))" by blast
  show "map fst (j_writes l) = wrotes (a_trace (j_agent l))" using ok by simp
  show "sorted_wrt (<) (map fst (j_sealed l))" using m' by blast
  have ans: "acked l n c" if "answered (j_lives l) (j_ship l) n" "j_lives l n = Some c" for n c
    using that by (auto simp: answered_def acked_def)
  show "list_all (\<lambda>(i, c). file_of (a_spool (j_agent l)) (seg_name X i) = Some (zenc X c)
      \<or> acked l (seg_name X i) (zenc X c)) (j_sealed l)"
    using m' ok ans unfolding list_all_iff recorded_def stored_def by fastforce
  show "file_of (a_spool (j_agent l)) n = Some c \<or> acked l n c" if "is_seg n" "file_of sp n = Some c"
  proof -
    have "j_lives l n = Some c" using ok that by (simp add: agrees_def)
    with m' that ans show ?thesis by (auto simp: spared_def)
  qed
qed

section \<open>Properties\<close>

text \<open>
  Three runs: a source writes and the write fails after two bytes; the shipper drains a segment it finds
  at the start; an agent without sources is cancelled at once and drains on its way out.
\<close>

definition demo_old :: spool where
  "demo_old = demo_spool [(active_name, ''old''), (''A.jsonl.zst'', ''xyz'')] 2000 []"

abbreviation demo_joint :: "unit source list \<Rightarrow> unit joint" where
  "demo_joint srcs \<equiv> joint_init () demo_old (length srcs) True (demo_shipper True [Status 200] 0)"

lemma joint_init_simps [simp]:
  "a_phases (j_agent (joint_init h sp n b sh)) = replicate n Idle" "a_spool (j_agent (joint_init h sp n b sh)) = sp"
  "a_main (j_agent (joint_init h sp n b sh)) = Waiting" "a_mutex (j_agent (joint_init h sp n b sh)) = None"
  "a_ship (j_agent (joint_init h sp n b sh)) = (if b then ShipIdle else NoShipper)"
  "a_trace (j_agent (joint_init h sp n b sh)) = []" "a_cancelled (j_agent (joint_init h sp n b sh)) = False"
  "j_pc (joint_init h sp n b sh) = Listing" "j_ship (joint_init h sp n b sh) = sh"
  "j_writes (joint_init h sp n b sh) = []" "j_sealed (joint_init h sp n b sh) = []"
  by (simp_all add: joint_init_def agent_init_def)

lemma demo_old_good: "good_dir demo_old" "fresh_ids demo_libs demo_old"
  "file_of demo_old ''A.jsonl.zst'' = Some ''xyz''" "active_of demo_old = ''old''"
proof -
  have seg: "seg_names (dir demo_old) = [''A.jsonl.zst'']"
    by (simp add: demo_old_def demo_spool_def seg_names_def is_seg_def active_name_def seg_suffix_def has_suffix_def)
  show "good_dir demo_old" by (simp add: good_dir_def demo_old_def demo_spool_def active_name_def)
  have "CHR ''A'' < CHR ''a''" by (simp add: less_char_def)
  then have "''A.jsonl.zst'' < seg_name demo_libs k" for k
    by (simp add: seg_name_def demo_libs_def less_list_code)
  then show "fresh_ids demo_libs demo_old" by (simp add: fresh_ids_def seg demo_names_less)
qed (simp_all add: demo_old_def demo_spool_def file_of_def content_of_def active_name_def)

lemma demo_line_room: "roomy demo_libs demo_old (line_of demo_libs demo_envelope)"
proof -
  obtain b where b: "marshal_envelope (json_codec demo_libs) demo_envelope = Inr b"
    "roomy demo_libs (demo_spool [(active_name, ''old'')] 1000 []) (b @ [newline])" using demo_line by blast
  have "seg_total demo_old = 3"
    by (simp add: seg_total_def demo_old_def demo_spool_def content_of_def file_of_def seg_names_def is_seg_def
        active_name_def seg_suffix_def has_suffix_def)
  moreover have "length b \<le> 1000" using b(2) by (simp add: roomy_def seg_total_def demo_spool_def seg_names_def)
  ultimately show ?thesis
    using b(1) demo_old_good(4) by (simp add: roomy_def line_of_def) (simp add: demo_old_def demo_spool_def)
qed

lemma demo_joint_write:
  "\<exists>r l. joint_run demo_libs [demo_source] (demo_joint [demo_source]) l \<and> j_writes l = [(demo_envelope, r)]"
proof -
  let ?j = "demo_joint [demo_source]"
  let ?a = "j_agent ?j"
  have c: "src_collect ([demo_source] ! 0) (a_host ?a) = (Inr [demo_envelope], ())"
    by (simp add: demo_source_def ret_def)
  let ?a1 = "?a\<lparr>a_host := (), a_phases := (a_phases ?a)[0 := Emitting [demo_envelope]],
    a_trace := a_trace ?a @ [Collected 0 [demo_envelope]]\<rparr>"
  let ?a2 = "?a1\<lparr>a_phases := (a_phases ?a1)[0 := Locked demo_envelope []], a_mutex := Some 0\<rparr>"
  let ?j1 = "?j\<lparr>j_agent := ?a1\<rparr>" and ?j2 = "?j\<lparr>j_agent := ?a2\<rparr>"
  have "agent_step demo_libs [demo_source] ?a ?a1" by (rule agent_step.tick [OF _ _ _ c]) simp_all
  then have "joint_step demo_libs [demo_source] ?j ?j1" by (rule joint_step.work) simp_all
  then have r1: "joint_run demo_libs [demo_source] ?j ?j1" by (rule joint_run.further [OF joint_run.start])
  have "agent_step demo_libs [demo_source] (j_agent ?j1) ?a2"
  proof -
    have "agent_step demo_libs [demo_source] ?a1 ?a2" by (rule agent_step.lock) simp_all
    then show ?thesis by simp
  qed
  then have "joint_step demo_libs [demo_source] ?j1 (?j1\<lparr>j_agent := ?a2\<rparr>)" by (rule joint_step.work) simp_all
  then have r2: "joint_run demo_libs [demo_source] ?j ?j2" using joint_run.further [OF r1] by simp
  have ok: "joint_ok demo_libs [demo_source] demo_old ?j2"
    by (rule joint_run_ok [OF r2 joint_ok_init [OF demo_old_good(1,2)]])
  let ?evs = "[quiet_event\<lparr>ev_fail := Some 2\<rparr>]"
  obtain r t where w: "spool_write demo_libs demo_envelope ((a_spool ?a2)\<lparr>script := ?evs\<rparr>) = (r, t)" by fastforce
  have room: "roomy demo_libs (a_spool ?a2) (line_of demo_libs demo_envelope)" using demo_line_room by simp
  obtain k cs L where e: "entered demo_libs ((a_spool ?a2)\<lparr>script := ?evs\<rparr>) t (line_of demo_libs demo_envelope)
      (r = Inr ()) k cs (j_lives ?j2) L"
    using write_entered [OF ok, of demo_envelope ?evs r t] room w by auto
  have "joint_step demo_libs [demo_source] ?j2 (?j2\<lparr>j_agent := ?a2\<lparr>a_spool := t,
        a_phases := (a_phases ?a2)[0 := Written []], a_trace := a_trace ?a2 @ [Wrote 0 demo_envelope]\<rparr>,
      j_pc := Listing, j_ship := lend demo_old [] [] 0 (j_ship ?j2), j_lives := L, j_writes := j_writes ?j2 @ [(demo_envelope, r = Inr ())],
      j_sealed := j_sealed ?j2 @ cs\<rparr>)"
    by (rule joint_step.write_line [OF _ _ _ room w e, where evs' = "[]" and rs = "[]" and p = 0 and G = "{}"])
      (simp_all add: pump_run.here shipped_def quiet_event_def same_private_def lend_def)
  from joint_run.further [OF r2 this] show ?thesis by (intro exI conjI) (assumption, simp add: joint_init_def)
qed

lemma call_step:
  "pump_next pc (lend sp [] rs p s) = Some (pc', s') \<Longrightarrow> joint_step X srcs
     (j\<lparr>j_agent := a\<lparr>a_ship := Draining, a_spool := sp\<rparr>, j_pc := pc, j_ship := s\<rparr>)
     (j\<lparr>j_agent := a\<lparr>a_ship := Draining, a_spool := hand_back s' sp\<rparr>, j_pc := pc', j_ship := s'\<rparr>)"
  using joint_step.ship_call [of "j\<lparr>j_agent := a\<lparr>a_ship := Draining, a_spool := sp\<rparr>, j_pc := pc, j_ship := s\<rparr>" "[]" rs p pc' s' X srcs]
  by (simp add: script_allowed_def)

lemma demo_joint_ship:
  "\<exists>l. joint_run demo_libs [demo_source] (demo_joint [demo_source]) l
     \<and> file_of (a_spool (j_agent l)) ''A.jsonl.zst'' = None"
proof -
  let ?j = "demo_joint [demo_source]" and ?n = "''A.jsonl.zst''"
  let ?s = "lend demo_old [] [Status 200] 0 (demo_shipper True [Status 200] 0)"
  let ?at = "\<lambda>pc s sp. ?j\<lparr>j_agent := (j_agent ?j)\<lparr>a_ship := Draining, a_spool := sp\<rparr>, j_pc := pc, j_ship := s\<rparr>"
  have same: "lend demo_old [] [Status 200] 0 ?s = ?s" "hand_back ?s demo_old = demo_old" "script ?s = []" "url_ok ?s"
    by (simp_all add: lend_def hand_back_def with_world_def)
  have seg: "seg_names (dir demo_old) = [?n]"
    by (simp add: demo_old_def demo_spool_def seg_names_def is_seg_def active_name_def seg_suffix_def has_suffix_def)
  have "joint_step demo_libs [demo_source] ?j (?at Listing (demo_shipper True [Status 200] 0) demo_old)"
    using joint_step.drain_tick [of ?j demo_libs "[demo_source]"] by (simp add: joint_init_def agent_init_def)
  then have r1: "joint_run demo_libs [demo_source] ?j (?at Listing (demo_shipper True [Status 200] 0) demo_old)"
    by (rule joint_run.further [OF joint_run.start])
  have "pump_next Listing ?s = Some (Picking [?n], ?s)" by (simp add: quiet_calls(1) seg)
  from joint_run.further [OF r1 call_step [OF this]] have r2: "joint_run demo_libs [demo_source] ?j (?at (Picking [?n]) ?s demo_old)"
    by (simp add: same)
  have "pump_next (Picking [?n]) (lend demo_old [] [Status 200] 0 ?s) = Some (Posting ?n ''xyz'' [], ?s)"
    using quiet_calls(4) [of ?s ?n "''xyz''"] demo_old_good(3) by (simp add: same)
  from joint_run.further [OF r2 call_step [OF this]] have r3: "joint_run demo_libs [demo_source] ?j (?at (Posting ?n ''xyz'' []) ?s demo_old)"
    by (simp add: same)
  let ?v = "posted ?n ''xyz'' (Status 200) ?s"
  have "pump_next (Posting ?n ''xyz'' []) (lend demo_old [] [Status 200] 0 ?s) = Some (Removing ?n [], ?v)"
    unfolding same by (simp add: http_do_def posted_def final_def lend_def)
  from joint_run.further [OF r3 call_step [OF this]] have r4: "joint_run demo_libs [demo_source] ?j (?at (Removing ?n []) ?v demo_old)"
    by (simp add: posted_def hand_back_def with_world_def lend_def)
  let ?w = "lend demo_old [] [] 0 ?v"
  have "remove_file ?n ?w = (Inr (), del_file ?n ?w)" using quiet_calls(3) [of ?w ?n "''xyz''"] demo_old_good(3) by simp
  then have "pump_next (Removing ?n []) ?w = Some (Picking [], reset_backoff (del_file ?n ?w))" by simp
  from joint_run.further [OF r4 call_step [OF this]] show ?thesis
    by (intro exI conjI) (assumption, simp add: reset_backoff_def file_of_def delete_conv)
qed

lemma demo_joint_exit:
  "\<exists>l. joint_run demo_libs [] (demo_joint []) l \<and> a_main (j_agent l) = Returned None"
proof -
  let ?j = "demo_joint []"
  let ?a1 = "(j_agent ?j)\<lparr>a_cancelled := True\<rparr>"
  let ?a2 = "?a1\<lparr>a_ship := ShipStopped\<rparr>"
  let ?j1 = "?j\<lparr>j_agent := ?a1\<rparr>" and ?j2 = "?j\<lparr>j_agent := ?a2\<rparr>"
  have "joint_step demo_libs [] ?j ?j1" by (rule joint_step.work [OF agent_step.cancel]) simp_all
  then have r1: "joint_run demo_libs [] ?j ?j1" by (rule joint_run.further [OF joint_run.start])
  have r2: "joint_run demo_libs [] ?j ?j2"
    using joint_run.further [OF r1 joint_step.ship_halt [of ?j1]] by simp
  have ok: "joint_ok demo_libs [] demo_old ?j2"
    by (rule joint_run_ok [OF r2 joint_ok_init [OF demo_old_good(1,2)]])
  have ready: "ready demo_libs demo_old"
    using demo_old_good(1,2) by (simp add: ready_def) (simp add: demo_old_def demo_spool_def file_of_def)
  have exact: "size_exact demo_old"
    by (simp add: size_exact_def reliable_def demo_old_def demo_spool_def content_of_def file_of_def)
  have "seg_total demo_old = 3"
    by (simp add: seg_total_def demo_old_def demo_spool_def content_of_def file_of_def seg_names_def is_seg_def
        active_name_def seg_suffix_def has_suffix_def)
  moreover have cap: "max_bytes demo_old = 2000" by (simp add: demo_old_def demo_spool_def)
  ultimately have room: "seg_total demo_old + int (length (zenc demo_libs (active_of demo_old))) \<le> max_bytes demo_old"
    using demo_old_good(4) by simp
  obtain t where close: "spool_close demo_libs demo_old = (Inr (), t)" and t: "good_dir t"
    using spool_close_ready [OF ready demo_zenc exact room] by blast
  have noscript: "demo_old\<lparr>script := []\<rparr> = demo_old" by (simp add: demo_old_def demo_spool_def)
  obtain cs L where "entered demo_libs ((a_spool ?a2)\<lparr>script := []\<rparr>) t [] False 0 cs (j_lives ?j2) L"
    using flush_entered [OF ok, of "[]" "Inr ()" t] close room by (auto simp: noscript)
  then have e: "entered demo_libs (demo_old\<lparr>script := []\<rparr>) t [] False 0 cs (j_lives ?j2) L" by simp
  let ?a3 = "?a2\<lparr>a_spool := t, a_main := Flushed, a_trace := [SpoolClosed]\<rparr>"
  let ?j3 = "?j2\<lparr>j_agent := ?a3, j_lives := L, j_sealed := cs\<rparr>"
  have "joint_step demo_libs [] ?j2 ?j3"
    using joint_step.final_flush [of ?j2 ?a2 "[]" demo_libs "Inr ()" t cs L "[]"] e room close
    by (simp add: workers_done_def script_allowed_def noscript)
  from joint_run.further [OF r2 this] have r3: "joint_run demo_libs [] ?j ?j3" .
  let ?ns = "seg_names (dir t)"
  let ?u = "lend t [] (replicate (length ?ns) (Status 200)) 0 (j_ship ?j3)"
  have "\<exists>v. run_ship 2 segments ?u = Some (Inr (), v)
    \<and> (\<forall>n. file_of v n = (if is_seg n then None else file_of ?u n))
    \<and> requests v = requests ?u @ concat (map2 (\<lambda>n q. round_requests n (content_of ?u n) q) ?ns
        (replicate (length ?ns) ([], Status 200)))"
    by (rule spool_lister.run_drains_store [where rest = "[]"])
      (use t in \<open>simp_all add: quiet_calls(1) good_dir_def round_ok_def final_def round_replies_def total_failures_def
        lend_def list_all_length concat_replicate_trivial map_replicate_const sum_list_replicate\<close>)
  then obtain v where "run_ship 2 segments ?u = Some (Inr (), v)" by blast
  let ?l = "?j3\<lparr>j_agent := ?a3\<lparr>a_spool := with_world v t, a_main := Returned None,
      a_trace := [SpoolClosed, Drained]\<rparr>, j_ship := v\<rparr>"
  have "joint_step demo_libs [] ?j3 ?l"
    using joint_step.final_drain [where j = ?j3 and a = ?a3 and evs = "[]" and k = 2 and p = 0
        and rs = "replicate (length ?ns) (Status 200)" and r = "Inr ()" and sh = v] \<open>run_ship 2 segments ?u = Some (Inr (), v)\<close>
    by (simp add: script_allowed_def)
  from joint_run.further [OF r3 this] have "joint_run demo_libs [] ?j ?l" .
  then show ?thesis by (rule exI [of _ ?l, OF conjI]) simp
qed







end
