(* ===== verification/CgroupLive.thy ===== *)
theory CgroupLive
  imports Cgroup
begin

text \<open>
  \<open>internal/collector/cgroup.go\<close> on a hierarchy that changes while it is walked: containers start and
  stop during a \<open>Collect\<close>. The \<open>k\<close>-th call of \<open>os\<close> that \<open>Collect\<close> makes sees the tree \<open>tr k\<close>; when all
  trees are the same, this is the collector of \<open>Cgroup\<close>.
\<close>

section \<open>The walk, call by call\<close>

record 'c live_state = "'c walk_state" +
  l_calls :: nat

definition at_call :: "(nat \<Rightarrow> node) \<Rightarrow> (node \<Rightarrow> err + 'a) \<Rightarrow> ('c live_state, 'a) act" where
  "at_call tr f s = (f (tr (l_calls s)), s\<lparr>l_calls := Suc (l_calls s)\<rparr>)"

definition live_client :: "('c, 'a) act \<Rightarrow> ('c live_state, 'a) act" where
  "live_client m s = (case m (w_client s) of (r, c) \<Rightarrow> (r, s\<lparr>w_client := c\<rparr>))"

definition live_files :: "(nat \<Rightarrow> node) \<Rightarrow> path \<Rightarrow> string \<Rightarrow> ('c live_state, cgroup_mem) act" where
  "live_files tr dir rel_path =
     bind_act (at_call tr (\<lambda>t. read_uint_file t (dir @ [''memory.current'']))) (\<lambda>current.
     bind_act (at_call tr (\<lambda>t. read_uint_file t (dir @ [''memory.swap.current'']))) (\<lambda>swap.
     bind_act (at_call tr (\<lambda>t. read_nullable_uint t (dir @ [''memory.max'']))) (\<lambda>mx.
     bind_act (at_call tr (\<lambda>t. read_nullable_uint t (dir @ [''memory.min'']))) (\<lambda>mn.
     bind_act (at_call tr (\<lambda>t. read_nullable_uint t (dir @ [''memory.low'']))) (\<lambda>low.
     bind_act (at_call tr (\<lambda>t. read_nullable_uint t (dir @ [''memory.high'']))) (\<lambda>high.
     bind_act (at_call tr (\<lambda>t. read_nullable_uint t (dir @ [''memory.peak'']))) (\<lambda>peak.
     bind_act (at_call tr (\<lambda>t. read_cgroup_psi t (dir @ [''memory.pressure'']))) (\<lambda>p.
       at_call tr (\<lambda>t. read_memory_stat t
         ((zero_cgroup rel_path)\<lparr>cg_Current := current, cg_SwapCurrent := swap, cg_Max := mx,
            cg_Min := mn, cg_Low := low, cg_High := high, cg_Peak := peak, cg_PSI := p\<rparr>) dir)))))))))"

definition live_read ::
  "(nat \<Rightarrow> node) \<Rightarrow> 'c pod_lookup option \<Rightarrow> path \<Rightarrow> string \<Rightarrow> ('c live_state, cgroup_mem) act" where
  "live_read tr client dir rel_path =
     bind_act (live_files tr dir rel_path) (\<lambda>rec. live_client (enrich client rec))"

function live_walk ::
    "(nat \<Rightarrow> node) \<Rightarrow> 'c cgroup_collector \<Rightarrow> path \<Rightarrow> string list \<Rightarrow> nat \<Rightarrow> ('c live_state, unit) act"
  and live_entries ::
    "(nat \<Rightarrow> node) \<Rightarrow> 'c cgroup_collector \<Rightarrow> path \<Rightarrow> string list \<Rightarrow> nat \<Rightarrow> (string \<times> bool) list
      \<Rightarrow> ('c live_state, unit) act" where
  "live_walk tr c dir segs depth =
     bind_act (at_call tr (\<lambda>t. os_read_dir t dir)) (\<lambda>entries. live_entries tr c dir segs depth entries)"
| "live_entries tr c dir segs depth [] = ret ()"
| "live_entries tr c dir segs depth (e # es) =
     bind_act (get_act (\<lambda>w. max_selected c \<le> int (length (w_out w)))) (\<lambda>full.
       if full then upd_act (\<lambda>w. w\<lparr>w_truncated := True\<rparr>)
       else if \<not> snd e then live_entries tr c dir segs depth es
       else
         let child_segs = segs @ [fst e]; child_dir = dir @ [fst e] in
         bind_act
           (if matches_any child_segs (glob_segs c)
            then bind_act (live_read tr (k8s_client c) child_dir (join ''/'' child_segs))
                   (\<lambda>rec. upd_act (\<lambda>w. w\<lparr>w_out := w_out w @ [rec]\<rparr>))
            else ret ())
           (\<lambda>_. bind_act
             (if depth + 1 < max_cgroup_depth \<and> is_possible_prefix_for_any child_segs (glob_segs c)
              then live_walk tr c child_dir child_segs (depth + 1)
              else ret ())
             (\<lambda>_. live_entries tr c dir segs depth es)))"
  by pat_completeness auto
termination
  by (relation "(\<lambda>x. case x of Inl (tr, c, dir, segs, depth) \<Rightarrow> max_cgroup_depth - depth
        | Inr (tr, c, dir, segs, depth, es) \<Rightarrow> max_cgroup_depth - depth)
      <*mlex*> (\<lambda>x. case x of Inl _ \<Rightarrow> 1 | Inr _ \<Rightarrow> 0)
      <*mlex*> measure (\<lambda>x. case x of Inl _ \<Rightarrow> 0 | Inr (tr, c, dir, segs, depth, es) \<Rightarrow> length es)")
    (auto intro: wf_mlex simp: mlex_prod_def)

declare live_walk.simps [simp del] live_entries.simps [simp del]

definition live_start :: "'c \<Rightarrow> 'c live_state" where
  "live_start client_state =
     \<lparr>w_out = [], w_truncated = False, w_client = client_state, l_calls = 1\<rparr>"

definition live_collect ::
  "(nat \<Rightarrow> node) \<Rightarrow> 'c cgroup_collector \<Rightarrow> 'c \<Rightarrow> (err + cgroup_mem list \<times> bool) \<times> 'c" where
  "live_collect tr c client_state =
     (let root = [''fs'', ''cgroup''] in
      case os_stat (tr 0) (root @ [''cgroup.controllers'']) of
        Inl e \<Rightarrow> (if e = ErrNotExist then Inr ([], False) else Inl e, client_state)
      | Inr _ \<Rightarrow>
          (case live_walk tr c root [] 0 (live_start client_state) of
             (Inl e, w) \<Rightarrow> (Inl e, w_client w)
           | (Inr _, w) \<Rightarrow> (Inr (w_out w, w_truncated w), w_client w)))"

section \<open>A tree that stands still\<close>

text \<open>\<open>m\<close> does what \<open>m'\<close> does, and counts its calls.\<close>

definition core :: "'c live_state \<Rightarrow> 'c walk_state" where
  "core s = \<lparr>w_out = w_out s, w_truncated = w_truncated s, w_client = w_client s\<rparr>"

definition follows :: "('c live_state, 'a) act \<Rightarrow> ('c walk_state, 'a) act \<Rightarrow> bool" where
  "follows m m' \<longleftrightarrow> (\<forall>s. fst (m s) = fst (m' (core s)) \<and> core (snd (m s)) = snd (m' (core s)))"

named_theorems follows_intros \<open>what follows what\<close>

lemma follows_bind [follows_intros]:
  "follows m m' \<Longrightarrow> (\<And>a. follows (f a) (f' a)) \<Longrightarrow> follows (bind_act m f) (bind_act m' f')"
  unfolding follows_def bind_act_def by (auto split: prod.split sum.split) (metis fst_conv snd_conv sum.inject old.sum.distinct)+

lemma follows_basic [follows_intros]:
  "follows (ret a) (ret a)" "follows (fail e) (fail e)" "follows (live_client m) (on_client m)"
  "follows (get_act (\<lambda>w. k \<le> int (length (w_out w)))) (get_act (\<lambda>w. k \<le> int (length (w_out w))))"
  "follows (upd_act (\<lambda>w. w\<lparr>w_truncated := b\<rparr>)) (upd_act (\<lambda>w. w\<lparr>w_truncated := b\<rparr>))"
  "follows (upd_act (\<lambda>w. w\<lparr>w_out := w_out w @ [rec]\<rparr>)) (upd_act (\<lambda>w. w\<lparr>w_out := w_out w @ [rec]\<rparr>))"
  by (simp_all add: follows_def act_defs core_def live_client_def on_client_def split: prod.split)

lemma follows_if [follows_intros]:
  "(b \<Longrightarrow> follows m m') \<Longrightarrow> (\<not> b \<Longrightarrow> follows n n') \<Longrightarrow> follows (if b then m else n) (if b then m' else n')"
  by simp

lemma follows_call [follows_intros]: "follows (at_call (\<lambda>_. t) f) (\<lambda>s. (f t, s))"
  by (simp add: follows_def at_call_def core_def)

lemma follows_res:
  "follows m (\<lambda>s. (r, s)) \<Longrightarrow> (\<And>a. follows (f a) (\<lambda>s. (g a, s))) \<Longrightarrow> follows (bind_act m f) (\<lambda>s. (bind_res r g, s))"
  unfolding follows_def bind_act_def by (cases r) (auto split: prod.split sum.split, (metis fst_conv snd_conv old.sum.distinct sum.inject)+)

lemma follows_files: "follows (live_files (\<lambda>_. t) dir p) (\<lambda>s. (cgroup_files t dir p, s))"
  unfolding live_files_def cgroup_files_def by (intro follows_res follows_call)

lemma follows_read [follows_intros]:
  "follows (live_read (\<lambda>_. t) client dir p) (on_client (read_cgroup client t dir p))"
proof -
  have "on_client (read_cgroup client t dir p)
      = bind_act (\<lambda>s. (cgroup_files t dir p, s)) (\<lambda>rec. on_client (enrich client rec))"
    by (auto simp: fun_eq_iff on_client_def read_cgroup_def bind_act_def fail_def split: sum.split)
  then show ?thesis unfolding live_read_def by (auto intro: follows_intros follows_files)
qed

lemma follows_walk:
  "follows (live_walk (\<lambda>_. sys_root c) c dir segs depth) (walk c dir segs depth)"
  "follows (live_entries (\<lambda>_. sys_root c) c dir segs depth es) (walk_entries c dir segs depth es)"
proof (induction c dir segs depth and c dir segs depth es rule: walk_walk_entries.induct)
  case (1 c dir segs depth)
  have "walk c dir segs depth = bind_act (\<lambda>s. (os_read_dir (sys_root c) dir, s)) (\<lambda>entries. walk_entries c dir segs depth entries)"
    by (auto simp: fun_eq_iff walk.simps [of c] bind_act_def fail_def split: sum.split)
  then show ?case unfolding live_walk.simps using 1
    by (cases "os_read_dir (sys_root c) dir")
      (auto intro!: follows_intros simp: follows_def bind_act_def at_call_def core_def)
next
  case (2 c dir segs depth)
  show ?case unfolding live_entries.simps walk_entries.simps by (rule follows_intros)
next
  case (3 c dir segs depth e es)
  show ?case
    unfolding live_entries.simps walk_entries.simps Let_def
    by (intro follows_intros; use 3 in \<open>force simp: Let_def\<close>)
qed

lemma live_collect_still: "live_collect (\<lambda>_. sys_root c) c = cgroup_collect c"
proof
  fix k
  let ?m = "live_walk (\<lambda>_. sys_root c) c [''fs'', ''cgroup''] [] 0 (live_start k)"
  let ?w = "walk c [''fs'', ''cgroup''] [] 0 \<lparr>w_out = [], w_truncated = False, w_client = k\<rparr>"
  have "core (live_start k) = \<lparr>w_out = [], w_truncated = False, w_client = k\<rparr>" by (simp add: core_def live_start_def)
  then have w: "fst ?m = fst ?w" "core (snd ?m) = snd ?w"
    using follows_walk(1) [of c "[''fs'', ''cgroup'']" "[]" 0] by (simp_all add: follows_def)
  obtain r s r' s' where "?m = (r, s)" "?w = (r', s')" by fastforce
  with w show "live_collect (\<lambda>_. sys_root c) c k = cgroup_collect c k"
    by (auto simp: live_collect_def cgroup_collect_def Let_def core_def split: sum.split)
qed

section \<open>Whatever the tree does\<close>

text \<open>
  \<open>live_ok\<close>: no more records than allowed, each of a path that a glob matches and that is not too deep; the
  warning is not raised before the limit is reached.
\<close>

definition wanted :: "'c cgroup_collector \<Rightarrow> cgroup_mem \<Rightarrow> bool" where
  "wanted c r \<longleftrightarrow> (\<exists>p. cg_Cgroup r = join ''/'' p \<and> matches_any p (glob_segs c) \<and> length p \<le> max_cgroup_depth)"

definition live_ok :: "'c cgroup_collector \<Rightarrow> 'c live_state \<Rightarrow> bool" where
  "live_ok c s \<longleftrightarrow> int (length (w_out s)) \<le> max 0 (max_selected c) \<and> list_all (wanted c) (w_out s)
     \<and> (w_truncated s \<longrightarrow> max_selected c \<le> int (length (w_out s)))"

abbreviation same_out :: "'c live_state \<Rightarrow> 'c live_state \<Rightarrow> bool" where
  "same_out s t \<equiv> w_out t = w_out s \<and> w_truncated t = w_truncated s"

lemma keeps_live_calls [keeps_intros]:
  "(\<And>t n. P t \<Longrightarrow> P (t\<lparr>l_calls := n\<rparr>)) \<Longrightarrow> keeps P (at_call tr f)"
  "(\<And>t k. P t \<Longrightarrow> P (t\<lparr>w_client := k\<rparr>)) \<Longrightarrow> keeps P (live_client m)"
  by (auto simp: keeps_def at_call_def live_client_def split: prod.split)

lemma keeps_out_read: "keeps (same_out s) (live_files tr dir p)" "keeps (same_out s) (live_read tr client dir p)"
  unfolding live_read_def live_files_def by (intro keeps_intros; simp)+

lemma live_files_path: "live_files tr dir p s = (Inr r, t) \<Longrightarrow> cg_Cgroup r = p"
  by (auto simp: live_files_def bind_act_Inr at_call_def zero_cgroup_def dest!: read_memory_stat_keeps)

lemma live_read_path: "live_read tr client dir p s = (Inr r, t) \<Longrightarrow> cg_Cgroup r = p"
proof -
  assume "live_read tr client dir p s = (Inr r, t)"
  then obtain rec u where "live_files tr dir p s = (Inr rec, u)" "live_client (enrich client rec) u = (Inr r, t)"
    by (auto simp: live_read_def bind_act_Inr)
  moreover from this(2) obtain k where "enrich client rec (w_client u) = (Inr r, k)"
    by (auto simp: live_client_def split: prod.splits)
  then have "cg_Cgroup (strip_k8s r) = cg_Cgroup (strip_k8s rec)" by (simp add: enrich_strip)
  ultimately show ?thesis using live_files_path by (auto simp: strip_k8s_def)
qed

lemma live_select_ok:
  assumes "live_ok c s" and "\<not> max_selected c \<le> int (length (w_out s))"
    and "matches_any segs (glob_segs c)" and "length segs \<le> max_cgroup_depth"
  shows "live_ok c (snd (bind_act (live_read tr client dir (join ''/'' segs))
      (\<lambda>rec. upd_act (\<lambda>w. w\<lparr>w_out := w_out w @ [rec]\<rparr>)) s))"
proof -
  obtain r t where rd: "live_read tr client dir (join ''/'' segs) s = (r, t)" by fastforce
  have "same_out s t" by (rule keeps_run [OF keeps_out_read(2) rd]) simp
  moreover have "wanted c rec" if "r = Inr rec" for rec
    using live_read_path [of tr client dir _ s rec t] rd that assms(3,4) unfolding wanted_def by blast
  ultimately show ?thesis using rd assms(1,2)
    by (cases r) (auto simp: bind_act_def upd_act_def live_ok_def)
qed

text \<open>What the loop does for one entry: select the cgroup, then walk below it.\<close>

definition live_pick ::
  "(nat \<Rightarrow> node) \<Rightarrow> 'c cgroup_collector \<Rightarrow> path \<Rightarrow> string list \<Rightarrow> ('c live_state, unit) act" where
  "live_pick tr c dir segs =
     (if matches_any segs (glob_segs c)
      then bind_act (live_read tr (k8s_client c) dir (join ''/'' segs)) (\<lambda>rec. upd_act (\<lambda>w. w\<lparr>w_out := w_out w @ [rec]\<rparr>))
      else ret ())"

definition live_down ::
  "(nat \<Rightarrow> node) \<Rightarrow> 'c cgroup_collector \<Rightarrow> path \<Rightarrow> string list \<Rightarrow> nat \<Rightarrow> ('c live_state, unit) act" where
  "live_down tr c dir segs depth =
     (if depth + 1 < max_cgroup_depth \<and> is_possible_prefix_for_any segs (glob_segs c)
      then live_walk tr c dir segs (depth + 1) else ret ())"

lemma live_entries_Cons:
  "live_entries tr c dir segs depth (e # es) s =
      (if max_selected c \<le> int (length (w_out s)) then (Inr (), s\<lparr>w_truncated := True\<rparr>)
       else if \<not> snd e then live_entries tr c dir segs depth es s
       else bind_act (live_pick tr c (dir @ [fst e]) (segs @ [fst e]))
         (\<lambda>_. bind_act (live_down tr c (dir @ [fst e]) (segs @ [fst e]) depth) (\<lambda>_. live_entries tr c dir segs depth es)) s)"
  by (simp add: live_entries.simps(2) live_pick_def live_down_def Let_def upd_act_def)

lemma keeps_live_ok:
  "length segs = depth \<Longrightarrow> depth < max_cgroup_depth \<Longrightarrow> keeps (live_ok c) (live_walk tr c dir segs depth)"
  "length segs = depth \<Longrightarrow> depth < max_cgroup_depth \<Longrightarrow> keeps (live_ok c) (live_entries tr c dir segs depth es)"
proof (induction tr c dir segs depth and tr c dir segs depth es rule: live_walk_live_entries.induct)
  case (1 tr c dir segs depth)
  then show ?case unfolding live_walk.simps by (intro keeps_intros) (auto simp: live_ok_def)
next
  case (2 tr c dir segs depth)
  show ?case unfolding live_entries.simps by (rule keeps_intros)
next
  case (3 tr c dir segs depth e es)
  note hyps = this
  let ?child = "segs @ [fst e]" and ?dir = "dir @ [fst e]"
  define pick where "pick = live_pick tr c ?dir ?child"
  define down where "down = live_down tr c ?dir ?child depth"
  have eq: "live_entries tr c dir segs depth (e # es) s =
      (if max_selected c \<le> int (length (w_out s)) then (Inr (), s\<lparr>w_truncated := True\<rparr>)
       else if \<not> snd e then live_entries tr c dir segs depth es s
       else bind_act pick (\<lambda>_. bind_act down (\<lambda>_. live_entries tr c dir segs depth es)) s)" for s
    by (simp add: live_entries_Cons pick_def down_def)
  show ?case
    unfolding keeps_def
  proof (intro allI impI)
    fix s assume s: "live_ok c s"
    let ?r = "live_entries tr c dir segs depth (e # es) s"
    consider "max_selected c \<le> int (length (w_out s))" | "\<not> max_selected c \<le> int (length (w_out s))" "\<not> snd e"
      | "\<not> max_selected c \<le> int (length (w_out s))" "snd e" by blast
    then show "live_ok c (snd ?r)"
    proof cases
      case 1
      then show ?thesis using s by (auto simp: eq live_ok_def)
    next
      case 2
      then have "keeps (live_ok c) (live_entries tr c dir segs depth es)" using hyps by simp
      then show ?thesis using s 2 by (simp add: eq keeps_def)
    next
      case 3
      have down: "keeps (live_ok c) down"
        using hyps 3 by (cases "depth + 1 < max_cgroup_depth \<and> is_possible_prefix_for_any ?child (glob_segs c)")
          (auto simp: down_def live_down_def intro: keeps_ret)
      have rest: "keeps (live_ok c) (bind_act down (\<lambda>_. live_entries tr c dir segs depth es))"
        by (intro keeps_bind down) (use hyps 3 in simp)
      obtain r t where p: "pick s = (r, t)" by fastforce
      have "live_ok c (snd (pick s))"
        using s 3(1) hyps live_select_ok [OF s 3(1), of ?child] by (auto simp: pick_def live_pick_def ret_def)
      then have "live_ok c (snd (bind_act pick (\<lambda>_. bind_act down (\<lambda>_. live_entries tr c dir segs depth es)) s))"
        using p keepsD [OF rest] by (auto simp: bind_act_def [of pick] split: sum.split)
      then show ?thesis using 3 by (simp add: eq)
    qed
  qed
qed

section \<open>A directory that is gone\<close>

lemma bind_act_assoc: "bind_act (bind_act m f) g s = bind_act m (\<lambda>a. bind_act (f a) g) s"
  by (simp add: bind_act_def split: prod.split sum.split)

lemma live_entries_full:
  "max_selected c \<le> int (length (w_out s)) \<Longrightarrow> ys \<noteq> [] \<Longrightarrow>
     live_entries tr c dir segs depth ys s = (Inr (), s\<lparr>w_truncated := True\<rparr>)"
  by (cases ys) (simp_all add: live_entries_Cons)

lemma live_entries_append:
  "live_entries tr c dir segs depth (xs @ ys) s =
     bind_act (live_entries tr c dir segs depth xs) (\<lambda>_. live_entries tr c dir segs depth ys) s"
proof (induction xs arbitrary: s)
  case Nil
  then show ?case by (simp add: live_entries.simps(1))
next
  case (Cons x xs)
  have IH: "live_entries tr c dir segs depth (xs @ ys)
      = bind_act (live_entries tr c dir segs depth xs) (\<lambda>_. live_entries tr c dir segs depth ys)"
    using Cons.IH by (simp add: fun_eq_iff)
  show ?case
  proof (cases "max_selected c \<le> int (length (w_out s))")
    case True
    then show ?thesis
      by (cases ys) (simp_all add: live_entries_Cons live_entries.simps(1) bind_act_def ret_def)
  next
    case False
    then show ?thesis
      by (simp add: live_entries_Cons IH) (simp add: live_entries_Cons bind_act_def split: prod.split sum.split)
  qed
qed

text \<open>Every file of a cgroup that is gone reads as missing, which the code takes for a record of zeros.\<close>

definition gone_from :: "nat \<Rightarrow> (nat \<Rightarrow> node) \<Rightarrow> path \<Rightarrow> bool" where
  "gone_from k tr dir \<longleftrightarrow> (\<forall>j \<ge> k. lookup_node (tr j) dir = Inl ErrNotExist)"

lemma gone_reads:
  assumes "lookup_node t dir = Inl ErrNotExist"
  shows "read_uint_file t (dir @ p) = Inr 0" "read_nullable_uint t (dir @ p) = Inr None"
    "read_cgroup_psi t (dir @ p) = Inr None" "read_memory_stat t rec dir = Inr rec" "os_read_dir t dir = Inl ErrNotExist"
proof -
  have f: "os_read_file t (dir @ q) = Inl ErrNotExist" for q
    using assms by (simp add: os_read_file_def lookup_node_append)
  then show "read_uint_file t (dir @ p) = Inr 0" "read_nullable_uint t (dir @ p) = Inr None"
    "read_cgroup_psi t (dir @ p) = Inr None" "read_memory_stat t rec dir = Inr rec"
    by (simp_all add: read_uint_file_def read_nullable_uint_def read_cgroup_psi_def read_memory_stat_def
        scan_kv_def scan_file_def)
  show "os_read_dir t dir = Inl ErrNotExist" using assms by (simp add: os_read_dir_def)
qed

lemma gone_files:
  assumes "gone_from (l_calls s) tr dir"
  shows "live_files tr dir p s = (Inr (zero_cgroup p), s\<lparr>l_calls := l_calls s + 9\<rparr>)"
proof -
  have "lookup_node (tr (l_calls s + i)) dir = Inl ErrNotExist" for i using assms by (simp add: gone_from_def)
  note r = gone_reads [OF this]
  from r [of 0] r [of 1] r [of 2] r [of 3] r [of 4] r [of 5] r [of 6] r [of 7] r [of 8] show ?thesis
    by (simp add: live_files_def bind_act_def at_call_def numeral_eq_Suc zero_cgroup_def)
qed

lemma gone_entry_fails:
  assumes "gone_from (l_calls s) tr (dir @ [n])" and "int (length (w_out s)) < max_selected c"
    and "depth + 1 < max_cgroup_depth" and "is_possible_prefix_for_any (segs @ [n]) (glob_segs c)"
  shows "\<exists>t. live_entries tr c dir segs depth ((n, True) # es) s = (Inl ErrNotExist, t)"
proof -
  have walk: "\<exists>t. live_walk tr c (dir @ [n]) (segs @ [n]) (Suc depth) u = (Inl ErrNotExist, t)" if "l_calls s \<le> l_calls u" for u
    using assms(1) that gone_reads(5) [of "tr (l_calls u)" "dir @ [n]"]
    by (auto simp: gone_from_def live_walk.simps bind_act_def at_call_def)
  obtain r k where en: "enrich (k8s_client c) (zero_cgroup (join ''/'' (segs @ [n]))) (w_client s) = (Inr r, k)"
    using enrich_total [of "k8s_client c"] by (metis (no_types))
  have "live_read tr (k8s_client c) (dir @ [n]) (join ''/'' (segs @ [n])) s
      = (Inr r, s\<lparr>l_calls := l_calls s + 9, w_client := k\<rparr>)"
    using gone_files [OF assms(1)] en by (simp add: live_read_def bind_act_def live_client_def)
  then show ?thesis
    using assms(2-4) walk [of s] walk [of "s\<lparr>l_calls := l_calls s + 9, w_client := k, w_out := w_out s @ [r]\<rparr>"]
    by (auto simp: live_entries_Cons live_pick_def live_down_def bind_act_def act_defs)
qed

section \<open>Properties\<close>

lemma collect_start: "live_ok c (live_start k)"
  by (simp add: live_ok_def live_start_def)

text \<open>
  C18: Whatever happens to the hierarchy while it is walked, a \<open>Collect\<close> that succeeds returns at most \<open>max\<close>
  records, each of a path of at most five segments that one of the globs matches, and warns of a truncated
  selection only when it has the \<open>max\<close> records.
\<close>
theorem live_collect_bounded:
  assumes "live_collect tr c k = (Inr (out, warned), k')"
  shows "int (length out) \<le> max 0 (max_selected c) \<and> list_all (wanted c) out
    \<and> (warned \<longrightarrow> max_selected c \<le> int (length out))"
proof -
  let ?m = "live_walk tr c [''fs'', ''cgroup''] [] 0 (live_start k)"
  consider "out = []" "\<not> warned" | w where "?m = (Inr (), w)" "out = w_out w" "warned = w_truncated w"
    using assms by (auto simp: live_collect_def Let_def split: sum.splits if_splits prod.splits)
  then show ?thesis
  proof cases
    case 1
    then show ?thesis by simp
  next
    case (2 w)
    have "live_ok c (snd ?m)" by (rule keepsD [OF keeps_live_ok(1) collect_start]) (simp_all add: max_cgroup_depth_def)
    with 2 show ?thesis by (simp add: live_ok_def)
  qed
qed

text \<open>
  C19: A cgroup that is removed during a \<open>Collect\<close> can fail all of it. When the walk of the top directory reaches a
  listed directory (the entries before it walked without error, the selection not full) that a glob may
  still match below and that is gone by then, its own \<open>ReadDir\<close> fails, and \<open>Collect\<close> returns that error in
  place of the records already taken.
\<close>
theorem vanished_cgroup_fails_collect:
  assumes "os_stat (tr 0) [''fs'', ''cgroup'', ''cgroup.controllers''] = Inr ()"
    and "os_read_dir (tr 1) [''fs'', ''cgroup''] = Inr (before @ (n, True) # after)"
    and "live_entries tr c [''fs'', ''cgroup''] [] 0 before ((live_start k)\<lparr>l_calls := 2\<rparr>) = (Inr (), w)"
    and "int (length (w_out w)) < max_selected c" and "is_possible_prefix_for_any [n] (glob_segs c)"
    and "gone_from (l_calls w) tr [''fs'', ''cgroup'', n]"
  shows "\<exists>k'. live_collect tr c k = (Inl ErrNotExist, k')"
proof -
  obtain t where "live_entries tr c [''fs'', ''cgroup''] [] 0 [(n, True)] w = (Inl ErrNotExist, t)"
    using gone_entry_fails [of w tr "[''fs'', ''cgroup'']" n c 0 "[]"] assms(4-6) by (auto simp: max_cgroup_depth_def)
  then have "live_entries tr c [''fs'', ''cgroup''] [] 0 ([(n, True)] @ after) w = (Inl ErrNotExist, t)"
    unfolding live_entries_append by (simp add: bind_act_def)
  then have "live_entries tr c [''fs'', ''cgroup''] [] 0 (before @ (n, True) # after) ((live_start k)\<lparr>l_calls := 2\<rparr>)
      = (Inl ErrNotExist, t)"
    by (simp add: live_entries_append bind_act_def assms(3))
  then have "live_walk tr c [''fs'', ''cgroup''] [] 0 (live_start k) = (Inl ErrNotExist, t)"
    using assms(2) by (simp add: live_walk.simps bind_act_def at_call_def live_start_def numeral_2_eq_2)
  then show ?thesis using assms(1) by (simp add: live_collect_def Let_def)
qed

subsection \<open>A container that stops between two reads\<close>

text \<open>The cgroup \<open>b\<close> of the sample tree is gone from the twelfth call on; the walk has taken \<open>a\<close> by then.\<close>

definition stopping :: "nat \<Rightarrow> node" where
  "stopping j = Dir [(''fs'', Dir [(''cgroup'', if j < 12 then sample_cgroups else
      Dir [(''cgroup.controllers'', File ''memory''),
        (''a'', Dir [(''memory.current'', File (counter_file 9)), (''c'', Dir [])])])])]"

definition roomy :: "unit cgroup_collector" where
  "roomy = new_cgroup (stopping 0) [''*''] 5 None"

lemma stopping_early: "j < 12 \<Longrightarrow> stopping j = Dir [(''fs'', Dir [(''cgroup'', sample_cgroups)])]"
  by (simp add: stopping_def)

lemma stopping_a_files:
  assumes "l_calls s = 2"
  shows "live_files stopping [''fs'', ''cgroup'', ''a''] ''a'' s =
    (Inr ((zero_cgroup ''a'')\<lparr>cg_Current := 9\<rparr>), s\<lparr>l_calls := 11\<rparr>)"
  by (simp add: live_files_def bind_act_def at_call_def assms stopping_early read_uint_file_def read_nullable_uint_def
      read_cgroup_psi_def read_memory_stat_def scan_kv_def scan_file_def host_defs sample_cgroups_def zero_cgroup_def)

lemma stopping_a:
  "live_entries stopping roomy [''fs'', ''cgroup''] [] 0 [(''a'', True)] ((live_start ())\<lparr>l_calls := 2\<rparr>) =
    (Inr (), \<lparr>w_out = [(zero_cgroup ''a'')\<lparr>cg_Current := 9\<rparr>], w_truncated = False, w_client = (), l_calls = 12\<rparr>)"
  by (simp add: live_entries_Cons live_pick_def live_down_def live_walk.simps live_entries.simps(1) live_read_def
      bind_act_def act_defs at_call_def live_client_def enrich_def stopping_a_files stopping_early sample_lookup
      roomy_def new_cgroup_def live_start_def matches_any_def match_star double_star_def is_possible_prefix_for_any_def
      max_cgroup_depth_def separator_def)

lemma stopping_b: "gone_from 12 stopping [''fs'', ''cgroup'', ''b'']"
  by (simp add: gone_from_def stopping_def)

theorem vanished_cgroup_fails_collect_witness: "\<exists>k'. live_collect stopping roomy () = (Inl ErrNotExist, k')"
proof (rule vanished_cgroup_fails_collect [OF _ _ stopping_a])
  show "os_stat (stopping 0) [''fs'', ''cgroup'', ''cgroup.controllers''] = Inr ()"
    by (simp add: stopping_early os_stat_def sample_lookup)
  show "os_read_dir (stopping 1) [''fs'', ''cgroup'']
      = Inr ([(''a'', True)] @ (''b'', True) # [(''cgroup.controllers'', False)])"
    by (simp add: stopping_early sample_lookup)
qed (simp_all add: stopping_b roomy_def new_cgroup_def is_possible_prefix_for_any_def match_star double_star_def separator_def)

text \<open>The same trees with room for one record only: \<open>Collect\<close> stops before it asks for \<open>b\<close>.\<close>

lemma cramped_collect:
  "live_collect stopping (roomy\<lparr>max_selected := 1\<rparr>) () =
    (Inr ([(zero_cgroup ''a'')\<lparr>cg_Current := 9\<rparr>], True), ())"
  by (simp add: live_collect_def live_entries_Cons live_pick_def live_down_def live_walk.simps live_read_def
      bind_act_def act_defs at_call_def live_client_def enrich_def stopping_a_files stopping_early sample_lookup os_stat_def
      roomy_def new_cgroup_def live_start_def matches_any_def match_star double_star_def is_possible_prefix_for_any_def
      max_cgroup_depth_def separator_def)

theorem live_collect_bounded_witness:
  "int (length [(zero_cgroup ''a'')\<lparr>cg_Current := 9\<rparr>]) \<le> max 0 1
    \<and> wanted roomy ((zero_cgroup ''a'')\<lparr>cg_Current := 9\<rparr>)"
  using live_collect_bounded [OF cramped_collect] by (simp add: roomy_def new_cgroup_def wanted_def)

section \<open>What the warning says\<close>

text \<open>
  Once the selection is full, any further entry of the top directory raises the warning and ends the walk, a plain
  file like \<open>cgroup.controllers\<close> as well as a cgroup.
\<close>

lemma full_listing_warns:
  assumes "os_stat (tr 0) [''fs'', ''cgroup'', ''cgroup.controllers''] = Inr ()"
    and "os_read_dir (tr 1) [''fs'', ''cgroup''] = Inr (before @ e # after)"
    and "live_entries tr c [''fs'', ''cgroup''] [] 0 before ((live_start k)\<lparr>l_calls := 2\<rparr>) = (Inr (), w)"
    and "max_selected c \<le> int (length (w_out w))"
  shows "live_collect tr c k = (Inr (w_out w, True), w_client w)"
proof -
  have "live_entries tr c [''fs'', ''cgroup''] [] 0 (before @ e # after) ((live_start k)\<lparr>l_calls := 2\<rparr>)
      = (Inr (), w\<lparr>w_truncated := True\<rparr>)"
    by (simp add: live_entries_append bind_act_def assms(3,4) live_entries_full)
  then have "live_walk tr c [''fs'', ''cgroup''] [] 0 (live_start k) = (Inr (), w\<lparr>w_truncated := True\<rparr>)"
    using assms(2) by (simp add: live_walk.simps bind_act_def at_call_def live_start_def numeral_2_eq_2)
  then show ?thesis using assms(1) by (simp add: live_collect_def Let_def)
qed

text \<open>
  So the warning can be false: with room for one record and one cgroup to select, the file that follows in the
  listing raises it.
\<close>

definition lone_cgroup :: node where
  "lone_cgroup = Dir [(''fs'', Dir [(''cgroup'', Dir [(''cgroup.controllers'', File ''memory''), (''a'', Dir [])])])]"

definition lone_collector :: "unit cgroup_collector" where
  "lone_collector = new_cgroup lone_cgroup [''*''] 1 None"

lemma false_warning:
  "live_collect (\<lambda>_. lone_cgroup) lone_collector () = (Inr ([zero_cgroup ''a''], True), ())
    \<and> selected lone_collector (dir_paths 5 (Dir [(''cgroup.controllers'', File ''memory''), (''a'', Dir [])])) = [[''a'']]"
proof -
  let ?s = "(live_start ())\<lparr>l_calls := 2\<rparr>"
  have files: "live_files (\<lambda>_. lone_cgroup) [''fs'', ''cgroup'', ''a''] ''a'' ?s = (Inr (zero_cgroup ''a''), ?s\<lparr>l_calls := 11\<rparr>)"
    by (simp add: live_files_def bind_act_def at_call_def live_start_def lone_cgroup_def read_uint_file_def
        read_nullable_uint_def read_cgroup_psi_def read_memory_stat_def scan_kv_def scan_file_def host_defs zero_cgroup_def)
  have "live_entries (\<lambda>_. lone_cgroup) lone_collector [''fs'', ''cgroup''] [] 0 [(''a'', True)] ?s =
      (Inr (), \<lparr>w_out = [zero_cgroup ''a''], w_truncated = False, w_client = (), l_calls = 12\<rparr>)"
    using files by (simp add: live_entries_Cons live_pick_def live_down_def live_walk.simps live_entries.simps(1) live_read_def
        bind_act_def act_defs at_call_def live_client_def enrich_def lone_cgroup_def os_read_dir_def
        lone_collector_def new_cgroup_def live_start_def matches_any_def match_star double_star_def
        is_possible_prefix_for_any_def max_cgroup_depth_def separator_def)
  from full_listing_warns [OF _ _ this, of "(''cgroup.controllers'', False)" "[]"]
  have "live_collect (\<lambda>_. lone_cgroup) lone_collector () = (Inr ([zero_cgroup ''a''], True), ())"
    by (simp add: os_stat_def os_read_dir_def lone_cgroup_def lone_collector_def new_cgroup_def)
  moreover have "selected lone_collector (dir_paths 5 (Dir [(''cgroup.controllers'', File ''memory''), (''a'', Dir [])])) = [[''a'']]"
    by (simp add: selected_def eval_nat_numeral lone_collector_def new_cgroup_def matches_any_def match_star double_star_def separator_def)
  ultimately show ?thesis by simp
qed

end
