(* ===== verification/Spec2Isabelle.thy ===== *)
theory Spec2Isabelle
  imports ProcFiles NodeFiles GoFloat VllmDump Synth Startup Selftest AgentQueue AgentShip CgroupLive
begin

text \<open>
  A verification library for \<open>memaudit\<close>, a host agent that measures cold and stranded memory.

  \<^bold>\<open>The program.\<close> \<open>memauditd run\<close> (\<open>cmd/memauditd/main.go\<close>) loads its configuration, opens the
  spool, builds its clients and calls \<open>agent.Run\<close>, which starts one goroutine per source and one
  for the shipper. A source collects records with a collector (\<open>internal/collector\<close>, \<open>pkg/damon\<close>)
  and hands them, as envelopes, to the spool (\<open>internal/spool\<close>) under a mutex. The spool appends
  lines to an active file, seals it into compressed segments and keeps them under a cap; the
  shipper (\<open>internal/ship\<close>) lists, sends and removes the segments, concurrently. \<open>memaudit-synth\<close>
  checks the DAMON histogram against a known workload, \<open>memauditd selftest\<close> prints what a host
  supports.

  \<^bold>\<open>Conventions.\<close> \<open>uint64\<close> is \<open>64 word\<close> and wraps; Go's \<open>int\<close> and \<open>time.Duration\<close> (nanoseconds)
  are \<open>int\<close>, with the 64-bit product written out where it can overflow (\<open>Agent.go_int64\<close>). A Go
  string or byte slice is a list of bytes. A function that returns an error returns \<open>err + 'a\<close>;
  the payload of \<open>err\<close> keeps only what callers distinguish. Code that changes state is an action
  (\<open>Effects.act\<close>): a function from the state to result and new state, composed like Go's early
  returns. Paths are lists of names below a root that is a tree (\<open>HostTree.node\<close>), whose entries may
  be unreadable. Go's unspecified map iteration order is a parameter of what iterates.

  \<^bold>\<open>The theories.\<close>
  \<^item> \<open>Prelude\<close>, \<open>Effects\<close>, \<open>HostTree\<close>, \<open>GoStrings\<close>, \<open>GoFloat\<close>, \<open>GoFmt\<close>, \<open>Json\<close>: errors and loops that stop at
    the first error, actions and preserved properties (\<open>keeps\<close>), file trees and the locale
    \<open>field_table\<close> (tables of setters whose order does not matter), the parts of \<open>strings\<close>, \<open>strconv\<close>,
    \<open>bufio.Scanner\<close>, \<open>fmt\<close> and \<open>encoding/json\<close> the program uses.
  \<^item> \<open>ProcFiles\<close> (\<open>vmstat.go\<close>, \<open>meminfo.go\<close>, \<open>psi.go\<close>), \<open>NodeFiles\<close> (\<open>numa.go\<close>, \<open>hugepages.go\<close>): the
    records hold the last value of each key, in order of nodes and sizes, in any map order.
  \<^item> \<open>Iomem\<close>, \<open>DamonHist\<close>, \<open>DamonSession\<close> (\<open>pkg/damon\<close>, \<open>collector/damon.go\<close>): the memory map and its
    round trip, the histogram on words against sums of naturals, the order of the sysfs writes,
    snapshots.
  \<^item> \<open>Glob\<close>, \<open>Cgroup\<close> (\<open>cgroup.go\<close>): \<open>filepath.Match\<close>, glob selection with the locale
    \<open>path_selection\<close> (pruning loses no match), the walk against its specification, the values of
    a record. \<open>CgroupLive\<close>: the same walk call by call, on a hierarchy that changes meanwhile (the \<open>k\<close>-th call
    sees the tree \<open>tr k\<close>); equal to \<open>Cgroup\<close> on a constant tree (\<open>live_collect_still\<close>), with its bounds on any,
    what a cgroup that vanishes does to a \<open>Collect\<close>, and what its warning says. \<open>K8s\<close> (\<open>internal/k8s\<close>): pod UIDs in paths and the pod cache.
  \<^item> \<open>Gpu\<close>, \<open>Vllm\<close>: the \<open>nvidia-smi\<close> and vLLM collectors. \<open>VllmDump\<close>: \<open>vllm_dump.go\<close> and \<open>format.go\<close>, the dump
    of a scrape, one printable line for each sample. \<open>Records\<close>: the JSON of every record and which
    records marshal.
  \<^item> \<open>Disk\<close>, \<open>Spool\<close>: the spool directory and every operation of \<open>spool.go\<close>. Each system call consumes
    an event of a script: the segments the concurrent shipper removes before it, the time that
    passes, and whether it fails and after how many bytes. A theorem about every script is one about
    every interleaving with the shipper and every pattern of failures. \<open>SpoolSafety\<close>, \<open>SpoolSeal\<close>,
    \<open>SpoolInv\<close> hold under every script, \<open>SpoolQuiet\<close> when nothing fails; \<open>SpoolProps\<close> states the
    promises: the spool refines a first-in first-out queue of bytes (\<open>queue\<close>). \<open>SpoolLoss\<close>: any sequence of
    writes under any script keeps every byte, as long as the cap leaves room (\<open>moved\<close>), no
    segment name ever stands for two contents, and a failing write can merge two lines into one.
  \<^item> \<open>Ship\<close>, \<open>ShipProps\<close>: \<open>ship.go\<close> against a list of replies, with the locale \<open>segment_lister\<close> for the
    listing function \<open>Run\<close> is given. \<open>run_ship\<close> and \<open>ship_with_retry\<close> take fuel; \<open>None\<close> is a run that
    is not over. \<open>run_drains\<close> shows that a fuel in the number of segments and replies is enough when
    final replies come, \<open>bad_url_spins\<close> that no fuel is when a request cannot be built.
    \<open>ShipSteps\<close>: the same shipper as a machine that makes one call at a time (\<open>ship_pc\<close>, \<open>pump_next\<close>), so that
    others may act between its calls; alone it computes \<open>run_ship\<close>, and among others it removes only
    segments that the server has answered for good.
  \<^item> \<open>Sources\<close>, \<open>Agent\<close>, \<open>AgentProps\<close>: \<open>sources.go\<close>, and \<open>agent.go\<close> as an inductive step relation on the
    goroutines' phases, the mutex, the shipper and the main goroutine; properties by invariants
    over every schedule. The locale \<open>spool_contract\<close> is what the agent needs of a spool invariant.
    \<open>AgentQueue\<close> composes agent, spool and shipper: in a run without failures (\<open>calm_run\<close>) the delivered
    segments followed by the spool are the lines of the envelopes in the order they were written.
    \<open>AgentLoss\<close>: in a run in which anything may fail, kept with its ledger of writes and removed
    segments (\<open>ledger_run\<close>), every line written without an error is on disk until the shipper
    takes its segment. \<open>AgentShip\<close> puts the shipper's machine in the place of the agent's unspecified
    shipper (\<open>joint_step\<close>): every joint run is a run of \<open>Agent\<close>, every line written is on disk or in a
    segment the server has answered, and after an exit without an error all lines are answered.
  \<^item> \<open>Startup\<close>: \<open>config.go\<close>, \<open>pprofserver.go\<close>, \<open>main.go\<close>. \<open>Selftest\<close>:
    \<open>selftest.go\<close>. \<open>Synth\<close>: \<open>cmd/memaudit-synth\<close>.

  \<^bold>\<open>Parameters.\<close> zstd, ULIDs, JSON numbers' rendering (\<open>Json.codec\<close>), the YAML decoder, the procfs and
  Prometheus parsers, certificates, HTTP replies, \<open>nvidia-smi\<close>'s output, the kernel behind
  \<open>/sys/kernel/mm/damon\<close>, clocks. Hypotheses about them are that a decoder inverts zstd
  and that fresh ULIDs are fresh and increasing.

  \<^bold>\<open>Not modelled.\<close> Log lines; flag parsing; what \<open>net/http\<close> serves at the debug address; the mapping
  and touching of memory of \<open>memaudit-synth\<close> beyond the indices; timeouts of HTTP clients and of
  \<open>nvidia-smi\<close>, which show up as failing replies; the moment at which a ticker fires (any moment is
  allowed).

  \<^bold>\<open>Open ends.\<close> \<open>GoFmt.quote_chars\<close> is not proved to read back; only the cgroup walk and the spool are
  modelled on a file system that changes during an operation, the other collectors read a tree that
  stands still for one \<open>Collect\<close>.
\<close>

end
